(* ===== verification/Prelude.thy ===== *)
theory Prelude
  imports Main "HOL-Library.Word" "HOL-Library.Signed_Division" "HOL-Library.Char_ord"
    "HOL-Library.List_Lexorder"
begin

text \<open>
  Shared vocabulary of the development: results of fallible Go functions as sums, the signed
  64-bit integers of Go with their wrap-around, Go's truncating division, little-endian byte
  strings, bits of byte-array bitmaps, and the generic contract of a transition system with an
  invariant.
\<close>

unbundle bit_operations_syntax

section \<open>Collections of facts\<close>

named_theorems go_simps \<open>rewriting rules for the Go arithmetic and library functions\<close>
named_theorems codec_simps \<open>decoding of freshly encoded fields\<close>
named_theorems bits_simps \<open>bits of byte-array bitmaps\<close>
named_theorems policy_simps \<open>projections of the runtime policy\<close>

section \<open>Results\<close>

text \<open>
  A Go function returning \<open>(T, error)\<close> is a function into \<open>'e + 'a\<close>; \<^const>\<open>Inl\<close> is the
  error. \<open>andThen\<close> is the pattern \<open>if err != nil { return err }\<close>.
\<close>

type_synonym ('e, 'a) result = "'e + 'a"

fun andThen :: "('e, 'a) result \<Rightarrow> ('a \<Rightarrow> ('e, 'b) result) \<Rightarrow> ('e, 'b) result" where
  "andThen (Inl e) f = Inl e"
| "andThen (Inr a) f = f a"

definition guardE :: "bool \<Rightarrow> 'e \<Rightarrow> ('e, unit) result" where
  "guardE ok e = (if ok then Inr () else Inl e)"

fun isOk :: "('e, 'a) result \<Rightarrow> bool" where
  "isOk (Inl e) = False"
| "isOk (Inr a) = True"

lemma andThen_Inr [simp]:
  "andThen r f = Inr b \<longleftrightarrow> (\<exists>a. r = Inr a \<and> f a = Inr b)"
  by (cases r) auto

lemma andThen_Inl:
  "andThen r f = Inl e \<longleftrightarrow> r = Inl e \<or> (\<exists>a. r = Inr a \<and> f a = Inl e)"
  by (cases r) auto

lemma guardE_Inr [simp]: "guardE ok e = Inr u \<longleftrightarrow> ok"
  by (simp add: guardE_def)

lemma guardE_Inl [simp]: "guardE ok e = Inl e' \<longleftrightarrow> \<not> ok \<and> e' = e"
  by (auto simp: guardE_def)

lemma isOk_iff: "isOk r \<longleftrightarrow> (\<exists>a. r = Inr a)"
  by (cases r) auto

lemma isOk_guardE [simp]: "isOk (guardE ok e) = ok"
  by (simp add: guardE_def)

section \<open>Signed 64-bit integers\<close>

text \<open>
  Values of Go's \<open>int64\<close> (and of \<open>int\<close> on the 64-bit targets of the program) are HOL integers
  in the range \<open>in_i64\<close>; an operation that may overflow is written with \<open>wrap64\<close>.
\<close>

abbreviation MaxInt64 :: int where
  "MaxInt64 \<equiv> 9223372036854775807"

definition in_i64 :: "int \<Rightarrow> bool" where
  "in_i64 n \<longleftrightarrow> - 9223372036854775808 \<le> n \<and> n \<le> MaxInt64"

definition wrap64 :: "int \<Rightarrow> int" where
  "wrap64 n = signed_take_bit 63 n"

lemma wrap64_id [go_simps]: "in_i64 n \<Longrightarrow> wrap64 n = n"
  by (simp add: wrap64_def in_i64_def signed_take_bit_int_eq_self)

lemma wrap64_range: "in_i64 (wrap64 n)"
  using signed_take_bit_int_greater_eq_minus_exp [of 63 n] signed_take_bit_int_less_exp [of 63 n]
  by (simp add: wrap64_def in_i64_def)

lemma wrap64_diff: "wrap64 (wrap64 a - b) = wrap64 (a - b)"
  unfolding wrap64_def by (subst (1 2) signed_take_bit_diff [symmetric]) simp

lemma in_i64_small [intro]: "0 \<le> n \<Longrightarrow> n \<le> 2 ^ 62 \<Longrightarrow> in_i64 n"
  by (simp add: in_i64_def)

text \<open>Go's integer division truncates towards zero; on the non-negative operands the code uses it
  on it is \<open>div\<close>.\<close>

lemma sdiv_nonneg [go_simps]: "0 \<le> a \<Longrightarrow> 0 < b \<Longrightarrow> a sdiv b = a div (b::int)"
  by (cases "a = 0") (simp_all add: signed_divide_int_def sgn_1_pos)

lemma smod_nonneg [go_simps]: "0 \<le> a \<Longrightarrow> 0 < b \<Longrightarrow> a smod b = a mod (b::int)"
  by (cases "a = 0") (simp_all add: signed_modulo_int_def sgn_1_pos)

lemma le_div_iff:
  fixes a b x :: int
  assumes "0 < b"
  shows "a \<le> x div b \<longleftrightarrow> a * b \<le> x"
proof
  assume "a \<le> x div b"
  then have "a * b \<le> (x div b) * b" using assms by simp
  also have "\<dots> \<le> x" using assms by (simp add: minus_mod_eq_div_mult [symmetric])
  finally show "a * b \<le> x" .
next
  assume "a * b \<le> x"
  then show "a \<le> x div b" using assms zdiv_mono1 [of "a * b" x b] by simp
qed

section \<open>Bytes\<close>

type_synonym byte = "8 word"
type_synonym bytes = "8 word list"

definition byte_of_char :: "char \<Rightarrow> byte" where
  "byte_of_char c = word_of_nat (of_char c)"

definition char_of_byte :: "byte \<Rightarrow> char" where
  "char_of_byte b = char_of (unat b)"

lemma unat_byte: "unat (b :: byte) < 256"
  using unsigned_less [of b] by simp

lemma char_of_byte_of_char [simp]: "char_of_byte (byte_of_char c) = c"
proof -
  have "(of_char c :: nat) < 256" by simp
  then show ?thesis by (simp add: char_of_byte_def byte_of_char_def unat_of_nat)
qed

lemma byte_of_char_of_byte [simp]: "byte_of_char (char_of_byte b) = b"
proof -
  have "unat b < 256" by (rule unat_byte)
  then show ?thesis by (simp add: char_of_byte_def byte_of_char_def)
qed

text \<open>\<open>le_bytes k n\<close> is what \<open>binary.LittleEndian.AppendUint64\<close> (\<open>k = 8\<close>) and \<open>AppendUint32\<close>
  (\<open>k = 4\<close>) append for the unsigned value \<open>n\<close>; \<open>le_value\<close> is \<open>Uint64\<close>/\<open>Uint32\<close>.\<close>

fun le_bytes :: "nat \<Rightarrow> nat \<Rightarrow> bytes" where
  "le_bytes 0 n = []"
| "le_bytes (Suc k) n = word_of_nat n # le_bytes k (n div 256)"

fun le_value :: "bytes \<Rightarrow> nat" where
  "le_value [] = 0"
| "le_value (b # bs) = unat b + 256 * le_value bs"

lemma length_le_bytes [simp]: "length (le_bytes k n) = k"
  by (induction k arbitrary: n) auto

lemma le_value_le_bytes: "n < 256 ^ k \<Longrightarrow> le_value (le_bytes k n) = n"
proof (induction k arbitrary: n)
  case 0
  then show ?case by simp
next
  case (Suc k)
  from Suc.prems have "n div 256 < 256 ^ k"
    by (simp add: less_mult_imp_div_less mult.commute)
  then have "le_value (le_bytes k (n div 256)) = n div 256"
    by (rule Suc.IH)
  moreover have "unat (word_of_nat n :: byte) = n mod 256"
    by (simp add: unat_of_nat)
  ultimately show ?case by (simp add: mult.commute)
qed

lemma le_value_less: "le_value bs < 256 ^ length bs"
proof (induction bs)
  case Nil
  then show ?case by simp
next
  case (Cons b bs)
  have "unat b \<le> 255" using unat_byte [of b] by simp
  with Cons show ?case by simp
qed

lemma le_bytes_le_value: "le_bytes (length bs) (le_value bs) = bs"
proof (induction bs)
  case Nil
  then show ?case by simp
next
  case (Cons b bs)
  have b: "unat b < 256" by (rule unat_byte)
  then have "(unat b + 256 * le_value bs) div 256 = le_value bs"
    by simp
  moreover have "(word_of_nat (unat b + 256 * le_value bs) :: byte) = b"
  proof -
    have "(256 :: byte) = 0" by simp
    then show ?thesis by (simp only: of_nat_add of_nat_mult of_nat_numeral) simp
  qed
  ultimately show ?case using Cons.IH by simp
qed

section \<open>Bitmaps\<close>

text \<open>A piece bitmap is a byte array, least significant bit first.\<close>

definition piece_bit :: "bytes \<Rightarrow> nat \<Rightarrow> bool" where
  "piece_bit bs p \<longleftrightarrow> p div 8 < length bs \<and> bit (bs ! (p div 8)) (p mod 8)"

lemma piece_bit_Nil [bits_simps]: "\<not> piece_bit [] p"
  by (simp add: piece_bit_def)

lemma piece_bit_map2 [bits_simps]:
  assumes "length xs = length ys"
    and "\<And>a b n. n < 8 \<Longrightarrow> bit (f a b) n = g (bit a n) (bit b n)"
    and "\<not> g False False"
  shows "piece_bit (map2 f xs ys) p = g (piece_bit xs p) (piece_bit ys p)"
proof (cases "p div 8 < length xs")
  case True
  with assms(1,2) show ?thesis by (simp add: piece_bit_def)
next
  case False
  with assms(1,3) show ?thesis by (simp add: piece_bit_def)
qed

lemma piece_bit_update:
  assumes "i < length bs"
  shows "piece_bit (bs[i := v]) p =
    (if p div 8 = i then bit v (p mod 8) else piece_bit bs p)"
  using assms by (auto simp: piece_bit_def nth_list_update)

section \<open>Self-delimiting formats\<close>

text \<open>
  The contract of a wire format: a reader takes one value off the front of the input. It reads what the
  writer wrote, and it accepts nothing else. A format interprets the locale on its own writer and reader.
\<close>

locale self_delimiting =
  fixes writer :: "'a \<Rightarrow> 'c list"
    and reader :: "'c list \<Rightarrow> ('a \<times> 'c list) option"
    and ok :: "'a \<Rightarrow> bool"
  assumes read_write: "ok x \<Longrightarrow> reader (writer x @ rest) = Some (x, rest)"
    and write_read: "reader bs = Some (x, rest) \<Longrightarrow> ok x \<and> bs = writer x @ rest"
begin

text \<open>Two valid values that start the same input are equal, and no value is written as a proper prefix
  of another.\<close>

lemma unambiguous:
  assumes "ok x" "ok y" "writer x @ r = writer y @ s"
  shows "x = y \<and> r = s"
proof -
  have "Some (x, r) = Some (y, s)"
    using read_write [OF assms(1), of r, unfolded assms(3)] read_write [OF assms(2), of s] by (rule trans [OF sym])
  then show ?thesis by simp
qed

lemma write_inj: "ok x \<Longrightarrow> ok y \<Longrightarrow> writer x = writer y \<Longrightarrow> x = y"
  using unambiguous [of x y "[]" "[]"] by simp

lemma accepts_iff: "reader bs = Some (x, rest) \<longleftrightarrow> ok x \<and> bs = writer x @ rest"
  using read_write write_read by blast

end

section \<open>Transition systems\<close>

text \<open>
  The contract of a component with state: what an operation keeps of the invariant. A component
  interprets the locale on its own initial state, step function and invariant.
\<close>

locale invariant_system =
  fixes init :: "'s"
    and step :: "'e \<Rightarrow> 's \<Rightarrow> 's"
    and inv :: "'s \<Rightarrow> bool"
  assumes inv_init: "inv init"
    and inv_step: "inv s \<Longrightarrow> inv (step e s)"
begin

lemma inv_run_from: "inv s \<Longrightarrow> inv (fold step es s)"
  by (induction es arbitrary: s) (auto intro: inv_step)

lemma inv_run: "inv (fold step es init)"
  by (rule inv_run_from) (rule inv_init)

end

end
