(* ===== verification/Models.thy ===== *)
theory Models
  imports Prelude
begin

text \<open>
  The value types of \<open>internal/models\<close> the runtime shares with the repository: the display
  phase, the error reasons, the durable run intent, the intent version and runtime fence, file
  priorities and activation blocks. The Go types are strings with named constants; a value that
  is none of the constants is kept in an \<open>Other\<close> constructor.
\<close>

section \<open>Phases, errors and run intent (\<open>models/torrent.go\<close>, \<open>models/state.go\<close>)\<close>

datatype TorrentState =
    StateQueued
  | StateDownloading
  | StateStreaming
  | StateSeeding
  | StatePaused
  | StateError
  | StateMissingFiles
  | StateDiskFull
  | OtherState string

text \<open>An \<open>ErrorReason\<close> is compared with \<open>""\<close> and converted from and to strings, so it stays a
  string.\<close>

type_synonym ErrorReason = string

abbreviation ErrNone :: ErrorReason where "ErrNone \<equiv> ''''"
abbreviation ErrDiskFull :: ErrorReason where "ErrDiskFull \<equiv> ''Disk full''"
abbreviation ErrMissingFiles :: ErrorReason where "ErrMissingFiles \<equiv> ''Missing files''"
abbreviation ErrVerificationFailed :: ErrorReason where
  "ErrVerificationFailed \<equiv> ''Verification failed''"
abbreviation ErrActivationBlocked :: ErrorReason where
  "ErrActivationBlocked \<equiv> ''Activation blocked''"
abbreviation ErrMetadataPersistence :: ErrorReason where
  "ErrMetadataPersistence \<equiv> ''metadata persistence failed''"
abbreviation ErrInvalidSelection :: ErrorReason where
  "ErrInvalidSelection \<equiv> ''Invalid file selection''"

datatype RunIntent = RunPaused | RunEnabled | OtherRun string

fun RunIntent_Valid :: "RunIntent \<Rightarrow> bool" where
  "RunIntent_Valid v = (v = RunPaused \<or> v = RunEnabled)"

datatype FilePriority = PriorityNormal | PriorityHigh | PriorityNone | OtherPriority int

fun ValidFilePriority :: "FilePriority \<Rightarrow> bool" where
  "ValidFilePriority p = (p = PriorityNormal \<or> p = PriorityHigh \<or> p = PriorityNone)"

section \<open>Fences\<close>

record IntentVersion =
  iv_hash :: string
  iv_record :: string
  iv_revision :: int

record RuntimeFence = IntentVersion +
  rf_attachment :: string

definition emptyFence :: RuntimeFence where
  "emptyFence = \<lparr>iv_hash = '''', iv_record = '''', iv_revision = 0, rf_attachment = ''''\<rparr>"

section \<open>Activation blocks\<close>

datatype ActivationBlockKind =
    BlockVerification
  | BlockMissingFiles
  | BlockLegacyError
  | BlockMetadataPersistence
  | BlockInvalidSelection
  | OtherBlock string

fun BlockKind_Valid :: "ActivationBlockKind \<Rightarrow> bool" where
  "BlockKind_Valid k =
     (k = BlockVerification \<or> k = BlockMissingFiles \<or> k = BlockLegacyError
      \<or> k = BlockMetadataPersistence \<or> k = BlockInvalidSelection)"

fun ResumeRetryable :: "ActivationBlockKind \<Rightarrow> bool" where
  "ResumeRetryable k =
     (k = BlockLegacyError \<or> k = BlockMissingFiles \<or> k = BlockMetadataPersistence
      \<or> k = BlockInvalidSelection)"

end
