(* ===== verification/RuntimePolicy.thy ===== *)
theory RuntimePolicy
  imports Models
begin

text \<open>
  The pure runtime policy of one torrent (\<open>internal/engine/runtime_policy.go\<close>) and the events
  and decisions of \<open>state_transition.go\<close> and \<open>verification_transition.go\<close>. The policy owns the
  runtime's authority; the display phase is an output. The lemmas show which facts every
  accepted event keeps, what a decision tells the library gates to do, and that a safety veto is
  lifted only by the event meant to lift it.
\<close>

section \<open>State\<close>

record runtimePolicy =
  selectionEmpty :: bool
  registered :: bool
  terminal :: bool
  run :: RunIntent
  slot :: bool
  isChecking :: bool
  uncertain :: bool
  initializing :: bool
  verificationFault :: bool
  disk :: string
  metadataFault :: ErrorReason
  selectionFault :: ErrorReason
  missingFault :: ErrorReason
  legacyFault :: ErrorReason
  selectedComplete :: bool
  payloadComplete :: bool

text \<open>The Go zero value \<open>runtimePolicy{}\<close>.\<close>

definition zeroPolicy :: runtimePolicy where
  "zeroPolicy = \<lparr>selectionEmpty = False, registered = False, terminal = False,
     run = OtherRun '''', slot = False, isChecking = False, uncertain = False,
     initializing = False, verificationFault = False, disk = '''', metadataFault = '''',
     selectionFault = '''', missingFault = '''', legacyFault = '''',
     selectedComplete = False, payloadComplete = False\<rparr>"

definition fault :: "runtimePolicy \<Rightarrow> (TorrentState \<times> ErrorReason) option" where
  "fault p =
     (if missingFault p \<noteq> '''' then Some (StateMissingFiles, missingFault p)
      else if metadataFault p \<noteq> '''' then Some (StateError, metadataFault p)
      else if selectionFault p \<noteq> '''' then Some (StateError, selectionFault p)
      else if legacyFault p \<noteq> '''' then Some (StateError, legacyFault p)
      else None)"

definition payloadEligible :: "runtimePolicy \<Rightarrow> bool" where
  "payloadEligible p \<longleftrightarrow>
     registered p \<and> \<not> terminal p \<and> run p = RunEnabled \<and> \<not> initializing p \<and> \<not> isChecking p
     \<and> \<not> uncertain p \<and> \<not> verificationFault p \<and> disk p = '''' \<and> fault p = None"

definition uploadEligible :: "runtimePolicy \<Rightarrow> bool" where
  "uploadEligible p \<longleftrightarrow>
     registered p \<and> \<not> terminal p \<and> run p = RunEnabled \<and> \<not> initializing p \<and> \<not> isChecking p
     \<and> \<not> uncertain p \<and> \<not> verificationFault p \<and> fault p = None"

definition projection :: "runtimePolicy \<Rightarrow> TorrentState \<times> ErrorReason" where
  "projection p =
     (if run p = RunPaused then (StatePaused, ErrNone)
      else if disk p \<noteq> '''' then (StateDiskFull, disk p)
      else case fault p of Some f \<Rightarrow> f
      | None \<Rightarrow>
         (if verificationFault p \<and> \<not> isChecking p then (StateError, ErrVerificationFailed)
          else if \<not> terminal p \<and> \<not> initializing p \<and> \<not> isChecking p \<and> \<not> uncertain p
                  \<and> payloadComplete p \<and> \<not> selectionEmpty p then (StateSeeding, ErrNone)
          else if \<not> terminal p \<and> \<not> initializing p \<and> \<not> isChecking p \<and> \<not> uncertain p
                  \<and> slot p then (StateDownloading, ErrNone)
          else (StateQueued, ErrNone)))"

section \<open>Events and decisions\<close>

datatype stateEventKind =
    stateVerification
  | stateSelectionObserved
  | stateSlotRequested
  | stateSlotReleased
  | stateDiskBlocked
  | statePaused
  | stateRestoreStaged
  | stateApplyFailed
  | stateMetadataFailed
  | stateSelectionInvalid
  | stateRegistered
  | stateActivated
  | stateDeleted
  | stateClosed
  | statePayloadMissing
  | otherEvent string

datatype verificationEvent =
    verificationBegin
  | verificationSucceeded
  | verificationFailed
  | verificationCancelled
  | verificationRestored
  | otherVerification "8 word"

record stateEvent =
  ev_selectionEmpty :: bool
  ev_kind :: stateEventKind
  ev_verification :: verificationEvent
  ev_metadataKnown :: bool
  ev_selectedComplete :: bool
  ev_payloadComplete :: bool
  ev_slotAvailable :: bool
  ev_diskReason :: string
  ev_fullReconcile :: bool
  ev_phase :: TorrentState
  ev_err :: ErrorReason
  ev_staged :: bool
  ev_diskRecovered :: bool

text \<open>\<open>stateEvent{kind: k}\<close>: every other field has its zero value.\<close>

definition event :: "stateEventKind \<Rightarrow> stateEvent" where
  "event k = \<lparr>ev_selectionEmpty = False, ev_kind = k, ev_verification = otherVerification 0,
     ev_metadataKnown = False, ev_selectedComplete = False, ev_payloadComplete = False,
     ev_slotAvailable = False, ev_diskReason = '''', ev_fullReconcile = False,
     ev_phase = OtherState '''', ev_err = '''', ev_staged = False, ev_diskRecovered = False\<rparr>"

record verificationFacts =
  vf_state :: TorrentState
  vf_err :: ErrorReason
  vf_checking :: bool
  vf_uncertain :: bool
  vf_initializing :: bool
  vf_diskBlock :: string

record verificationDecision =
  next_facts :: verificationFacts
  closePayload :: bool
  closeUpload :: bool
  allowUpload :: bool

record stateDecision = verificationDecision +
  new_policy :: runtimePolicy
  selectionComplete :: bool
  resetDownload :: bool
  clearBasePriorities :: bool
  closeBackgroundPayload :: bool
  invalidateApplied :: bool
  d_terminal :: bool

record StateTransitionError =
  te_event :: stateEventKind
  te_reason :: string

section \<open>The transition\<close>

text \<open>The effect flags a branch sets before the common tail of \<open>runtimeTransition\<close>.\<close>

record effects =
  fx_resetDownload :: bool
  fx_closePayload :: bool
  fx_closeUpload :: bool
  fx_allowUpload :: bool
  fx_clearBasePriorities :: bool
  fx_closeBackgroundPayload :: bool
  fx_invalidateApplied :: bool

definition noEffects :: effects where
  "noEffects = \<lparr>fx_resetDownload = False, fx_closePayload = False, fx_closeUpload = False,
     fx_allowUpload = False, fx_clearBasePriorities = False,
     fx_closeBackgroundPayload = False, fx_invalidateApplied = False\<rparr>"

text \<open>Pause, staging, deletion and the fail-closed faults close everything.\<close>

definition quiesceEffects :: effects where
  "quiesceEffects = noEffects\<lparr>fx_resetDownload := True, fx_closePayload := True,
     fx_closeUpload := True, fx_clearBasePriorities := True, fx_invalidateApplied := True\<rparr>"

text \<open>Activation and verification close the payload gate and set the upload gate from the new
  policy.\<close>

definition gateEffects :: "runtimePolicy \<Rightarrow> effects" where
  "gateEffects n = noEffects\<lparr>fx_resetDownload := True, fx_closePayload := True,
     fx_allowUpload := uploadEligible n, fx_closeUpload := \<not> uploadEligible n\<rparr>"

fun knownPhase :: "TorrentState \<Rightarrow> bool" where
  "knownPhase (OtherState s) = False"
| "knownPhase _ = True"

text \<open>Lines 91 to 113: the part of an activation that depends on registration.\<close>

definition activationBase :: "runtimePolicy \<Rightarrow> stateEvent \<Rightarrow> (string, runtimePolicy) result" where
  "activationBase p ev =
     (if ev_kind ev = stateRegistered then
        (if registered p then Inl ''already_registered''
         else Inr (p\<lparr>registered := True, initializing := ev_staged ev, disk := ev_diskReason ev\<rparr>))
      else if \<not> registered p then Inl ''not_registered''
      else if isChecking p \<or> uncertain p then Inl ''verification_veto''
      else if initializing p \<and> \<not> ev_fullReconcile ev then Inl ''initialization_veto''
      else Inr (let n = p\<lparr>initializing := False\<rparr> in
        if ev_diskRecovered ev then
          n\<lparr>disk := '''', metadataFault := '''', selectionFault := '''', missingFault := '''',
             legacyFault := ''''\<rparr>
        else n))"

text \<open>Lines 118 to 142: the persisted phase becomes run intent and independent faults.\<close>

definition activationPhase :: "stateEvent \<Rightarrow> runtimePolicy \<Rightarrow> runtimePolicy" where
  "activationPhase ev n =
     (case ev_phase ev of
        StateMissingFiles \<Rightarrow> n\<lparr>missingFault := ErrMissingFiles\<rparr>
      | StateError \<Rightarrow>
          (if ev_err ev = ErrVerificationFailed then n\<lparr>verificationFault := True\<rparr>
           else if ev_err ev = ErrMetadataPersistence then n\<lparr>metadataFault := ev_err ev\<rparr>
           else if ev_err ev = ErrInvalidSelection then n\<lparr>selectionFault := ev_err ev\<rparr>
           else n\<lparr>legacyFault := (if ev_err ev = '''' then ErrActivationBlocked else ev_err ev)\<rparr>)
      | StateDiskFull \<Rightarrow>
          (if disk n = '''' then n\<lparr>disk := (if ev_err ev = '''' then ErrDiskFull else ev_err ev)\<rparr>
           else n)
      | _ \<Rightarrow> n)"

definition activate :: "runtimePolicy \<Rightarrow> stateEvent \<Rightarrow> (string, runtimePolicy \<times> effects) result" where
  "activate p ev =
     (if \<not> knownPhase (ev_phase ev) then Inl ''unknown_activation_phase''
      else andThen (activationBase p ev) (\<lambda>b.
        let n = activationPhase ev (b\<lparr>run := (if ev_phase ev = StatePaused then RunPaused else RunEnabled)\<rparr>);
            n = n\<lparr>slot := False, payloadComplete := False\<rparr>
        in Inr (n, gateEffects n)))"

definition verify :: "runtimePolicy \<Rightarrow> stateEvent \<Rightarrow> (string, runtimePolicy \<times> effects) result" where
  "verify p ev =
     andThen
       (case ev_verification ev of
          verificationBegin \<Rightarrow>
            (if isChecking p \<or> initializing p then Inl ''verification_conflict''
             else Inr (p\<lparr>isChecking := True, uncertain := True, selectedComplete := False,
                          payloadComplete := False\<rparr>))
        | verificationRestored \<Rightarrow> Inr (p\<lparr>uncertain := True\<rparr>)
        | otherVerification w \<Rightarrow> Inl ''verification_conflict''
        | v \<Rightarrow>
            (if \<not> isChecking p then Inl ''verification_conflict''
             else Inr (p\<lparr>isChecking := False, uncertain := (v \<noteq> verificationSucceeded),
                          verificationFault := (v \<noteq> verificationSucceeded)\<rparr>)))
       (\<lambda>n. let n = n\<lparr>slot := False\<rparr> in Inr (n, gateEffects n))"

definition observeSelection ::
    "runtimePolicy \<Rightarrow> stateEvent \<Rightarrow> (string, runtimePolicy \<times> effects) result" where
  "observeSelection p ev =
     (if \<not> ev_metadataKnown ev then Inl ''metadata_unknown''
      else if ev_payloadComplete ev \<and> \<not> ev_selectedComplete ev then Inl ''inconsistent_completion''
      else if initializing p \<or> isChecking p \<or> uncertain p then Inl ''runtime_veto''
      else let n = p\<lparr>selectedComplete := ev_selectedComplete ev,
                      payloadComplete := ev_payloadComplete ev,
                      selectionEmpty := ev_selectionEmpty ev\<rparr>
           in if selectedComplete n \<or> \<not> payloadEligible n then
                Inr (n\<lparr>slot := False\<rparr>,
                     noEffects\<lparr>fx_resetDownload := slot p, fx_clearBasePriorities := slot p,
                               fx_closeBackgroundPayload := slot p\<rparr>)
              else Inr (n, noEffects))"

definition requestSlot :: "runtimePolicy \<Rightarrow> stateEvent \<Rightarrow> (string, runtimePolicy \<times> effects) result" where
  "requestSlot p ev =
     (if \<not> payloadEligible p then Inl ''runtime_veto''
      else if slot p then Inl ''slot_already_owned''
      else if selectedComplete p \<or> payloadComplete p then Inl ''selection_complete''
      else if \<not> ev_slotAvailable ev then Inl ''capacity_unavailable''
      else Inr (p\<lparr>slot := True\<rparr>, noEffects))"

definition failClosed :: "runtimePolicy \<Rightarrow> stateEvent \<Rightarrow> (string, runtimePolicy \<times> effects) result" where
  "failClosed p ev =
     (let n = p\<lparr>initializing := True, slot := False\<rparr>;
          n = (case ev_kind ev of
                 stateMetadataFailed \<Rightarrow> n\<lparr>metadataFault := ErrMetadataPersistence\<rparr>
               | stateSelectionInvalid \<Rightarrow> n\<lparr>selectionFault := ErrInvalidSelection\<rparr>
               | statePayloadMissing \<Rightarrow> n\<lparr>missingFault := ErrMissingFiles\<rparr>
               | _ \<Rightarrow> n)
      in Inr (n, quiesceEffects))"

definition applyKind :: "runtimePolicy \<Rightarrow> stateEvent \<Rightarrow> (string, runtimePolicy \<times> effects) result" where
  "applyKind p ev =
     (case ev_kind ev of
        stateRegistered \<Rightarrow> activate p ev
      | stateActivated \<Rightarrow> activate p ev
      | stateDeleted \<Rightarrow>
          Inr (p\<lparr>terminal := True, initializing := True, isChecking := False,
                  uncertain := (isChecking p \<or> uncertain p), slot := False\<rparr>, quiesceEffects)
      | stateClosed \<Rightarrow>
          Inr (p\<lparr>terminal := True, initializing := True, isChecking := False,
                  uncertain := (isChecking p \<or> uncertain p), slot := False\<rparr>, quiesceEffects)
      | statePaused \<Rightarrow>
          Inr (p\<lparr>run := RunPaused, slot := False,
                  initializing := (initializing p \<and> \<not> ev_fullReconcile ev)\<rparr>, quiesceEffects)
      | stateRestoreStaged \<Rightarrow>
          (if isChecking p \<or> uncertain p then Inl ''verification_veto''
           else Inr (p\<lparr>initializing := True, slot := False\<rparr>, quiesceEffects))
      | stateVerification \<Rightarrow> verify p ev
      | stateSelectionObserved \<Rightarrow> observeSelection p ev
      | stateSlotRequested \<Rightarrow> requestSlot p ev
      | stateSlotReleased \<Rightarrow>
          (if \<not> slot p then Inl ''slot_not_owned''
           else Inr (p\<lparr>slot := False\<rparr>,
             noEffects\<lparr>fx_resetDownload := True, fx_clearBasePriorities := True,
                        fx_closeBackgroundPayload := True\<rparr>))
      | stateDiskBlocked \<Rightarrow>
          (if ev_diskReason ev = '''' then Inl ''empty_disk_reason''
           else Inr (p\<lparr>disk := ev_diskReason ev, slot := False\<rparr>,
                     noEffects\<lparr>fx_resetDownload := True, fx_closePayload := True\<rparr>))
      | stateApplyFailed \<Rightarrow> failClosed p ev
      | stateMetadataFailed \<Rightarrow> failClosed p ev
      | stateSelectionInvalid \<Rightarrow> failClosed p ev
      | statePayloadMissing \<Rightarrow> failClosed p ev
      | otherEvent s \<Rightarrow> Inl ''unknown_event'')"

definition decide :: "runtimePolicy \<Rightarrow> effects \<Rightarrow> stateDecision" where
  "decide n fx =
     \<lparr>next_facts = \<lparr>vf_state = fst (projection n), vf_err = snd (projection n),
        vf_checking = isChecking n, vf_uncertain = uncertain n, vf_initializing = initializing n,
        vf_diskBlock = disk n\<rparr>,
      closePayload = fx_closePayload fx, closeUpload = fx_closeUpload fx,
      allowUpload = fx_allowUpload fx, new_policy = n, selectionComplete = selectedComplete n,
      resetDownload = fx_resetDownload fx, clearBasePriorities = fx_clearBasePriorities fx,
      closeBackgroundPayload = fx_closeBackgroundPayload fx,
      invalidateApplied = fx_invalidateApplied fx, d_terminal = terminal n\<rparr>"

definition runtimeTransition ::
    "runtimePolicy \<Rightarrow> stateEvent \<Rightarrow> (StateTransitionError, stateDecision) result" where
  "runtimeTransition p ev =
     (let reject = (\<lambda>reason. Inl \<lparr>te_event = ev_kind ev, te_reason = reason\<rparr>) in
      if terminal p then reject ''runtime_terminal''
      else if \<not> registered p \<and> ev_kind ev \<noteq> stateRegistered then reject ''not_registered''
      else case applyKind p ev of
             Inl reason \<Rightarrow> reject reason
           | Inr (n, fx) \<Rightarrow> Inr (decide n fx))"

text \<open>The effect of an event on the stored policy: a rejected event leaves it as it is.\<close>

definition policyStep :: "stateEvent \<Rightarrow> runtimePolicy \<Rightarrow> runtimePolicy" where
  "policyStep ev p = (case runtimeTransition p ev of Inl e \<Rightarrow> p | Inr d \<Rightarrow> new_policy d)"

text \<open>What every accepted event keeps: a slot is held only by a policy that may transfer payload
  and has something left to fetch, a running check keeps the data uncertain, the whole payload is
  complete only when the selection is, a terminal policy is stopped, and an unregistered one is
  untouched.\<close>

definition policyInv :: "runtimePolicy \<Rightarrow> bool" where
  "policyInv p \<longleftrightarrow>
     (slot p \<longrightarrow> payloadEligible p \<and> \<not> selectedComplete p \<and> \<not> payloadComplete p)
     \<and> (isChecking p \<longrightarrow> uncertain p)
     \<and> (payloadComplete p \<longrightarrow> selectedComplete p)
     \<and> (terminal p \<longrightarrow> initializing p \<and> \<not> isChecking p)
     \<and> (registered p \<longrightarrow> run p = RunPaused \<or> run p = RunEnabled)
     \<and> (\<not> registered p \<longrightarrow> p = zeroPolicy)"

text \<open>The events that take any live policy back to a download slot: settle a staged command,
  end a running check, verify the payload, resume with recovery, observe missing data, and ask
  for a slot.\<close>

definition recoveryEvents :: "stateEvent list" where
  "recoveryEvents =
     [(event statePaused)\<lparr>ev_fullReconcile := True\<rparr>,
      (event stateVerification)\<lparr>ev_verification := verificationCancelled\<rparr>,
      (event stateVerification)\<lparr>ev_verification := verificationBegin\<rparr>,
      (event stateVerification)\<lparr>ev_verification := verificationSucceeded\<rparr>,
      (event stateActivated)\<lparr>ev_phase := StateQueued, ev_diskRecovered := True, ev_fullReconcile := True\<rparr>,
      (event stateSelectionObserved)\<lparr>ev_metadataKnown := True\<rparr>,
      (event stateSlotRequested)\<lparr>ev_slotAvailable := True\<rparr>]"

text \<open>A registered, running policy that holds a slot, for the concrete instances below.\<close>

definition exPolicy :: runtimePolicy where
  "exPolicy = zeroPolicy\<lparr>registered := True, run := RunEnabled, slot := True\<rparr>"

section \<open>Lemmas\<close>

lemma fault_None [policy_simps]:
  "fault p = None \<longleftrightarrow>
     missingFault p = '''' \<and> metadataFault p = '''' \<and> selectionFault p = '''' \<and> legacyFault p = ''''"
  by (simp add: fault_def)

lemma fault_update [simp]:
  "fault (p\<lparr>selectionEmpty := a\<rparr>) = fault p"
  "fault (p\<lparr>registered := a\<rparr>) = fault p"
  "fault (p\<lparr>terminal := a\<rparr>) = fault p"
  "fault (p\<lparr>run := r\<rparr>) = fault p"
  "fault (p\<lparr>slot := a\<rparr>) = fault p"
  "fault (p\<lparr>isChecking := a\<rparr>) = fault p"
  "fault (p\<lparr>uncertain := a\<rparr>) = fault p"
  "fault (p\<lparr>initializing := a\<rparr>) = fault p"
  "fault (p\<lparr>verificationFault := a\<rparr>) = fault p"
  "fault (p\<lparr>disk := s\<rparr>) = fault p"
  "fault (p\<lparr>selectedComplete := a\<rparr>) = fault p"
  "fault (p\<lparr>payloadComplete := a\<rparr>) = fault p"
  by (simp_all add: fault_def)

lemmas eligible_simps [policy_simps] = payloadEligible_def uploadEligible_def

lemma eligible_update [simp]:
  "payloadEligible (p\<lparr>slot := a\<rparr>) = payloadEligible p"
  "payloadEligible (p\<lparr>selectionEmpty := a\<rparr>) = payloadEligible p"
  "payloadEligible (p\<lparr>selectedComplete := a\<rparr>) = payloadEligible p"
  "payloadEligible (p\<lparr>payloadComplete := a\<rparr>) = payloadEligible p"
  "uploadEligible (p\<lparr>slot := a\<rparr>) = uploadEligible p"
  "uploadEligible (p\<lparr>selectionEmpty := a\<rparr>) = uploadEligible p"
  "uploadEligible (p\<lparr>selectedComplete := a\<rparr>) = uploadEligible p"
  "uploadEligible (p\<lparr>payloadComplete := a\<rparr>) = uploadEligible p"
  "uploadEligible (p\<lparr>disk := r\<rparr>) = uploadEligible p"
  by (simp_all add: eligible_simps)

lemmas effect_simps [policy_simps] = noEffects_def quiesceEffects_def gateEffects_def

lemma decide_sel [simp]:
  "new_policy (decide n fx) = n"
  "closePayload (decide n fx) = fx_closePayload fx"
  "closeUpload (decide n fx) = fx_closeUpload fx"
  "allowUpload (decide n fx) = fx_allowUpload fx"
  "resetDownload (decide n fx) = fx_resetDownload fx"
  "clearBasePriorities (decide n fx) = fx_clearBasePriorities fx"
  "closeBackgroundPayload (decide n fx) = fx_closeBackgroundPayload fx"
  "invalidateApplied (decide n fx) = fx_invalidateApplied fx"
  "d_terminal (decide n fx) = terminal n"
  "selectionComplete (decide n fx) = selectedComplete n"
  "vf_state (next_facts (decide n fx)) = fst (projection n)"
  "vf_err (next_facts (decide n fx)) = snd (projection n)"
  "vf_checking (next_facts (decide n fx)) = isChecking n"
  "vf_uncertain (next_facts (decide n fx)) = uncertain n"
  "vf_initializing (next_facts (decide n fx)) = initializing n"
  "vf_diskBlock (next_facts (decide n fx)) = disk n"
  by (simp_all add: decide_def)

lemma transition_Inr:
  "runtimeTransition p ev = Inr d \<longleftrightarrow>
     \<not> terminal p \<and> (registered p \<or> ev_kind ev = stateRegistered)
     \<and> (\<exists>n fx. applyKind p ev = Inr (n, fx) \<and> d = decide n fx)"
  by (auto simp: runtimeTransition_def Let_def split: sum.splits)

text \<open>The accepted outcomes of each branch, as one elimination rule: the proofs below reason on
  the events, never on the text of the transition.\<close>

lemmas branch_defs = activate_def activationBase_def activationPhase_def verify_def
  observeSelection_def requestSlot_def failClosed_def

lemma activate_Inr:
  assumes "activate p ev = Inr (n, fx)"
  shows "\<exists>b. activationBase p ev = Inr b
    \<and> n = (activationPhase ev (b\<lparr>run := (if ev_phase ev = StatePaused then RunPaused else RunEnabled)\<rparr>))
            \<lparr>slot := False, payloadComplete := False\<rparr>
    \<and> fx = gateEffects n \<and> knownPhase (ev_phase ev)"
  using assms by (auto simp: activate_def Let_def split: if_splits sum.splits)

lemma activationPhase_sel [simp]:
  "slot (activationPhase ev b) = slot b"
  "terminal (activationPhase ev b) = terminal b"
  "registered (activationPhase ev b) = registered b"
  "isChecking (activationPhase ev b) = isChecking b"
  "uncertain (activationPhase ev b) = uncertain b"
  "initializing (activationPhase ev b) = initializing b"
  "run (activationPhase ev b) = run b"
  "selectedComplete (activationPhase ev b) = selectedComplete b"
  "payloadComplete (activationPhase ev b) = payloadComplete b"
  by (simp_all add: activationPhase_def split: TorrentState.split)

lemma activationPhase_sticky:
  "verificationFault b \<Longrightarrow> verificationFault (activationPhase ev b)"
  "disk b \<noteq> '''' \<Longrightarrow> disk (activationPhase ev b) = disk b"
  by (simp_all add: activationPhase_def split: TorrentState.split)

lemma activationBase_sel:
  assumes "activationBase p ev = Inr b"
  shows "registered b" "terminal b = terminal p" "isChecking b = isChecking p"
    "uncertain b = uncertain p" "selectedComplete b = selectedComplete p"
    "verificationFault b = verificationFault p"
  using assms by (auto simp: activationBase_def Let_def split: if_splits)

lemma verify_Inr:
  assumes "verify p ev = Inr (n, fx)"
  shows "\<not> slot n \<and> fx = gateEffects n \<and> registered n = registered p \<and> terminal n = terminal p
    \<and> run n = run p \<and> initializing n = initializing p \<and> disk n = disk p \<and> fault n = fault p
    \<and> (isChecking n \<longrightarrow> uncertain n)
    \<and> (payloadComplete n \<longrightarrow> payloadComplete p \<and> selectedComplete n = selectedComplete p)
    \<and> (ev_verification ev = verificationSucceeded \<longrightarrow> isChecking p)
    \<and> (ev_verification ev = verificationSucceeded
        \<or> ((uncertain p \<longrightarrow> uncertain n) \<and> (verificationFault p \<longrightarrow> verificationFault n)))"
  using assms
  by (cases "ev_verification ev"; cases "isChecking p";
      clarsimp simp: verify_def Let_def split: if_splits)

lemma policyInvI:
  assumes "\<not> slot n" "registered n" "run n = RunPaused \<or> run n = RunEnabled"
    "isChecking n \<Longrightarrow> uncertain n" "payloadComplete n \<Longrightarrow> selectedComplete n"
    "terminal n \<Longrightarrow> initializing n \<and> \<not> isChecking n"
  shows "policyInv n"
  using assms by (simp add: policyInv_def)

lemma policyInvD:
  assumes "policyInv p"
  shows "registered p \<Longrightarrow> run p = RunPaused \<or> run p = RunEnabled"
    "isChecking p \<Longrightarrow> uncertain p" "payloadComplete p \<Longrightarrow> selectedComplete p"
    "slot p \<Longrightarrow> payloadEligible p" "slot p \<Longrightarrow> \<not> selectedComplete p"
    "\<not> registered p \<Longrightarrow> p = zeroPolicy"
  using assms by (simp_all add: policyInv_def)

lemma activate_inv:
  assumes "policyInv p" "\<not> terminal p" "activate p ev = Inr (n, fx)"
  shows "policyInv n"
proof -
  obtain b where b: "activationBase p ev = Inr b"
    and n: "n = (activationPhase ev (b\<lparr>run := (if ev_phase ev = StatePaused then RunPaused else RunEnabled)\<rparr>))
            \<lparr>slot := False, payloadComplete := False\<rparr>"
    using activate_Inr [OF assms(3)] by blast
  show ?thesis
    using policyInvD(2) [OF assms(1)] assms(2) activationBase_sel [OF b]
    by (intro policyInvI) (simp_all add: n)
qed

lemma verify_inv:
  assumes "policyInv p" "\<not> terminal p" "registered p" "verify p ev = Inr (n, fx)"
  shows "policyInv n"
  using verify_Inr [OF assms(4)] policyInvD(1,3) [OF assms(1)] assms(2,3)
  by (intro policyInvI) simp_all

lemma observeSelection_inv:
  assumes "policyInv p" "\<not> terminal p" "registered p" "observeSelection p ev = Inr (n, fx)"
  shows "policyInv n"
proof -
  let ?m = "p\<lparr>selectedComplete := ev_selectedComplete ev, payloadComplete := ev_payloadComplete ev,
              selectionEmpty := ev_selectionEmpty ev\<rparr>"
  have ok: "ev_payloadComplete ev \<Longrightarrow> ev_selectedComplete ev" "\<not> isChecking p"
    and n: "n = ?m\<lparr>slot := False\<rparr> \<or> n = ?m \<and> payloadEligible ?m \<and> \<not> ev_selectedComplete ev"
    using assms(4) by (auto simp: observeSelection_def Let_def split: if_splits)
  show ?thesis
    using n ok policyInvD(1) [OF assms(1,3)] assms(2,3)
    by (elim disjE) (auto simp: policyInv_def)
qed

lemma requestSlot_Inr:
  assumes "requestSlot p ev = Inr (n, fx)"
  shows "payloadEligible p \<and> \<not> slot p \<and> \<not> selectedComplete p \<and> \<not> payloadComplete p
    \<and> ev_slotAvailable ev \<and> n = p\<lparr>slot := True\<rparr> \<and> fx = noEffects"
  using assms by (simp add: requestSlot_def split: if_splits)

lemma requestSlot_inv:
  assumes "policyInv p" "registered p" "requestSlot p ev = Inr (n, fx)"
  shows "policyInv n"
  using requestSlot_Inr [OF assms(3)] assms(1,2) by (simp add: policyInv_def)

lemma failClosed_Inr:
  assumes "failClosed p ev = Inr (n, fx)"
  shows "\<not> slot n \<and> initializing n \<and> fx = quiesceEffects \<and> registered n = registered p
    \<and> terminal n = terminal p \<and> run n = run p \<and> isChecking n = isChecking p
    \<and> uncertain n = uncertain p \<and> disk n = disk p \<and> verificationFault n = verificationFault p
    \<and> selectedComplete n = selectedComplete p \<and> payloadComplete n = payloadComplete p
    \<and> (fault p \<noteq> None \<longrightarrow> fault n \<noteq> None)"
  using assms unfolding failClosed_def Let_def
  by (cases "ev_kind ev") (clarsimp simp: fault_None simp del: not_None_eq)+

lemma failClosed_inv:
  assumes "policyInv p" "registered p" "\<not> terminal p" "failClosed p ev = Inr (n, fx)"
  shows "policyInv n"
  using failClosed_Inr [OF assms(4)] policyInvD(1-3) [OF assms(1)] assms(2,3)
  by (intro policyInvI) simp_all

lemma policyInv_stopped:
  assumes "policyInv p" "registered p"
  shows "policyInv (p\<lparr>terminal := True, initializing := True, isChecking := False,
            uncertain := (isChecking p \<or> uncertain p), slot := False\<rparr>)"
    "\<not> terminal p \<Longrightarrow> policyInv (p\<lparr>run := RunPaused, slot := False, initializing := b\<rparr>)"
    "\<not> terminal p \<Longrightarrow> policyInv (p\<lparr>initializing := True, slot := False\<rparr>)"
    "policyInv (p\<lparr>slot := False\<rparr>)"
    "policyInv (p\<lparr>disk := r, slot := False\<rparr>)"
  using assms by (simp_all add: policyInv_def)

lemma applyKind_inv:
  assumes "policyInv p" "\<not> terminal p" "registered p \<or> ev_kind ev = stateRegistered"
    "applyKind p ev = Inr (n, fx)"
  shows "policyInv n"
  using assms
  by (cases "ev_kind ev")
     (auto simp: applyKind_def policyInv_stopped split: if_splits
       dest: activate_inv verify_inv observeSelection_inv requestSlot_inv failClosed_inv)

lemma transition_inv:
  assumes "policyInv p" "runtimeTransition p ev = Inr d"
  shows "policyInv (new_policy d)"
  using assms by (metis transition_Inr applyKind_inv decide_sel(1))

lemma policyInv_zero: "policyInv zeroPolicy"
  by (simp add: policyInv_def zeroPolicy_def)

lemma policyStep_inv: "policyInv p \<Longrightarrow> policyInv (policyStep ev p)"
  by (auto simp: policyStep_def split: sum.split dest: transition_inv)

interpretation policy: invariant_system zeroPolicy policyStep policyInv
  by unfold_locales (rule policyInv_zero, rule policyStep_inv)

text \<open>What the effect flags of an accepted event say about the eligibility it leaves.\<close>

lemma observeSelection_Inr:
  assumes "observeSelection p ev = Inr (n, fx)"
  shows "payloadEligible n = payloadEligible p \<and> uploadEligible n = uploadEligible p
    \<and> \<not> fx_closeUpload fx \<and> \<not> fx_allowUpload fx \<and> \<not> fx_closePayload fx
    \<and> uncertain n = uncertain p \<and> verificationFault n = verificationFault p \<and> disk n = disk p
    \<and> fault n = fault p \<and> run n = run p \<and> terminal n = terminal p"
  using assms by (auto simp: observeSelection_def Let_def noEffects_def split: if_splits)

lemma applyKind_gates:
  assumes "applyKind p ev = Inr (n, fx)"
  shows "fx_closePayload fx \<or> payloadEligible n = payloadEligible p"
    and "fx_closeUpload fx \<or> fx_allowUpload fx \<or> uploadEligible n = uploadEligible p"
    and "fx_allowUpload fx \<Longrightarrow> uploadEligible n \<and> \<not> fx_closeUpload fx"
  using assms
  by (cases "ev_kind ev";
      clarsimp simp: applyKind_def effect_simps split: if_splits
        dest!: activate_Inr verify_Inr failClosed_Inr observeSelection_Inr requestSlot_Inr)+

text \<open>Which event can lift a veto.\<close>

lemma activationBase_vetoes:
  assumes "activationBase p ev = Inr b" "registered p"
  shows "ev_kind ev \<noteq> stateRegistered" "ev_diskRecovered ev \<or> disk b = disk p \<and> fault b = fault p"
  using assms by (auto simp: activationBase_def Let_def split: if_splits)

lemma activationPhase_fault: "fault b \<noteq> None \<Longrightarrow> fault (activationPhase ev b) \<noteq> None"
  by (simp add: activationPhase_def fault_None del: not_None_eq split: TorrentState.split)

lemma activate_vetoes:
  assumes "activate p ev = Inr (n, fx)" "registered p"
  shows "ev_kind ev \<noteq> stateRegistered" "uncertain n = uncertain p"
    "verificationFault p \<Longrightarrow> verificationFault n"
    "\<not> ev_diskRecovered ev \<Longrightarrow> disk p \<noteq> '''' \<Longrightarrow> disk n \<noteq> ''''"
    "\<not> ev_diskRecovered ev \<Longrightarrow> fault p \<noteq> None \<Longrightarrow> fault n \<noteq> None"
proof -
  obtain b where b: "activationBase p ev = Inr b"
    and n: "n = (activationPhase ev (b\<lparr>run := (if ev_phase ev = StatePaused then RunPaused else RunEnabled)\<rparr>))
            \<lparr>slot := False, payloadComplete := False\<rparr>"
    using activate_Inr [OF assms(1)] by blast
  note facts = activationBase_vetoes [OF b assms(2)] activationBase_sel [OF b]
  show "ev_kind ev \<noteq> stateRegistered" by (rule facts)
  show "uncertain n = uncertain p" using facts by (simp add: n)
  show "verificationFault p \<Longrightarrow> verificationFault n"
    using facts activationPhase_sticky(1) by (simp add: n)
  show "\<not> ev_diskRecovered ev \<Longrightarrow> disk p \<noteq> '''' \<Longrightarrow> disk n \<noteq> ''''"
    using facts(2) activationPhase_sticky(2) by (simp add: n)
  show "\<not> ev_diskRecovered ev \<Longrightarrow> fault p \<noteq> None \<Longrightarrow> fault n \<noteq> None"
    using facts(2) activationPhase_fault by (simp add: n del: not_None_eq)
qed

lemma applyKind_vetoes:
  assumes "applyKind p ev = Inr (n, fx)" "registered p"
  shows "uncertain p \<Longrightarrow> \<not> uncertain n \<Longrightarrow>
      ev_kind ev = stateVerification \<and> ev_verification ev = verificationSucceeded \<and> isChecking p"
    and "verificationFault p \<Longrightarrow> \<not> verificationFault n \<Longrightarrow>
      ev_kind ev = stateVerification \<and> ev_verification ev = verificationSucceeded \<and> isChecking p"
    and "disk p \<noteq> '''' \<Longrightarrow> disk n = '''' \<Longrightarrow> ev_kind ev = stateActivated \<and> ev_diskRecovered ev"
    and "fault p \<noteq> None \<Longrightarrow> fault n = None \<Longrightarrow> ev_kind ev = stateActivated \<and> ev_diskRecovered ev"
  using assms
  by (cases "ev_kind ev";
      clarsimp simp: applyKind_def split: if_splits simp del: not_None_eq
        dest!: verify_Inr failClosed_Inr observeSelection_Inr requestSlot_Inr;
      use activate_vetoes [OF _ assms(2)] in blast)+

lemma projection_honest:
  assumes "policyInv p"
  shows "fst (projection p) = StateDownloading \<longleftrightarrow> slot p"
    and "fst (projection p) = StateSeeding \<Longrightarrow> uploadEligible p"
proof -
  have faulty: "fault p = Some f \<Longrightarrow> fst f \<noteq> StateDownloading \<and> fst f \<noteq> StateSeeding" for f
    by (auto simp: fault_def split: if_splits)
  show "fst (projection p) = StateDownloading \<longleftrightarrow> slot p"
    using policyInvD [OF assms] faulty
    by (auto simp: projection_def payloadEligible_def split: option.splits)
  show "fst (projection p) = StateSeeding \<Longrightarrow> uploadEligible p"
    using policyInvD(1,6) [OF assms] faulty
    by (cases "registered p")
       (auto simp: projection_def uploadEligible_def zeroPolicy_def split: option.splits if_splits)
qed

lemma policyStep_terminal: "terminal p \<Longrightarrow> policyStep ev p = p"
  by (simp add: policyStep_def runtimeTransition_def)

lemma run_terminal: "terminal p \<Longrightarrow> fold policyStep evs p = p"
  by (induction evs) (simp_all add: policyStep_terminal)

lemmas step_defs = policyStep_def runtimeTransition_def applyKind_def event_def Let_def

section \<open>Properties\<close>

text \<open>C5: Every sequence of events, accepted or rejected, leads from the zero value to a policy
  in which a download slot is held only while payload transfer is allowed and data is missing, a
  running check keeps the data uncertain, and a terminal policy is stopped.\<close>

theorem policy_invariant: "policyInv (fold policyStep evs zeroPolicy)"
  by (rule policy.inv_run)

text \<open>C6: The gates follow the policy. An accepted event that takes payload eligibility away
  closes the payload gate, one that takes upload eligibility away closes the upload gate, and
  the upload gate is told to open only when the new policy allows uploads.\<close>

theorem gates_follow_policy:
  assumes "runtimeTransition p ev = Inr d"
  shows "(payloadEligible p \<and> \<not> payloadEligible (new_policy d) \<longrightarrow> closePayload d)
    \<and> (uploadEligible p \<and> \<not> uploadEligible (new_policy d) \<longrightarrow> closeUpload d)
    \<and> (allowUpload d \<longrightarrow> uploadEligible (new_policy d) \<and> \<not> closeUpload d)"
  using assms applyKind_gates by (auto simp: transition_Inr) blast+

theorem gates_follow_policy_witness:
  "closePayload (decide (exPolicy\<lparr>run := RunPaused, slot := False\<rparr>) quiesceEffects)
   \<and> closeUpload (decide (exPolicy\<lparr>run := RunPaused, slot := False\<rparr>) quiesceEffects)"
  using gates_follow_policy [of exPolicy "event statePaused"
      "decide (exPolicy\<lparr>run := RunPaused, slot := False\<rparr>) quiesceEffects"]
  by (simp add: step_defs exPolicy_def zeroPolicy_def eligible_simps fault_def)

text \<open>C8: Safety vetoes are lifted only on evidence. Data becomes certain, and a verification
  fault is cleared, only when a running check succeeds; a disk block or another fault is cleared
  only by an activation that reports recovery.\<close>

theorem vetoes_need_evidence:
  assumes "policyInv p" "runtimeTransition p ev = Inr d"
  shows "(uncertain p \<and> \<not> uncertain (new_policy d) \<or> verificationFault p \<and> \<not> verificationFault (new_policy d)
          \<longrightarrow> ev_kind ev = stateVerification \<and> ev_verification ev = verificationSucceeded \<and> isChecking p)
    \<and> (disk p \<noteq> '''' \<and> disk (new_policy d) = '''' \<or> fault p \<noteq> None \<and> fault (new_policy d) = None
          \<longrightarrow> ev_kind ev = stateActivated \<and> ev_diskRecovered ev)"
proof (cases "registered p")
  case True
  obtain n fx where n: "applyKind p ev = Inr (n, fx)" "d = decide n fx"
    using assms(2) by (auto simp: transition_Inr)
  show ?thesis using applyKind_vetoes [OF n(1) True] n(2) by auto
next
  case False
  then have "p = zeroPolicy" using policyInvD(6) [OF assms(1)] by simp
  then show ?thesis by (simp add: zeroPolicy_def fault_def)
qed

theorem vetoes_need_evidence_witness:
  "let p = exPolicy\<lparr>slot := False, isChecking := True, uncertain := True\<rparr>;
       ev = (event stateVerification)\<lparr>ev_verification := verificationSucceeded\<rparr>;
       d = decide (exPolicy\<lparr>slot := False\<rparr>) (gateEffects (exPolicy\<lparr>slot := False\<rparr>))
   in policyInv p \<and> runtimeTransition p ev = Inr d \<and> uncertain p \<and> \<not> uncertain (new_policy d)
      \<and> ev_kind ev = stateVerification \<and> ev_verification ev = verificationSucceeded \<and> isChecking p"
proof -
  let ?p = "exPolicy\<lparr>slot := False, isChecking := True, uncertain := True\<rparr>"
    and ?ev = "(event stateVerification)\<lparr>ev_verification := verificationSucceeded\<rparr>"
    and ?d = "decide (exPolicy\<lparr>slot := False\<rparr>) (gateEffects (exPolicy\<lparr>slot := False\<rparr>))"
  have h: "policyInv ?p" "runtimeTransition ?p ?ev = Inr ?d" "uncertain ?p" "\<not> uncertain (new_policy ?d)"
    by (simp_all add: step_defs verify_def exPolicy_def zeroPolicy_def policyInv_def)
  from vetoes_need_evidence [OF h(1,2)] h show ?thesis unfolding Let_def by blast
qed

text \<open>The displayed phase is honest. In every reachable policy the phase is Downloading
  exactly when a slot is held, and Seeding only when uploading is allowed.\<close>

lemma phase_is_honest:
  "let p = fold policyStep evs zeroPolicy in
     (fst (projection p) = StateDownloading \<longleftrightarrow> slot p)
     \<and> (fst (projection p) = StateSeeding \<longrightarrow> uploadEligible p)"
  unfolding Let_def using projection_honest [OF policy.inv_run] by blast

lemma phase_is_honest_example:
  "fst (projection (fold policyStep ((event stateRegistered)\<lparr>ev_phase := StateQueued\<rparr> # recoveryEvents)
      zeroPolicy)) = StateDownloading"
  using phase_is_honest [of "(event stateRegistered)\<lparr>ev_phase := StateQueued\<rparr> # recoveryEvents"]
  by code_simp

text \<open>Deletion is final. After a registered policy accepts a deletion no later sequence of
  events changes it, and it never again allows payload, uploads or a slot.\<close>

lemma deletion_is_final:
  assumes "registered p" "\<not> terminal p"
  shows "let q = policyStep (event stateDeleted) p in
    fold policyStep evs q = q \<and> terminal q \<and> \<not> payloadEligible q \<and> \<not> uploadEligible q \<and> \<not> slot q"
proof -
  have "terminal (policyStep (event stateDeleted) p)"
    and "\<not> slot (policyStep (event stateDeleted) p)"
    using assms by (simp_all add: policyStep_def runtimeTransition_def applyKind_def event_def)
  then show ?thesis by (simp add: Let_def run_terminal eligible_simps)
qed

lemma deletion_is_final_example:
  "registered exPolicy \<and> \<not> terminal exPolicy
   \<and> fold policyStep recoveryEvents (policyStep (event stateDeleted) exPolicy)
       = policyStep (event stateDeleted) exPolicy"
  using deletion_is_final [of exPolicy recoveryEvents]
  by (simp add: exPolicy_def zeroPolicy_def Let_def)

text \<open>C37: No live policy is stuck. Whatever vetoes a registered, not terminal policy has
  collected, the recovery events end with a download slot and the Downloading phase.\<close>

theorem recovery_reaches_slot:
  assumes "registered p" "\<not> terminal p"
  shows "slot (fold policyStep recoveryEvents p)
    \<and> projection (fold policyStep recoveryEvents p) = (StateDownloading, ErrNone)"
proof -
  define p1 where "p1 = policyStep ((event statePaused)\<lparr>ev_fullReconcile := True\<rparr>) p"
  have p1: "registered p1 \<and> \<not> terminal p1 \<and> \<not> initializing p1"
    using assms by (simp add: p1_def step_defs)
  define p2 where "p2 = policyStep ((event stateVerification)\<lparr>ev_verification := verificationCancelled\<rparr>) p1"
  have p2: "registered p2 \<and> \<not> terminal p2 \<and> \<not> initializing p2 \<and> \<not> isChecking p2"
    using p1 by (simp add: p2_def step_defs verify_def)
  define p3 where "p3 = policyStep ((event stateVerification)\<lparr>ev_verification := verificationBegin\<rparr>) p2"
  have p3: "registered p3 \<and> \<not> terminal p3 \<and> \<not> initializing p3 \<and> isChecking p3"
    using p2 by (simp add: p3_def step_defs verify_def)
  define p4 where "p4 = policyStep ((event stateVerification)\<lparr>ev_verification := verificationSucceeded\<rparr>) p3"
  have p4: "registered p4 \<and> \<not> terminal p4 \<and> \<not> initializing p4 \<and> \<not> isChecking p4 \<and> \<not> uncertain p4
    \<and> \<not> verificationFault p4"
    using p3 by (simp add: p4_def step_defs verify_def)
  define p5 where "p5 = policyStep ((event stateActivated)\<lparr>ev_phase := StateQueued,
    ev_diskRecovered := True, ev_fullReconcile := True\<rparr>) p4"
  have p5: "payloadEligible p5 \<and> \<not> slot p5 \<and> \<not> payloadComplete p5"
    using p4 by (simp add: p5_def step_defs activate_def activationBase_def activationPhase_def
        payloadEligible_def fault_None)
  define p6 where "p6 = policyStep ((event stateSelectionObserved)\<lparr>ev_metadataKnown := True\<rparr>) p5"
  have p6: "payloadEligible p6 \<and> \<not> slot p6 \<and> \<not> payloadComplete p6 \<and> \<not> selectedComplete p6"
    using p5 by (simp add: p6_def step_defs observeSelection_def eligible_simps)
  have "fold policyStep recoveryEvents p = p6\<lparr>slot := True\<rparr>"
    using p6 unfolding recoveryEvents_def
    by (simp add: p1_def [symmetric] p2_def [symmetric] p3_def [symmetric] p4_def [symmetric]
        p5_def [symmetric] p6_def [symmetric])
       (simp add: step_defs requestSlot_def eligible_simps)
  then show ?thesis using p6 by (simp add: projection_def payloadEligible_def)
qed

theorem recovery_reaches_slot_witness:
  "slot (fold policyStep recoveryEvents (exPolicy\<lparr>slot := False, disk := ErrDiskFull,
      isChecking := True, uncertain := True, missingFault := ErrMissingFiles\<rparr>))"
  using recovery_reaches_slot [of "exPolicy\<lparr>slot := False, disk := ErrDiskFull,
      isChecking := True, uncertain := True, missingFault := ErrMissingFiles\<rparr>"]
  by (simp add: exPolicy_def zeroPolicy_def)

end
