(* ===== verification/FileProgress.thy ===== *)
theory FileProgress
  imports Prelude
begin

text \<open>
  Verified bytes of files (\<open>engine/progress.go\<close>). The engine turns the library's runs of piece
  states into a prefix function by binary search over intervals; a file counts as complete when
  the prefix grows by the file's length over the file. The lemmas show that the prefix function
  is exactly the number of verified bytes below a position, and so that the completeness test is
  the byte-wise one. All sums and products wrap around as \<open>int64\<close>; the lemmas assume that the pieces
  together have at most \<open>MaxInt64\<close> bytes.
\<close>

section \<open>Binary search (Go's \<open>sort.Search\<close>)\<close>

function searchLoop :: "(nat \<Rightarrow> bool) \<Rightarrow> nat \<Rightarrow> nat \<Rightarrow> nat" where
  "searchLoop f i j =
     (if i < j then
        let h = (i + j) div 2 in
        if \<not> f h then searchLoop f (h + 1) j else searchLoop f i h
      else i)"
  by auto
termination by (relation "measure (\<lambda>(f, i, j). j - i)") auto

declare searchLoop.simps [simp del]

definition sortSearch :: "nat \<Rightarrow> (nat \<Rightarrow> bool) \<Rightarrow> nat" where
  "sortSearch n f = searchLoop f 0 n"

section \<open>The prefix function\<close>

record PieceStateRun =
  RunLength :: int
  RunOk :: bool
  RunComplete :: bool
  RunChecking :: bool
  RunMarking :: bool

record interval =
  i_start :: int
  i_end :: int
  i_before :: int
  i_complete :: bool

definition runComplete :: "PieceStateRun \<Rightarrow> bool" where
  "runComplete run \<longleftrightarrow> RunOk run \<and> RunComplete run \<and> \<not> RunChecking run \<and> \<not> RunMarking run"

text \<open>The loop of \<open>verifiedPrefix\<close>: the intervals and the final total.\<close>

fun buildIntervals :: "int \<Rightarrow> int \<Rightarrow> int \<Rightarrow> PieceStateRun list \<Rightarrow> interval list \<times> int" where
  "buildIntervals pieceLength off tot [] = ([], tot)"
| "buildIntervals pieceLength off tot (run # runs) =
     (let e = wrap64 (off + wrap64 (RunLength run * pieceLength));
          c = runComplete run;
          (is, t) = buildIntervals pieceLength e (if c then wrap64 (tot + wrap64 (e - off)) else tot) runs
      in (\<lparr>i_start = off, i_end = e, i_before = tot, i_complete = c\<rparr> # is, t))"

definition verifiedPrefix :: "PieceStateRun list \<Rightarrow> int \<Rightarrow> int \<Rightarrow> int" where
  "verifiedPrefix runs pieceLength pos =
     (let (intervals, tot) = buildIntervals pieceLength 0 0 runs in
      if pos \<le> 0 \<or> intervals = [] then 0
      else let i = sortSearch (length intervals) (\<lambda>i. i_end (intervals ! i) \<ge> pos) in
        if i = length intervals then tot
        else let r = intervals ! i in
          if i_complete r then wrap64 (wrap64 (i_before r + pos) - i_start r) else i_before r)"

text \<open>The completeness test of \<open>reconcileSelectionLocked\<close> for a file at \<open>offset\<close>.\<close>

definition fileComplete :: "PieceStateRun list \<Rightarrow> int \<Rightarrow> int \<Rightarrow> int \<Rightarrow> bool" where
  "fileComplete runs pieceLength offset len \<longleftrightarrow>
     wrap64 (verifiedPrefix runs pieceLength (wrap64 (offset + len)) - verifiedPrefix runs pieceLength offset) = len"

text \<open>The specification: byte \<open>b\<close> lies in a run whose pieces are verified.\<close>

fun verifiedByte :: "int \<Rightarrow> PieceStateRun list \<Rightarrow> int \<Rightarrow> bool" where
  "verifiedByte pieceLength [] b = False"
| "verifiedByte pieceLength (run # runs) b =
     (if b < RunLength run * pieceLength then runComplete run
      else verifiedByte pieceLength runs (b - RunLength run * pieceLength))"

definition wellFormedRuns :: "PieceStateRun list \<Rightarrow> bool" where
  "wellFormedRuns runs \<longleftrightarrow> list_all (\<lambda>r. 0 \<le> RunLength r) runs"

text \<open>The pieces of all runs together, counted as \<open>pieceLength\<close> bytes each, have a 64-bit size.\<close>

definition fitsInt64 :: "int \<Rightarrow> PieceStateRun list \<Rightarrow> bool" where
  "fitsInt64 pieceLength runs \<longleftrightarrow> (\<Sum>r\<leftarrow>runs. RunLength r * pieceLength) \<le> MaxInt64"

definition exRuns :: "PieceStateRun list" where
  "exRuns = [\<lparr>RunLength = 2, RunOk = True, RunComplete = True, RunChecking = False, RunMarking = False\<rparr>,
             \<lparr>RunLength = 1, RunOk = True, RunComplete = False, RunChecking = False, RunMarking = False\<rparr>,
             \<lparr>RunLength = 3, RunOk = True, RunComplete = True, RunChecking = False, RunMarking = False\<rparr>]"

section \<open>Binary search finds the first index\<close>

lemma searchLoop_first:
  assumes "i \<le> j" and "\<And>a b. a \<le> b \<Longrightarrow> b < n \<Longrightarrow> f a \<Longrightarrow> f b" and "j \<le> n"
    and "\<forall>k<i. \<not> f k" and "j < n \<longrightarrow> f j"
  shows "searchLoop f i j \<le> n \<and> (\<forall>k < searchLoop f i j. \<not> f k)
         \<and> (searchLoop f i j < n \<longrightarrow> f (searchLoop f i j))"
  using assms
proof (induction f i j rule: searchLoop.induct)
  case (1 f i j)
  show ?case
  proof (cases "i < j")
    case False
    then have eq: "searchLoop f i j = i" by (subst searchLoop.simps) simp
    show ?thesis unfolding eq using 1(3,5-7) False by simp
  next
    case True
    define h where "h = (i + j) div 2"
    have h: "i \<le> h" "h < j" using True by (auto simp: h_def)
    show ?thesis
    proof (cases "f h")
      case False
      have *: "\<forall>k<h + 1. \<not> f k"
        using False 1(4)[of _ h] h 1(5) by (metis less_Suc_eq_le Suc_eq_plus1 order.strict_trans2)
      have eq: "searchLoop f i j = searchLoop f (h + 1) j"
        using True False by (subst searchLoop.simps) (simp add: Let_def h_def)
      show ?thesis
        unfolding eq by (rule 1(1)[OF True h_def False _ 1(4,5) * 1(7)]) (use h in simp)
    next
      case True': True
      have eq: "searchLoop f i j = searchLoop f i h"
        using True True' by (subst searchLoop.simps) (simp add: Let_def h_def)
      have "\<not> \<not> f h" using True' by simp
      from 1(2)[OF True h_def this h(1) 1(4) _ 1(6)] show ?thesis
        unfolding eq using h 1(5) True' by simp
    qed
  qed
qed

lemma sortSearch_first:
  assumes "\<And>a b. a \<le> b \<Longrightarrow> b < n \<Longrightarrow> f a \<Longrightarrow> f b"
  shows "sortSearch n f \<le> n" and "k < sortSearch n f \<Longrightarrow> \<not> f k"
    and "sortSearch n f < n \<Longrightarrow> f (sortSearch n f)"
  using searchLoop_first[of 0 n n f] assms by (auto simp: sortSearch_def)

lemma sortSearch_unique:
  assumes "\<And>a b. a \<le> b \<Longrightarrow> b < n \<Longrightarrow> f a \<Longrightarrow> f b"
    and "i \<le> n" and "\<forall>k<i. \<not> f k" and "i < n \<longrightarrow> f i"
  shows "sortSearch n f = i"
proof (rule linorder_cases)
  assume "sortSearch n f < i"
  then show ?thesis using assms sortSearch_first(3)[of n f] by auto
next
  assume "i < sortSearch n f"
  then show ?thesis using assms sortSearch_first(1,2)[of n f] by (metis order.strict_trans2)
qed

section \<open>The prefix function counts verified bytes\<close>

text \<open>The first interval that ends at or after a position, by linear search.\<close>

fun scan :: "int \<Rightarrow> interval list \<Rightarrow> int \<Rightarrow> int" where
  "scan pos [] tot = tot"
| "scan pos (r # rs) tot =
     (if i_end r \<ge> pos then if i_complete r then i_before r + pos - i_start r else i_before r
      else scan pos rs tot)"

lemma scan_nth:
  assumes "i \<le> length is" "\<forall>k<i. \<not> i_end (is ! k) \<ge> pos" "i < length is \<longrightarrow> i_end (is ! i) \<ge> pos"
  shows "scan pos is tot = (if i = length is then tot
           else if i_complete (is ! i) then i_before (is ! i) + pos - i_start (is ! i) else i_before (is ! i))"
  using assms
proof (induction "is" arbitrary: i)
  case (Cons r rs)
  show ?case
  proof (cases i)
    case (Suc k)
    then have "\<not> i_end r \<ge> pos" using Cons.prems(2) by fastforce
    moreover have "\<forall>m<k. \<not> i_end (rs ! m) \<ge> pos" using Cons.prems(2) Suc by fastforce
    ultimately show ?thesis using Cons.IH[of k] Cons.prems Suc by simp
  qed (use Cons.prems in simp)
qed simp

text \<open>The intervals without wrap-around, and that there is none within the bound.\<close>

fun exactIntervals :: "int \<Rightarrow> int \<Rightarrow> int \<Rightarrow> PieceStateRun list \<Rightarrow> interval list \<times> int" where
  "exactIntervals pl off tot [] = ([], tot)"
| "exactIntervals pl off tot (run # runs) =
     (let w = RunLength run * pl;
          rest = exactIntervals pl (off + w) (if runComplete run then tot + w else tot) runs
      in (\<lparr>i_start = off, i_end = off + w, i_before = tot, i_complete = runComplete run\<rparr> # fst rest, snd rest))"

declare exactIntervals.simps(2) [simp del]
lemmas exactIntervals_Cons = exactIntervals.simps(2)

lemma wellFormedRuns_Cons:
  "wellFormedRuns (run # runs) \<longleftrightarrow> 0 \<le> RunLength run \<and> wellFormedRuns runs"
  by (simp add: wellFormedRuns_def)

lemma buildIntervals_exact:
  assumes "0 < pl" "wellFormedRuns runs" "0 \<le> tot" "tot \<le> off" "off + (\<Sum>r\<leftarrow>runs. RunLength r * pl) \<le> MaxInt64"
  shows "buildIntervals pl off tot runs = exactIntervals pl off tot runs"
  using assms
proof (induction runs arbitrary: off tot)
  case (Cons run runs)
  let ?w = "RunLength run * pl"
  have w: "0 \<le> ?w" and wf: "wellFormedRuns runs" using Cons.prems(1,2) by (simp_all add: wellFormedRuns_Cons)
  have "0 \<le> (\<Sum>r\<leftarrow>runs. RunLength r * pl)"
    using Cons.prems(1) wf by (intro sum_list_nonneg) (auto simp: wellFormedRuns_def list_all_iff)
  then have le: "off + ?w \<le> MaxInt64" using Cons.prems(5) by simp
  have "wrap64 ?w = ?w" "wrap64 (off + ?w) = off + ?w" "wrap64 (tot + ?w) = tot + ?w"
    using w le Cons.prems(3,4) by (auto intro!: wrap64_id simp: in_i64_def)
  moreover have "buildIntervals pl (off + ?w) t runs = exactIntervals pl (off + ?w) t runs" if "t = tot + ?w \<or> t = tot" for t
    using that w Cons.prems by (intro Cons.IH[OF Cons.prems(1) wf]) auto
  ultimately show ?case by (simp add: exactIntervals_Cons Let_def case_prod_beta)
qed simp

lemma exactIntervals_ends:
  assumes "0 < pl" "wellFormedRuns runs" "r \<in> set (fst (exactIntervals pl off tot runs))"
  shows "off \<le> i_end r"
  using assms
proof (induction runs arbitrary: off tot)
  case (Cons run runs)
  have "0 \<le> RunLength run * pl" using Cons.prems(1,2) by (simp add: wellFormedRuns_def)
  moreover have "wellFormedRuns runs" using Cons.prems(2) by (simp add: wellFormedRuns_def)
  ultimately show ?case
    using Cons.prems(1,3) Cons.IH[of "off + RunLength run * pl" "if runComplete run then tot + RunLength run * pl else tot"]
    by (auto simp: exactIntervals_Cons Let_def simp del: if_split)
qed simp

lemma exactIntervals_sorted:
  assumes "0 < pl" "wellFormedRuns runs"
  shows "sorted (map i_end (fst (exactIntervals pl off tot runs)))"
  using assms
proof (induction runs arbitrary: off tot)
  case (Cons run runs)
  let ?e = "off + RunLength run * pl" and ?t = "if runComplete run then tot + RunLength run * pl else tot"
  have wf: "wellFormedRuns runs" using Cons.prems by (simp add: wellFormedRuns_def)
  have "\<forall>r \<in> set (fst (exactIntervals pl ?e ?t runs)). ?e \<le> i_end r"
    using exactIntervals_ends[OF Cons.prems(1) wf] by blast
  then show ?case
    using Cons.IH[OF Cons.prems(1) wf, of ?e ?t] by (simp add: exactIntervals_Cons Let_def del: if_split)
qed simp

text \<open>Verified bytes below \<open>pos\<close>, relative to the start of \<open>runs\<close>.\<close>

definition countVerified :: "int \<Rightarrow> PieceStateRun list \<Rightarrow> int \<Rightarrow> int" where
  "countVerified pl runs pos = int (card {b. 0 \<le> b \<and> b < pos \<and> verifiedByte pl runs b})"

lemma countVerified_Cons:
  assumes "0 \<le> RunLength run * pl" "0 \<le> pos"
  shows "countVerified pl (run # runs) pos =
    (let w = RunLength run * pl in
     if pos \<le> w then (if runComplete run then pos else 0)
     else (if runComplete run then w else 0) + countVerified pl runs (pos - w))"
proof -
  let ?w = "RunLength run * pl"
  have split: "{b. 0 \<le> b \<and> b < pos \<and> verifiedByte pl (run # runs) b} =
    (if runComplete run then {0..<min pos ?w} else {})
    \<union> (\<lambda>b. b + ?w) ` {b. 0 \<le> b \<and> b < pos - ?w \<and> verifiedByte pl runs b}" (is "?L = ?A \<union> ?B")
  proof (rule set_eqI)
    fix b
    have "b \<in> ?B \<longleftrightarrow> ?w \<le> b \<and> b < pos \<and> verifiedByte pl runs (b - ?w)"
      by (auto simp: image_iff intro: exI[of _ "b - ?w"])
    then show "b \<in> ?L \<longleftrightarrow> b \<in> ?A \<union> ?B" using assms by auto
  qed
  have fin: "finite {b. 0 \<le> b \<and> b < pos - ?w \<and> verifiedByte pl runs b}"
    by (rule finite_subset[of _ "{0..<pos - ?w}"]) auto
  have "card ?L = card ?A + card ?B"
    unfolding split by (rule card_Un_disjoint) (use fin in auto)
  moreover have "card ?B = card {b. 0 \<le> b \<and> b < pos - ?w \<and> verifiedByte pl runs b}"
    by (rule card_image) (auto simp: inj_on_def)
  moreover have "countVerified pl runs (pos - ?w) = 0" if "pos \<le> ?w"
    using that by (auto simp: countVerified_def intro!: card_eq_0_iff[THEN iffD2])
  ultimately show ?thesis
    using assms by (auto simp: countVerified_def Let_def)
qed

lemma scan_countVerified:
  assumes "0 < pl" "wellFormedRuns runs" "off \<le> pos"
  shows "case exactIntervals pl off tot runs of (is, t) \<Rightarrow>
           scan pos is t = tot + countVerified pl runs (pos - off)"
  using assms
proof (induction runs arbitrary: off tot)
  case Nil
  then show ?case by (simp add: countVerified_def)
next
  case (Cons run runs)
  let ?w = "RunLength run * pl"
  have w: "0 \<le> ?w" and wf: "wellFormedRuns runs"
    using Cons.prems(1,2) by (simp_all add: wellFormedRuns_def)
  have c: "countVerified pl (run # runs) (pos - off) =
    (if pos - off \<le> ?w then (if runComplete run then pos - off else 0)
     else (if runComplete run then ?w else 0) + countVerified pl runs (pos - off - ?w))"
    using countVerified_Cons[OF w, of "pos - off" runs] Cons.prems(3) by (simp add: Let_def)
  show ?case
    using Cons.IH[OF Cons.prems(1) wf, of "off + ?w" "if runComplete run then tot + ?w else tot"] Cons.prems(3) c
    by (cases "runComplete run") (auto simp: exactIntervals_Cons Let_def case_prod_beta algebra_simps)
qed

lemma countVerified_range: "0 \<le> countVerified pl runs pos \<and> countVerified pl runs pos \<le> max 0 pos"
proof -
  have "card {b. 0 \<le> b \<and> b < pos \<and> verifiedByte pl runs b} \<le> card {0..<pos}" by (rule card_mono) auto
  then show ?thesis by (simp add: countVerified_def)
qed

text \<open>The closure finds the interval of the linear scan; only its last subtraction may wrap.\<close>

lemma verifiedPrefix_scan:
  assumes "0 < pl" "wellFormedRuns runs" "fitsInt64 pl runs" "0 < pos"
  defines "v \<equiv> (case exactIntervals pl 0 0 runs of (is, t) \<Rightarrow> scan pos is t)"
  shows "verifiedPrefix runs pl pos \<in> {v, wrap64 v}"
proof -
  obtain "is" t where e: "exactIntervals pl 0 0 runs = (is, t)" by fastforce
  then have b: "buildIntervals pl 0 0 runs = (is, t)"
    using buildIntervals_exact[OF assms(1,2), of 0 0] assms(3) by (simp add: fitsInt64_def)
  let ?f = "\<lambda>i. i_end (is ! i) \<ge> pos" and ?i = "sortSearch (length is) (\<lambda>i. i_end (is ! i) \<ge> pos)"
  have s: "sorted (map i_end is)" using exactIntervals_sorted[OF assms(1,2), of 0 0] e by simp
  have mono: "?f y" if "x \<le> y" "y < length is" "?f x" for x y
    using sorted_nth_mono[OF s, of x y] that by simp
  have first: "?i \<le> length is" "\<forall>k<?i. \<not> ?f k" "?i < length is \<longrightarrow> ?f ?i"
    using sortSearch_first[of "length is" ?f] mono by blast+
  have "v = (if ?i = length is then t
           else if i_complete (is ! ?i) then i_before (is ! ?i) + pos - i_start (is ! ?i) else i_before (is ! ?i))"
    unfolding v_def e prod.case by (rule scan_nth) (rule first)+
  moreover have "is = [] \<Longrightarrow> t = 0" using e by (cases runs) (auto simp: exactIntervals_Cons Let_def)
  ultimately show ?thesis
    using assms(4) b first(1) by (auto simp: verifiedPrefix_def Let_def wrap64_diff)
qed

lemma verifiedPrefix_count:
  assumes "0 < pl" "wellFormedRuns runs" "fitsInt64 pl runs" "in_i64 pos"
  shows "verifiedPrefix runs pl pos = countVerified pl runs pos"
proof (cases "0 < pos")
  case True
  let ?v = "case exactIntervals pl 0 0 runs of (is, t) \<Rightarrow> scan pos is t"
  have v: "?v = countVerified pl runs pos"
    using scan_countVerified[OF assms(1,2), of 0 pos 0] True by (simp add: case_prod_beta)
  then have "wrap64 ?v = ?v"
    using countVerified_range[of pl runs pos] assms(4) True by (intro wrap64_id) (auto simp: in_i64_def)
  then show ?thesis using verifiedPrefix_scan[OF assms(1-3) True] v by auto
next
  case False
  then have e: "{b. 0 \<le> b \<and> b < pos \<and> verifiedByte pl runs b} = {}" by auto
  have "countVerified pl runs pos = 0" unfolding countVerified_def e by simp
  then show ?thesis using False by (simp add: verifiedPrefix_def case_prod_beta)
qed

text \<open>C30: the prefix function that \<open>verifiedPrefix\<close> builds over the library's runs of piece states
  (a binary search over cumulated intervals, in wrapping 64-bit arithmetic) returns, for every 64-bit
  position, exactly the number of bytes below it that lie in a piece that is known, complete, not being
  checked and not being marked, provided that the pieces together have at most \<open>MaxInt64\<close> bytes.\<close>

theorem verifiedPrefix_counts_bytes:
  assumes "0 < pieceLength" "wellFormedRuns runs" "fitsInt64 pieceLength runs" "in_i64 pos"
  shows "verifiedPrefix runs pieceLength pos
         = int (card {b. 0 \<le> b \<and> b < pos \<and> verifiedByte pieceLength runs b})"
  using verifiedPrefix_count[OF assms] by (simp add: countVerified_def)

theorem verifiedPrefix_counts_bytes_witness:
  "verifiedPrefix exRuns 10 45 = int (card {b. 0 \<le> b \<and> b < 45 \<and> verifiedByte 10 exRuns b})"
  by (rule verifiedPrefix_counts_bytes) (simp_all add: wellFormedRuns_def exRuns_def fitsInt64_def in_i64_def)

text \<open>The completeness test of the selection reconciler is the byte-wise one: a file is taken
  as complete exactly when every one of its bytes lies in a verified piece, shared boundary
  pieces and piece runs that end inside the file included.\<close>

lemma fileComplete_bytes:
  assumes "0 < pl" "wellFormedRuns runs" "0 \<le> off" "0 \<le> len" and fit: "fitsInt64 pl runs" "off + len \<le> MaxInt64"
  shows "fileComplete runs pl off len \<longleftrightarrow> (\<forall>b. off \<le> b \<and> b < off + len \<longrightarrow> verifiedByte pl runs b)"
proof -
  let ?V = "\<lambda>n. {b. 0 \<le> b \<and> b < n \<and> verifiedByte pl runs b}"
  let ?F = "{b \<in> {off..<off + len}. verifiedByte pl runs b}"
  have fin: "finite (?V n)" for n by (rule finite_subset[of _ "{0..<n}"]) auto
  have finF: "finite ?F" by (rule finite_subset[of _ "{off..<off + len}"]) auto
  have "?V (off + len) = ?V off \<union> ?F" "?V off \<inter> ?F = {}" using assms(3,4) by auto
  then have "card (?V (off + len)) = card (?V off) + card ?F"
    using card_Un_disjoint[OF fin[of off] finF] by simp
  then have sum: "countVerified pl runs (off + len) = countVerified pl runs off + int (card ?F)" by (simp add: countVerified_def)
  have range: "in_i64 off" "in_i64 (off + len)" using assms(3,4) fit(2) by (simp_all add: in_i64_def)
  have "in_i64 (int (card ?F))"
    using sum countVerified_range[of pl runs "off + len"] countVerified_range[of pl runs off] assms(3,4) fit(2)
    unfolding in_i64_def by linarith
  moreover have "verifiedPrefix runs pl (wrap64 (off + len)) - verifiedPrefix runs pl off = int (card ?F)"
    using verifiedPrefix_count[OF assms(1,2) fit(1)] range sum by (simp only: wrap64_id)
  ultimately have "fileComplete runs pl off len \<longleftrightarrow> int (card ?F) = len"
    unfolding fileComplete_def by (simp only: wrap64_id)
  also have "\<dots> \<longleftrightarrow> card ?F = card {off..<off + len}" using assms(4) by auto
  also have "\<dots> \<longleftrightarrow> ?F = {off..<off + len}"
  proof
    assume "card ?F = card {off..<off + len}"
    then show "?F = {off..<off + len}" by (intro card_subset_eq) auto
  qed (rule arg_cong[where f = card])
  also have "\<dots> \<longleftrightarrow> (\<forall>b. off \<le> b \<and> b < off + len \<longrightarrow> verifiedByte pl runs b)"
    unfolding set_eq_iff mem_Collect_eq atLeastLessThan_iff by blast
  finally show ?thesis .
qed

lemma fileComplete_bytes_example:
  "fileComplete exRuns 10 32 25 \<longleftrightarrow> (\<forall>b. 32 \<le> b \<and> b < 32 + 25 \<longrightarrow> verifiedByte 10 exRuns b)"
  by (rule fileComplete_bytes) (simp_all add: wellFormedRuns_def exRuns_def fitsInt64_def)

end
