(* ===== verification/ManagedTorrent.thy ===== *)
theory ManagedTorrent
  imports RuntimePolicy FileProgress "HOL-Library.AList"
begin

text \<open>
  One runtime generation: the library's data gates and write-error latch
  (\<open>pkg/anacrolix-torrent/torrent.go\<close>), the engine's \<open>ManagedTorrent\<close> with the projections of its
  policy (\<open>engine/engine.go\<close>, \<open>state_transition.go\<close>), and the operations that work on a single
  generation while \<open>admissionMu\<close> is held: quiescing, blocking, file priorities, selection and
  verification. The generation invariant ties the gates to the policy: the download gate is open
  only when the policy allows payload and no write error is latched.
\<close>

section \<open>Library gates\<close>

datatype storageError = ENOSPC | OtherStorage string

datatype PiecePriority = PiecePriorityNone | PiecePriorityNormal | PiecePriorityHigh

record libFile =
  f_offset :: int
  f_length :: int
  f_priority :: PiecePriority

text \<open>\<open>libFiles\<close> is \<^const>\<open>None\<close> until the metadata is known (\<open>Info() == nil\<close>).\<close>

record libTorrent =
  dataDownloadDisallowed :: bool
  dataUploadDisallowed :: bool
  lastWriteChunkErr :: "storageError option"
  lastWriteChunkErrVersion :: "64 word"
  libClosed :: bool
  libFiles :: "libFile list option"
  pieceLength :: int
  verificationSelection :: "int list"
  networkingEnabled :: bool

definition onWriteChunkErr :: "storageError \<Rightarrow> libTorrent \<Rightarrow> libTorrent" where
  "onWriteChunkErr e t = t\<lparr>lastWriteChunkErr := Some e,
     lastWriteChunkErrVersion := lastWriteChunkErrVersion t + 1, dataDownloadDisallowed := True\<rparr>"

definition DisallowDataDownload :: "libTorrent \<Rightarrow> libTorrent" where
  "DisallowDataDownload t = t\<lparr>dataDownloadDisallowed := True\<rparr>"

text \<open>\<open>Inl None\<close> is the error of a closed torrent.\<close>

definition AllowDataDownloadIfNoWriteError :: "libTorrent \<Rightarrow> (storageError option, libTorrent) result" where
  "AllowDataDownloadIfNoWriteError t =
     (if libClosed t then Inl None
      else case lastWriteChunkErr t of
        Some e \<Rightarrow> Inl (Some e)
      | None \<Rightarrow> Inr (t\<lparr>dataDownloadDisallowed := False\<rparr>))"

definition ClearWriteChunkErrorIfVersion :: "64 word \<Rightarrow> libTorrent \<Rightarrow> (unit, libTorrent) result" where
  "ClearWriteChunkErrorIfVersion version t =
     (if version \<noteq> lastWriteChunkErrVersion t then Inl () else Inr (t\<lparr>lastWriteChunkErr := None\<rparr>))"

definition DataDownloadAllowed :: "libTorrent \<Rightarrow> bool" where
  "DataDownloadAllowed t \<longleftrightarrow> \<not> libClosed t \<and> \<not> dataDownloadDisallowed t"

definition AllowDataUpload :: "libTorrent \<Rightarrow> libTorrent" where
  "AllowDataUpload t = t\<lparr>dataUploadDisallowed := False\<rparr>"

definition DisallowDataUpload :: "libTorrent \<Rightarrow> libTorrent" where
  "DisallowDataUpload t = t\<lparr>dataUploadDisallowed := True\<rparr>"

text \<open>\<open>SetPriority(None)\<close> on every file, when the metadata is known.\<close>

definition clearFilePriorities :: "libTorrent \<Rightarrow> libTorrent" where
  "clearFilePriorities t =
     t\<lparr>libFiles := map_option (map (\<lambda>f. f\<lparr>f_priority := PiecePriorityNone\<rparr>)) (libFiles t)\<rparr>"

section \<open>The generation\<close>

text \<open>The \<open>Retry\<close> hint of an apply failure is a constant and left out.\<close>

record RecheckOperation =
  op_id :: "64 word"
  op_status :: string
  op_error :: string

record IntentApplyFailure =
  iaf_record :: string
  iaf_revision :: int
  iaf_code :: string

text \<open>The identity of a verification attempt, and whether it has an operation in the history.\<close>

record verificationAttempt =
  at_id :: nat
  at_operation :: bool

text \<open>A ticket of unlocked work: what was captured when the admission lock was released. The Go
  code compares ticket pointers; here a ticket has a number of its own.\<close>

record payloadPreparation =
  tk_id :: nat
  tk_epoch :: "64 word"
  tk_fence :: RuntimeFence
  tk_slot :: "64 word"

text \<open>\<open>generation\<close> stands for the identity of the Go object, \<open>raw\<close> for the identity of the library
  torrent it wraps.\<close>

record ManagedTorrent =
  hash :: string
  generation :: nat
  raw :: nat
  infoHash :: string
  lib :: libTorrent
  mt_state :: TorrentState
  mt_err :: ErrorReason
  rechecking :: bool
  verificationUncertain :: bool
  mt_initializing :: bool
  downloadBlock :: string
  mt_selectionComplete :: bool
  mt_terminal :: bool
  policy :: runtimePolicy
  policyEpoch :: "64 word"
  slotToken :: "64 word"
  appliedIntentRevision :: int
  downloadAllStarted :: bool
  downloadBlockPersisted :: bool
  filePriorities :: "(int \<times> FilePriority) list"
  queuePosition :: int
  addedAt :: int
  runtimeFence :: RuntimeFence
  observationSequence :: int
  currentAttempt :: "verificationAttempt option"
  recheckOperation :: "RecheckOperation option"
  intentApplyFailure :: "IntentApplyFailure option"
  safetyBlocks :: "(ActivationBlockKind \<times> string) list"
  expectedPayload :: "int list"
  preparation :: "nat option"
  healthProbe :: "nat option"
  sourceURI :: string
  mtCancelled :: bool

definition InfoKnown :: "ManagedTorrent \<Rightarrow> bool" where
  "InfoKnown mt \<longleftrightarrow> libFiles (lib mt) \<noteq> None"

definition fileCount :: "ManagedTorrent \<Rightarrow> int" where
  "fileCount mt = (case libFiles (lib mt) of None \<Rightarrow> 0 | Some fs \<Rightarrow> int (length fs))"

definition onLib :: "(libTorrent \<Rightarrow> libTorrent) \<Rightarrow> ManagedTorrent \<Rightarrow> ManagedTorrent" where
  "onLib f mt = mt\<lparr>lib := f (lib mt)\<rparr>"

section \<open>Events on a generation (\<open>state_transition.go\<close>)\<close>

definition applyStateEventLocked ::
    "stateEvent \<Rightarrow> ManagedTorrent \<Rightarrow> (StateTransitionError, stateDecision \<times> ManagedTorrent) result" where
  "applyStateEventLocked ev mt =
     (case runtimeTransition (policy mt) ev of
        Inl e \<Rightarrow> Inl e
      | Inr d \<Rightarrow>
         Inr (d, mt\<lparr>
           policyEpoch := (if policy mt \<noteq> new_policy d then policyEpoch mt + 1 else policyEpoch mt),
           policy := new_policy d,
           slotToken := (if slot (new_policy d) \<and> ev_kind ev = stateSlotRequested
                         then slotToken mt + 1 else slotToken mt),
           rechecking := vf_checking (next_facts d),
           verificationUncertain := vf_uncertain (next_facts d),
           mt_initializing := vf_initializing (next_facts d),
           downloadBlock := vf_diskBlock (next_facts d),
           mt_selectionComplete := selectionComplete d,
           mt_state := vf_state (next_facts d),
           mt_err := vf_err (next_facts d),
           mt_terminal := d_terminal d,
           safetyBlocks := (if ev_kind ev = stateActivated \<and> ev_diskRecovered ev then [] else safetyBlocks mt),
           expectedPayload := (if ev_kind ev = stateActivated \<and> ev_diskRecovered ev then [] else expectedPayload mt),
           downloadAllStarted := (if resetDownload d then False else downloadAllStarted mt),
           appliedIntentRevision := (if invalidateApplied d then 0 else appliedIntentRevision mt)\<rparr>))"

definition applyVerificationEventLocked ::
    "verificationEvent \<Rightarrow> ManagedTorrent \<Rightarrow> (StateTransitionError, stateDecision \<times> ManagedTorrent) result" where
  "applyVerificationEventLocked v = applyStateEventLocked ((event stateVerification)\<lparr>ev_verification := v\<rparr>)"

section \<open>Quiescing (\<open>quiesce.go\<close>)\<close>

definition applyQuiesceLocked :: "stateDecision \<Rightarrow> ManagedTorrent \<Rightarrow> ManagedTorrent" where
  "applyQuiesceLocked d mt =
     (let mt = (if closePayload d then onLib DisallowDataDownload mt else mt);
          mt = (if closeUpload d then onLib DisallowDataUpload mt else mt)
      in if clearBasePriorities d \<and> InfoKnown mt then onLib clearFilePriorities mt else mt)"

text \<open>A persistence callback: not installed, or called with an outcome.\<close>

datatype callback = Unset | Succeeds | Fails string

datatype engineError =
    CtxErr
  | TorrentNotFound string
  | OperationConflict
  | DownloadBlocked string
  | NotInitialized
  | Rejected StateTransitionError
  | PersistFailed string
  | MetadataFailed string
  | MetadataNotReady
  | IndexOutOfBounds
  | InvalidPriority
  | InvalidBinding
  | InvalidFailureCode
  | TaskLimit
  | VerificationError string
  | Cancelled
  | GenerationClosed
  | MergeFailed

definition safetyKey :: "stateEventKind \<Rightarrow> (ActivationBlockKind \<times> string) option" where
  "safetyKey k =
     (case k of
        stateMetadataFailed \<Rightarrow> Some (BlockMetadataPersistence, ErrMetadataPersistence)
      | stateSelectionInvalid \<Rightarrow> Some (BlockInvalidSelection, ErrInvalidSelection)
      | statePayloadMissing \<Rightarrow> Some (BlockMissingFiles, ErrMissingFiles)
      | _ \<Rightarrow> None)"

definition persistSafetyFaultLocked ::
    "callback \<Rightarrow> stateEventKind \<Rightarrow> ManagedTorrent \<Rightarrow> engineError option \<times> ManagedTorrent" where
  "persistSafetyFaultLocked save k mt =
     (case safetyKey k of
        None \<Rightarrow> (None, mt)
      | Some (kind, reason) \<Rightarrow>
         (let mt = mt\<lparr>safetyBlocks := AList.update kind reason (safetyBlocks mt)\<rparr> in
          if rf_attachment (runtimeFence mt) = '''' then (None, mt)
          else (case save of Fails m \<Rightarrow> Some (PersistFailed m) | _ \<Rightarrow> None, mt)))"

text \<open>The \<open>currentTorrent\<close> guard of \<open>quiesceFaultLocked\<close> is at the engine level.\<close>

definition quiesceFault ::
    "callback \<Rightarrow> stateEventKind \<Rightarrow> ManagedTorrent \<Rightarrow> engineError option \<times> ManagedTorrent" where
  "quiesceFault save k mt =
     (case applyStateEventLocked (event k) mt of
        Inl e \<Rightarrow> (Some (Rejected e), mt)
      | Inr (d, mt) \<Rightarrow> persistSafetyFaultLocked save k (applyQuiesceLocked d mt))"

text \<open>The \<open>currentTorrent\<close> guard of \<open>blockDownloadLocked\<close> is at the engine level too.\<close>

definition blockDownload ::
    "callback \<Rightarrow> string \<Rightarrow> ManagedTorrent \<Rightarrow> engineError option \<times> ManagedTorrent" where
  "blockDownload save reason mt =
     (let changed = (downloadBlock mt \<noteq> reason) in
      case applyStateEventLocked ((event stateDiskBlocked)\<lparr>ev_diskReason := reason\<rparr>) mt of
        Inl e \<Rightarrow> (Some (Rejected e), mt)
      | Inr (d, mt) \<Rightarrow>
         (let mt = (if changed then mt\<lparr>downloadBlockPersisted := False\<rparr> else mt);
              persist = \<not> downloadBlockPersisted mt;
              mt = onLib DisallowDataDownload mt
          in if persist then
               (case save of
                  Unset \<Rightarrow> (None, mt)
                | Fails m \<Rightarrow> (Some (PersistFailed m), mt)
                | Succeeds \<Rightarrow> (None, mt\<lparr>downloadBlockPersisted := True\<rparr>))
             else (None, mt)))"

text \<open>Blocking with the error of the failed check, unless blocking itself fails.\<close>

definition blockAndReport ::
    "callback \<Rightarrow> string \<Rightarrow> ManagedTorrent \<Rightarrow> engineError option \<times> ManagedTorrent" where
  "blockAndReport save reason mt =
     (case blockDownload save reason mt of
        (Some e, mt) \<Rightarrow> (Some e, mt)
      | (None, mt) \<Rightarrow> (Some (DownloadBlocked reason), mt))"

definition writeErrorReason :: "storageError option \<Rightarrow> string" where
  "writeErrorReason e =
     (if e = Some ENOSPC then ''Disk full: ENOSPC from payload writer''
      else ''payload storage write failed'')"

section \<open>File priorities (\<open>priority.go\<close>)\<close>

fun mapToPiecePriority :: "FilePriority \<Rightarrow> PiecePriority" where
  "mapToPiecePriority PriorityNone = PiecePriorityNone"
| "mapToPiecePriority PriorityHigh = PiecePriorityHigh"
| "mapToPiecePriority _ = PiecePriorityNormal"

text \<open>Reading a Go map: the zero value \<^const>\<open>PriorityNormal\<close> where there is no entry.\<close>

definition priorityOf :: "(int \<times> FilePriority) list \<Rightarrow> int \<Rightarrow> FilePriority" where
  "priorityOf ps i = (case map_of ps i of None \<Rightarrow> PriorityNormal | Some p \<Rightarrow> p)"

definition defaultPriorities :: "nat \<Rightarrow> (int \<times> FilePriority) list \<Rightarrow> (int \<times> FilePriority) list" where
  "defaultPriorities n ps =
     fold (\<lambda>i ps. if map_of ps (int i) = None then AList.update (int i) PriorityNormal ps else ps) [0..<n] ps"

definition installPriorities :: "runtimePolicy \<Rightarrow> (int \<times> FilePriority) list \<Rightarrow> libTorrent \<Rightarrow> libTorrent" where
  "installPriorities p ps t =
     (case libFiles t of
        None \<Rightarrow> t
      | Some fs \<Rightarrow> t\<lparr>
          verificationSelection := filter (\<lambda>i. priorityOf ps i \<noteq> PriorityNone) (map int [0..<length fs]),
          libFiles := Some (map (\<lambda>(i, f). f\<lparr>f_priority :=
              (if \<not> payloadEligible p \<or> \<not> slot p \<and> \<not> payloadComplete p then PiecePriorityNone
               else mapToPiecePriority (priorityOf ps (int i)))\<rparr>) (enumerate 0 fs))\<rparr>)"

definition applyFilePrioritiesAndDownload ::
    "callback \<Rightarrow> ManagedTorrent \<Rightarrow> engineError option \<times> ManagedTorrent" where
  "applyFilePrioritiesAndDownload save mt =
     (if \<not> InfoKnown mt then (Some MetadataNotReady, mt)
      else if mt_initializing mt then (Some NotInitialized, mt)
      else if list_ex (\<lambda>(i, _). i < 0 \<or> i \<ge> fileCount mt) (filePriorities mt) then
        (case applyStateEventLocked (event stateSelectionInvalid) mt of
           Inl e \<Rightarrow> (Some (Rejected e), mt)
         | Inr (d, mt) \<Rightarrow>
            (Some IndexOutOfBounds, snd (persistSafetyFaultLocked save stateSelectionInvalid (applyQuiesceLocked d mt))))
      else
        (let mt = mt\<lparr>filePriorities := defaultPriorities (nat (fileCount mt)) (filePriorities mt)\<rparr>
         in (None, onLib (installPriorities (policy mt) (filePriorities mt)) mt)))"

text \<open>What the last stream of a file leaves: the priorities of the selection, or none while the
  torrent may not have payload. Its error is ignored by the caller.\<close>

definition basePriorities :: "callback \<Rightarrow> ManagedTorrent \<Rightarrow> engineError option \<times> ManagedTorrent" where
  "basePriorities save mt =
     (if \<not> payloadEligible (policy mt) then (None, onLib clearFilePriorities mt)
      else applyFilePrioritiesAndDownload save mt)"

definition setPriorities :: "(int \<times> FilePriority) list \<Rightarrow> ManagedTorrent \<Rightarrow> ManagedTorrent" where
  "setPriorities ps mt =
     mt\<lparr>filePriorities := fold (\<lambda>(i, p). AList.update i p) ps (filePriorities mt),
        policyEpoch := policyEpoch mt + 1\<rparr>"

definition SetFilePriority ::
    "callback \<Rightarrow> int \<Rightarrow> FilePriority \<Rightarrow> ManagedTorrent \<Rightarrow> engineError option \<times> ManagedTorrent" where
  "SetFilePriority save i p mt =
     (if InfoKnown mt then
        if i \<ge> 0 \<and> i < fileCount mt then applyFilePrioritiesAndDownload save (setPriorities [(i, p)] mt)
        else (Some IndexOutOfBounds, mt)
      else (None, setPriorities [(i, p)] mt))"

definition SetTorrentFilesPriority ::
    "callback \<Rightarrow> FilePriority \<Rightarrow> ManagedTorrent \<Rightarrow> engineError option \<times> ManagedTorrent" where
  "SetTorrentFilesPriority save p mt =
     (let mt = setPriorities (if InfoKnown mt then map (\<lambda>i. (int i, p)) [0..<nat (fileCount mt)] else []) mt
      in if InfoKnown mt then applyFilePrioritiesAndDownload save mt else (Some MetadataNotReady, mt))"

definition validPriorities :: "ManagedTorrent \<Rightarrow> (int \<times> FilePriority) list \<Rightarrow> bool" where
  "validPriorities mt ps \<longleftrightarrow>
     list_all (\<lambda>(i, p). \<not> (i < 0 \<or> InfoKnown mt \<and> i \<ge> fileCount mt \<or> \<not> ValidFilePriority p)) ps"

definition SetFilePriorities ::
    "callback \<Rightarrow> (int \<times> FilePriority) list \<Rightarrow> ManagedTorrent \<Rightarrow> engineError option \<times> ManagedTorrent" where
  "SetFilePriorities save ps mt =
     (if \<not> validPriorities mt ps then (Some InvalidPriority, mt)
      else let mt = setPriorities ps mt in
        if InfoKnown mt then applyFilePrioritiesAndDownload save mt else (None, mt))"

section \<open>Selection (\<open>selection.go\<close>)\<close>

text \<open>The environment's view in one pass: the piece state runs, and whether the torrent is streamed.\<close>

definition applyBackgroundReleaseLocked :: "bool \<Rightarrow> stateDecision \<Rightarrow> ManagedTorrent \<Rightarrow> ManagedTorrent" where
  "applyBackgroundReleaseLocked streaming d mt =
     (if clearBasePriorities d then
        (let mt = onLib clearFilePriorities mt in
         if closeBackgroundPayload d \<and> \<not> streaming then onLib DisallowDataDownload mt else mt)
      else mt)"

definition reconcileSelectionLocked ::
    "PieceStateRun list \<Rightarrow> bool \<Rightarrow> ManagedTorrent \<Rightarrow> ManagedTorrent" where
  "reconcileSelectionLocked runs streaming mt =
     (case libFiles (lib mt) of
        None \<Rightarrow> mt
      | Some fs \<Rightarrow>
         if mt_initializing mt \<or> rechecking mt \<or> verificationUncertain mt then mt
         else
           (let fileDone = (\<lambda>f. fileComplete runs (pieceLength (lib mt)) (f_offset f) (f_length f));
                chosen = filter (\<lambda>(i, f). priorityOf (filePriorities mt) (int i) \<noteq> PriorityNone) (enumerate 0 fs)
            in case applyStateEventLocked ((event stateSelectionObserved)\<lparr>
                       ev_metadataKnown := True,
                       ev_selectedComplete := list_all (\<lambda>(i, f). fileDone f) chosen,
                       ev_payloadComplete := list_all fileDone fs,
                       ev_selectionEmpty := (chosen = [])\<rparr>) mt of
                 Inl _ \<Rightarrow> mt
               | Inr (d, mt) \<Rightarrow> applyBackgroundReleaseLocked streaming d mt))"

definition releaseFailedSlotLocked :: "bool \<Rightarrow> ManagedTorrent \<Rightarrow> ManagedTorrent" where
  "releaseFailedSlotLocked streaming mt =
     (case applyStateEventLocked (event stateSlotReleased) mt of
        Inl _ \<Rightarrow> mt
      | Inr (d, mt) \<Rightarrow> applyBackgroundReleaseLocked streaming d mt)"

section \<open>Verification (\<open>recheck.go\<close>, \<open>inactive_verify.go\<close>, \<open>observations.go\<close>)\<close>

text \<open>An error of a verifier: whether it is a cancellation, and its text. \<open>errJoin\<close> is Go's
  \<open>errors.Join\<close>.\<close>

record verifyError =
  ve_cancelled :: bool
  ve_text :: string

fun errJoin :: "verifyError option \<Rightarrow> verifyError option \<Rightarrow> verifyError option" where
  "errJoin None b = b"
| "errJoin a None = a"
| "errJoin (Some a) (Some b) =
     Some \<lparr>ve_cancelled = (ve_cancelled a \<or> ve_cancelled b), ve_text = ve_text a @ [CHR 0x0A] @ ve_text b\<rparr>"

definition persistVerificationLocked :: "callback \<Rightarrow> verifyError option" where
  "persistVerificationLocked save =
     (case save of Fails m \<Rightarrow> Some \<lparr>ve_cancelled = False, ve_text = m\<rparr> | _ \<Rightarrow> None)"

definition contextCanceled :: verifyError where
  "contextCanceled = \<lparr>ve_cancelled = True, ve_text = ''context canceled''\<rparr>"

definition attemptError :: "callback \<Rightarrow> verifyError option \<Rightarrow> ManagedTorrent \<Rightarrow> verifyError option" where
  "attemptError save err mt =
     (if mtCancelled mt then errJoin err (Some contextCanceled)
      else if err = None then persistVerificationLocked save
      else errJoin err (persistVerificationLocked save))"

definition attemptEvent :: "verifyError option \<Rightarrow> verificationEvent" where
  "attemptEvent err =
     (case err of None \<Rightarrow> verificationSucceeded
      | Some x \<Rightarrow> if ve_cancelled x then verificationCancelled else verificationFailed)"

definition recordOutcome :: "verifyError option \<Rightarrow> RecheckOperation \<Rightarrow> RecheckOperation" where
  "recordOutcome err op =
     (case err of
        None \<Rightarrow> op\<lparr>op_status := ''succeeded''\<rparr>
      | Some x \<Rightarrow> op\<lparr>op_status := (if ve_cancelled x then ''cancelled'' else ''failed''), op_error := ve_text x\<rparr>)"

text \<open>A detached generation only finishes its own operation history.\<close>

definition abandonVerification :: "nat \<Rightarrow> ManagedTorrent \<Rightarrow> ManagedTorrent" where
  "abandonVerification attempt mt =
     (case currentAttempt mt of
        None \<Rightarrow> mt
      | Some a \<Rightarrow>
         if at_id a \<noteq> attempt then mt
         else mt\<lparr>recheckOperation := (if at_operation a
                   then map_option (\<lambda>op. op\<lparr>op_status := ''cancelled''\<rparr>) (recheckOperation mt) else recheckOperation mt),
                 currentAttempt := None\<rparr>)"

text \<open>A finished attempt: accepted or not, and the generation. This is \<open>completeVerificationLocked\<close> for a
  current generation; \<open>finishVerification\<close> chooses between the two.\<close>

definition completeVerification ::
    "bool \<Rightarrow> callback \<Rightarrow> nat \<Rightarrow> verifyError option \<Rightarrow> ManagedTorrent
     \<Rightarrow> bool \<times> ManagedTorrent" where
  "completeVerification noUpload save attempt err mt =
     (case currentAttempt mt of
        None \<Rightarrow> (False, mt)
      | Some a \<Rightarrow>
         if at_id a \<noteq> attempt \<or> \<not> rechecking mt then (False, mt)
         else
           (let err = attemptError save err mt;
                mt = (if at_operation a
                      then mt\<lparr>recheckOperation := map_option (recordOutcome err) (recheckOperation mt)\<rparr> else mt)
            in case applyVerificationEventLocked (attemptEvent err) mt of
                 Inl _ \<Rightarrow> (True, mt\<lparr>currentAttempt := None\<rparr>)
               | Inr (d, mt) \<Rightarrow>
                  (let mt = mt\<lparr>currentAttempt := None\<rparr>;
                       mt = (if closePayload d then onLib DisallowDataDownload mt else mt);
                       mt = (if closeUpload d then onLib DisallowDataUpload mt else mt)
                   in (True, if allowUpload d \<and> \<not> noUpload \<and> \<not> mtCancelled mt
                             then onLib AllowDataUpload mt else mt))))"

text \<open>The body of \<open>startRecheckLocked\<close> after its early returns: the attempt number and operation
  number are fresh, \<open>admitted\<close> says whether the task class had room.\<close>

definition beginRecheck ::
    "bool \<Rightarrow> callback \<Rightarrow> callback \<Rightarrow> bool \<Rightarrow> nat \<Rightarrow> 64 word \<Rightarrow> ManagedTorrent
     \<Rightarrow> engineError option \<times> ManagedTorrent" where
  "beginRecheck noUpload save save' admitted attempt opID mt =
     (case applyVerificationEventLocked verificationBegin mt of
        Inl e \<Rightarrow> (Some (Rejected e), mt)
      | Inr (d, mt) \<Rightarrow>
         (let mt = mt\<lparr>recheckOperation := Some \<lparr>op_id = opID, op_status = ''pending'', op_error = ''''\<rparr>,
                      currentAttempt := Some \<lparr>at_id = attempt, at_operation = True\<rparr>\<rparr>;
              mt = onLib (clearFilePriorities \<circ> DisallowDataUpload \<circ> DisallowDataDownload) mt
          in case persistVerificationLocked save of
               Some e \<Rightarrow> (Some (VerificationError (ve_text e)), snd (completeVerification noUpload save' attempt (Some e) mt))
             | None \<Rightarrow>
                 if admitted then (None, mt)
                 else (Some TaskLimit, snd (completeVerification noUpload save' attempt
                        (Some \<lparr>ve_cancelled = False, ve_text = ''background task limit reached''\<rparr>) mt))))"

definition startRecheckLocked ::
    "bool \<Rightarrow> callback \<Rightarrow> callback \<Rightarrow> bool \<Rightarrow> bool \<Rightarrow> nat \<Rightarrow> 64 word \<Rightarrow> ManagedTorrent
     \<Rightarrow> engineError option \<times> ManagedTorrent" where
  "startRecheckLocked noUpload save save' active admitted attempt opID mt =
     (if rechecking mt then
        (case currentAttempt mt of
           Some a \<Rightarrow> (if at_operation a then None else Some OperationConflict, mt)
         | None \<Rightarrow> (Some OperationConflict, mt))
      else if mt_initializing mt \<or> \<not> InfoKnown mt \<or> active then (Some OperationConflict, mt)
      else beginRecheck noUpload save save' admitted attempt opID mt)"

definition verifyInactiveBegin ::
    "bool \<Rightarrow> callback \<Rightarrow> callback \<Rightarrow> nat \<Rightarrow> ManagedTorrent \<Rightarrow> engineError option \<times> ManagedTorrent" where
  "verifyInactiveBegin noUpload save save' attempt mt =
     (if run (policy mt) \<noteq> RunPaused \<or> isChecking (policy mt) \<or> terminal (policy mt)
      then (Some OperationConflict, mt)
      else case applyVerificationEventLocked verificationBegin mt of
        Inl e \<Rightarrow> (Some (Rejected e), mt)
      | Inr (d, mt) \<Rightarrow>
         (let mt = onLib (DisallowDataUpload \<circ> DisallowDataDownload)
                     (mt\<lparr>currentAttempt := Some \<lparr>at_id = attempt, at_operation = False\<rparr>\<rparr>)
          in case persistVerificationLocked save of
               Some e \<Rightarrow> (Some (VerificationError (ve_text e)), snd (completeVerification noUpload save' attempt (Some e) mt))
             | None \<Rightarrow> (None, mt)))"

definition RestoreVerificationBlock :: "ManagedTorrent \<Rightarrow> engineError option \<times> ManagedTorrent" where
  "RestoreVerificationBlock mt =
     (case applyVerificationEventLocked verificationRestored mt of
        Inl e \<Rightarrow> (Some (Rejected e), mt)
      | Inr (d, mt) \<Rightarrow> (None, onLib (DisallowDataUpload \<circ> DisallowDataDownload) mt))"

section \<open>Bindings and observations (\<open>observations.go\<close>)\<close>

text \<open>\<open>save\<close> and \<open>saveBlocks\<close> are the outcomes of the verification callback and of the safety
  callback's loop (a failure of any of its calls).\<close>

definition bindRuntime ::
    "callback \<Rightarrow> callback \<Rightarrow> RuntimeFence \<Rightarrow> int \<Rightarrow> ManagedTorrent \<Rightarrow> engineError option \<times> ManagedTorrent" where
  "bindRuntime save saveBlocks fence applied mt =
     (let old = runtimeFence mt in
      if applied > 0 \<and> mt_initializing mt then (Some OperationConflict, mt)
      else if iv_record old \<noteq> '''' \<and> (iv_record old \<noteq> iv_record fence \<or> iv_revision old > iv_revision fence)
      then (Some OperationConflict, mt)
      else case (if verificationUncertain mt then save else Unset) of
        Fails m \<Rightarrow> (Some (PersistFailed m), mt)
      | _ \<Rightarrow>
         (case (if safetyBlocks mt \<noteq> [] then saveBlocks else Unset) of
            Fails m \<Rightarrow> (Some (PersistFailed m), mt)
          | _ \<Rightarrow> (None, mt\<lparr>runtimeFence := fence, observationSequence := 0, appliedIntentRevision := applied,
                     intentApplyFailure := (if applied > 0 then None else intentApplyFailure mt)\<rparr>)))"

definition validFence :: "RuntimeFence \<Rightarrow> bool" where
  "validFence fence \<longleftrightarrow> \<not> (rf_attachment fence = '''' \<or> iv_record fence = '''' \<or> iv_revision fence < 1)"

definition failureCode :: "string \<Rightarrow> bool" where
  "failureCode code \<longleftrightarrow> code \<in> set [''intent_commit_failed'', ''runtime_stage_failed'',
     ''runtime_apply_failed'', ''runtime_bind_failed'']"

definition FailIntentApply ::
    "string \<Rightarrow> int \<Rightarrow> string \<Rightarrow> ManagedTorrent \<Rightarrow> engineError option \<times> ManagedTorrent" where
  "FailIntentApply record revision code mt =
     (if (iv_record (runtimeFence mt) \<noteq> '''' \<and> iv_record (runtimeFence mt) \<noteq> record)
         \<or> iv_revision (runtimeFence mt) > revision
         \<or> (case intentApplyFailure mt of None \<Rightarrow> False | Some f \<Rightarrow> iaf_revision f > revision)
      then (Some OperationConflict, mt)
      else case applyStateEventLocked (event stateApplyFailed) mt of
        Inl e \<Rightarrow> (Some (Rejected e), mt)
      | Inr (d, mt) \<Rightarrow> (None, applyQuiesceLocked d
          (mt\<lparr>intentApplyFailure := Some \<lparr>iaf_record = record, iaf_revision = revision, iaf_code = code\<rparr>\<rparr>)))"

definition maxInt64 :: int where
  "maxInt64 = 2 ^ 63 - 1"

definition CaptureObservation ::
    "ManagedTorrent \<Rightarrow> (engineError + (RuntimeFence \<times> int \<times> int)) \<times> ManagedTorrent" where
  "CaptureObservation mt =
     (if rf_attachment (runtimeFence mt) = '''' \<or> observationSequence mt = maxInt64
      then (Inl OperationConflict, mt)
      else let mt = mt\<lparr>observationSequence := observationSequence mt + 1\<rparr>
           in (Inr (runtimeFence mt, observationSequence mt, appliedIntentRevision mt), mt))"

section \<open>Pause, staging, Resume and restore (\<open>engine.go\<close>, \<open>restore.go\<close>)\<close>

text \<open>The persisted record a command installs; the entries of \<open>Files\<close> that are not \<open>nil\<close>.\<close>

record savedTorrent =
  sv_hash :: string
  sv_state :: TorrentState
  sv_error :: ErrorReason
  sv_block :: string
  sv_queue :: int
  sv_files :: "(int \<times> FilePriority) list"

definition persistedPriorities ::
    "savedTorrent \<Rightarrow> ManagedTorrent \<Rightarrow> (engineError, (int \<times> FilePriority) list) result" where
  "persistedPriorities saved mt =
     (if validPriorities mt (sv_files saved)
      then Inr (fold (\<lambda>(i, p). AList.update i p) (sv_files saved) [])
      else Inl InvalidPriority)"

definition installSaved :: "savedTorrent \<Rightarrow> (int \<times> FilePriority) list \<Rightarrow> ManagedTorrent \<Rightarrow> ManagedTorrent" where
  "installSaved saved ps mt = mt\<lparr>filePriorities := ps, queuePosition := sv_queue saved\<rparr>"

definition pauseWithIntent :: "savedTorrent option \<Rightarrow> ManagedTorrent \<Rightarrow> engineError option \<times> ManagedTorrent" where
  "pauseWithIntent saved mt =
     (case (case saved of None \<Rightarrow> Inr [] | Some s \<Rightarrow> persistedPriorities s mt) of
        Inl e \<Rightarrow> (Some e, mt)
      | Inr ps \<Rightarrow>
         (let mt = onLib DisallowDataDownload mt in
          case applyStateEventLocked ((event statePaused)\<lparr>ev_fullReconcile := (saved \<noteq> None)\<rparr>) mt of
            Inl e \<Rightarrow> (Some (Rejected e), mt)
          | Inr (d, mt) \<Rightarrow>
             (None, applyQuiesceLocked d (case saved of None \<Rightarrow> mt | Some s \<Rightarrow> installSaved s ps mt))))"

definition StageExistingRestore :: "savedTorrent \<Rightarrow> ManagedTorrent \<Rightarrow> engineError option \<times> ManagedTorrent" where
  "StageExistingRestore saved mt =
     (if rechecking mt \<or> verificationUncertain mt then (Some OperationConflict, mt)
      else case persistedPriorities saved mt of
        Inl e \<Rightarrow> (Some e, mt)
      | Inr ps \<Rightarrow>
         (case applyStateEventLocked (event stateRestoreStaged) mt of
            Inl e \<Rightarrow> (Some (Rejected e), mt)
          | Inr (d, mt) \<Rightarrow> (None, applyQuiesceLocked d (installSaved saved ps mt))))"

text \<open>What \<open>runRuntimeWorkLocked\<close> captures before it releases the admission lock, and its test
  when it has the lock again.\<close>

record workTicket =
  wk_epoch :: "64 word"
  wk_fence :: RuntimeFence

definition captureWork :: "ManagedTorrent \<Rightarrow> workTicket" where
  "captureWork mt = \<lparr>wk_epoch = policyEpoch mt, wk_fence = runtimeFence mt\<rparr>"

definition validWork :: "workTicket \<Rightarrow> ManagedTorrent \<Rightarrow> bool" where
  "validWork w mt \<longleftrightarrow> policyEpoch mt = wk_epoch w \<and> runtimeFence mt = wk_fence w"

text \<open>\<open>resumeLocked\<close> before and after its unlocked disk probe. The second part gets the captured
  write-error version, the probe's error and the outcomes of the two callbacks.\<close>

definition resumeBegin :: "ManagedTorrent \<Rightarrow> (engineError, workTicket \<times> 64 word) result \<times> ManagedTorrent" where
  "resumeBegin mt =
     (if rechecking mt \<or> verificationUncertain mt then (Inl OperationConflict, mt)
      else if mt_initializing mt then (Inl NotInitialized, mt)
      else let mt = onLib DisallowDataDownload mt
           in (Inr (captureWork mt, lastWriteChunkErrVersion (lib mt)), mt))"

definition resumeActivate :: "callback \<Rightarrow> ManagedTorrent \<Rightarrow> engineError option \<times> ManagedTorrent" where
  "resumeActivate safety mt =
     (case applyStateEventLocked ((event stateActivated)\<lparr>ev_phase := StateQueued, ev_diskRecovered := True\<rparr>) mt of
        Inl e \<Rightarrow> (Some (Rejected e), mt)
      | Inr (d, mt) \<Rightarrow>
         (let mt = mt\<lparr>downloadBlockPersisted := False\<rparr> in
          if InfoKnown mt then
            (case applyFilePrioritiesAndDownload safety mt of
               (Some e, mt) \<Rightarrow> (Some e, mt)
             | (None, mt) \<Rightarrow> (None, onLib AllowDataUpload mt))
          else (None, mt)))"

definition resumeFinish ::
    "callback \<Rightarrow> callback \<Rightarrow> workTicket \<Rightarrow> 64 word \<Rightarrow> string option \<Rightarrow> ManagedTorrent
     \<Rightarrow> engineError option \<times> ManagedTorrent" where
  "resumeFinish save safety w version probeErr mt =
     (if \<not> validWork w mt then (Some OperationConflict, mt)
      else case probeErr of
        Some reason \<Rightarrow> blockAndReport save reason mt
      | None \<Rightarrow>
         (case ClearWriteChunkErrorIfVersion version (lib mt) of
            Inl _ \<Rightarrow> blockAndReport save ''payload write failed during Resume'' mt
          | Inr t \<Rightarrow>
             (case save of
                Fails m \<Rightarrow> (Some (PersistFailed m), mt\<lparr>lib := t\<rparr>)
              | _ \<Rightarrow> resumeActivate safety (mt\<lparr>lib := t\<rparr>))))"

text \<open>\<open>FinishRestore\<close>: the dry run and the capture, the checks after the metadata was saved, and
  the activation.\<close>

definition finishRestoreBegin ::
    "TorrentState \<Rightarrow> ManagedTorrent \<Rightarrow> (engineError, stateEvent \<times> workTicket) result" where
  "finishRestoreBegin state mt =
     (let ev = (event stateActivated)\<lparr>ev_phase := state, ev_err := mt_err mt, ev_fullReconcile := True\<rparr> in
      case runtimeTransition (policy mt) ev of
        Inl e \<Rightarrow> Inl (Rejected e)
      | Inr _ \<Rightarrow> Inr (ev, captureWork mt))"

definition inactivePhase :: "TorrentState \<Rightarrow> bool" where
  "inactivePhase s \<longleftrightarrow> s = StatePaused \<or> s = StateError \<or> s = StateMissingFiles \<or> s = StateDiskFull"

definition restoreGates :: "bool \<Rightarrow> stateDecision \<Rightarrow> ManagedTorrent \<Rightarrow> ManagedTorrent" where
  "restoreGates noUpload d mt =
     (let mt = onLib DisallowDataDownload mt;
          mt = (if allowUpload d \<and> \<not> noUpload then onLib AllowDataUpload mt else mt)
      in if closeUpload d then onLib DisallowDataUpload mt else mt)"

definition finishRestoreActivate ::
    "bool \<Rightarrow> callback \<Rightarrow> bool \<Rightarrow> stateEvent \<Rightarrow> ManagedTorrent \<Rightarrow> engineError option \<times> ManagedTorrent" where
  "finishRestoreActivate noUpload safety mergeOk ev mt =
     (case applyStateEventLocked ev mt of
        Inl e \<Rightarrow> (Some (Rejected e), mt)
      | Inr (d, mt) \<Rightarrow>
         (let mt = (if ev_diskRecovered ev then mt\<lparr>downloadBlockPersisted := False\<rparr> else mt);
              inactive = inactivePhase (vf_state (next_facts d))
          in if \<not> inactive \<and> \<not> networkingEnabled (lib mt) \<and> \<not> mergeOk
             then (Some MergeFailed, snd (quiesceFault safety stateApplyFailed mt))
             else
               (let mt = (if inactive then mt else onLib (\<lambda>t. t\<lparr>networkingEnabled := True\<rparr>) mt);
                    mt = restoreGates noUpload d mt
                in (None, if inactive \<and> InfoKnown mt then onLib clearFilePriorities mt else mt))))"

text \<open>After the first unlocked work: a metadata error, an invalid selection, or (\<open>None\<close>) go on.\<close>

definition finishRestoreCheck ::
    "callback \<Rightarrow> bool \<Rightarrow> workTicket \<Rightarrow> ManagedTorrent \<Rightarrow> engineError option \<times> ManagedTorrent" where
  "finishRestoreCheck safety metadataOk w mt =
     (if \<not> validWork w mt then (Some OperationConflict, mt)
      else if \<not> metadataOk then (Some (MetadataFailed ''persist runtime metainfo''), snd (quiesceFault safety stateMetadataFailed mt))
      else if \<not> validPriorities mt (filePriorities mt)
      then (Some IndexOutOfBounds, snd (quiesceFault safety stateSelectionInvalid mt))
      else (None, mt))"

text \<open>After the second unlocked work, for a manual Resume.\<close>

definition finishRestoreRecover ::
    "callback \<Rightarrow> workTicket \<Rightarrow> 64 word \<Rightarrow> string option \<Rightarrow> ManagedTorrent \<Rightarrow> engineError option \<times> ManagedTorrent" where
  "finishRestoreRecover save w version probeErr mt =
     (if \<not> validWork w mt then (Some OperationConflict, mt)
      else case probeErr of
        Some reason \<Rightarrow> blockAndReport save reason mt
      | None \<Rightarrow>
         (case ClearWriteChunkErrorIfVersion version (lib mt) of
            Inl _ \<Rightarrow> blockAndReport save ''payload write failed during Resume'' mt
          | Inr t \<Rightarrow> (case save of Fails m \<Rightarrow> Some (PersistFailed m) | _ \<Rightarrow> None, mt\<lparr>lib := t\<rparr>)))"

section \<open>Payload admission (\<open>download_gate.go\<close>, \<open>resource_manager.go\<close>)\<close>

definition admitGuard :: "ManagedTorrent \<Rightarrow> engineError option" where
  "admitGuard mt =
     (let p = policy mt in
      if disk p \<noteq> '''' then Some (DownloadBlocked (disk p))
      else if initializing p \<or> isChecking p \<or> uncertain p
      then Some (DownloadBlocked ''torrent initialization is not complete'')
      else if \<not> payloadEligible p then Some (DownloadBlocked ''torrent is not accepting payload downloads'')
      else if preparation mt \<noteq> None then Some OperationConflict
      else None)"

definition admitBegin :: "nat \<Rightarrow> ManagedTorrent \<Rightarrow> (engineError, payloadPreparation) result \<times> ManagedTorrent" where
  "admitBegin ticket mt =
     (case admitGuard mt of
        Some e \<Rightarrow> (Inl e, mt)
      | None \<Rightarrow>
         (Inr \<lparr>tk_id = ticket, tk_epoch = policyEpoch mt, tk_fence = runtimeFence mt, tk_slot = slotToken mt\<rparr>,
          mt\<lparr>preparation := Some ticket\<rparr>))"

text \<open>The part of \<open>admitPayloadLocked\<close> after its unlocked probe and metadata save. It holds the only
  call of the engine that opens the download gate.\<close>

definition admitFinish ::
    "callback \<Rightarrow> callback \<Rightarrow> payloadPreparation \<Rightarrow> string option \<Rightarrow> bool \<Rightarrow> ManagedTorrent
     \<Rightarrow> engineError option \<times> ManagedTorrent" where
  "admitFinish save safety tk probeErr metadataOk mt =
     (let valid = (policyEpoch mt = tk_epoch tk \<and> runtimeFence mt = tk_fence tk \<and> payloadEligible (policy mt)
                   \<and> slotToken mt = tk_slot tk \<and> preparation mt = Some (tk_id tk));
          mt = (if preparation mt = Some (tk_id tk) then mt\<lparr>preparation := None\<rparr> else mt)
      in if \<not> valid then (Some OperationConflict, mt)
         else case probeErr of
           Some reason \<Rightarrow> blockAndReport save reason mt
         | None \<Rightarrow>
            if \<not> metadataOk then (Some (MetadataFailed ''save metainfo''), snd (quiesceFault safety stateMetadataFailed mt))
            else case applyFilePrioritiesAndDownload safety mt of
              (Some e, mt) \<Rightarrow> (Some e, mt)
            | (None, mt) \<Rightarrow>
               (case AllowDataDownloadIfNoWriteError (lib mt) of
                  Inl e \<Rightarrow> blockAndReport save (writeErrorReason e) mt
                | Inr t \<Rightarrow> (None, mt\<lparr>lib := t\<rparr>)))"

text \<open>\<open>payloadWriteError\<close> with a \<open>nil\<close> error reads the library's latch.\<close>

definition payloadWriteError :: "callback \<Rightarrow> storageError option \<Rightarrow> ManagedTorrent \<Rightarrow> ManagedTorrent" where
  "payloadWriteError save err mt =
     (case (case err of None \<Rightarrow> lastWriteChunkErr (lib mt) | Some e \<Rightarrow> Some e) of
        None \<Rightarrow> mt
      | Some e \<Rightarrow> snd (blockDownload save (writeErrorReason (Some e)) mt))"

text \<open>The scheduler's failed preparation: only the slot of the same reservation is given back.\<close>

definition releaseIfOwned :: "bool \<Rightarrow> 64 word \<Rightarrow> ManagedTorrent \<Rightarrow> ManagedTorrent" where
  "releaseIfOwned streaming token mt =
     (if slot (policy mt) \<and> slotToken mt = token
      then releaseFailedSlotLocked streaming (mt\<lparr>downloadAllStarted := False\<rparr>) else mt)"

text \<open>The gates of \<open>refreshPeerDiscovery\<close>.\<close>

definition refreshPeerDiscovery :: "bool \<Rightarrow> callback \<Rightarrow> bool \<Rightarrow> ManagedTorrent \<Rightarrow> ManagedTorrent" where
  "refreshPeerDiscovery noUpload safety downloadAll mt =
     (if \<not> uploadEligible (policy mt) then mt
      else let mt = (if noUpload then mt else onLib AllowDataUpload mt)
           in if downloadAll then snd (applyFilePrioritiesAndDownload safety mt) else mt)"

definition rememberExpectedPayload :: "int \<Rightarrow> bool \<Rightarrow> ManagedTorrent \<Rightarrow> bool \<times> ManagedTorrent" where
  "rememberExpectedPayload i ready mt =
     (let mt = (if ready \<and> \<not> mt_terminal mt then mt\<lparr>expectedPayload := List.insert i (expectedPayload mt)\<rparr> else mt)
      in (i \<in> set (expectedPayload mt), mt))"

definition detectMissingFinish ::
    "callback \<Rightarrow> workTicket \<Rightarrow> bool \<Rightarrow> ManagedTorrent \<Rightarrow> engineError option \<times> ManagedTorrent" where
  "detectMissingFinish safety w missing mt =
     (if \<not> validWork w mt then (Some OperationConflict, mt)
      else if \<not> missing then (None, mt)
      else quiesceFault safety statePayloadMissing mt)"

end
