(* ===== verification/Generation.thy ===== *)
theory Generation
  imports ManagedTorrent
begin

text \<open>
  The generation invariant and its preservation by every operation of \<open>ManagedTorrent\<close>: the
  policy satisfies its own invariant, the projected fields agree with it, the download gate is
  open only while the policy allows payload and no write error is latched, and the upload gate is
  open only while the policy allows uploads, up to a verification fault.
\<close>

named_theorems keeps_ops

section \<open>The invariant\<close>

definition mirrors :: "ManagedTorrent \<Rightarrow> bool" where
  "mirrors mt \<longleftrightarrow>
     (mt_state mt, mt_err mt) = projection (policy mt)
     \<and> rechecking mt = isChecking (policy mt)
     \<and> verificationUncertain mt = uncertain (policy mt)
     \<and> mt_initializing mt = initializing (policy mt)
     \<and> downloadBlock mt = disk (policy mt)
     \<and> mt_selectionComplete mt = selectedComplete (policy mt)
     \<and> mt_terminal mt = terminal (policy mt)"

text \<open>The policy is one the abstract policy machine of \<open>RuntimePolicy\<close> reaches.\<close>

definition policyRun :: "runtimePolicy \<Rightarrow> bool" where
  "policyRun p \<longleftrightarrow> (\<exists>evs. p = fold policyStep evs zeroPolicy)"

definition uploadOk :: "runtimePolicy \<Rightarrow> bool" where
  "uploadOk p \<longleftrightarrow> uploadEligible (p\<lparr>verificationFault := False\<rparr>)"

definition mtInv :: "ManagedTorrent \<Rightarrow> bool" where
  "mtInv mt \<longleftrightarrow>
     policyRun (policy mt) \<and> mirrors mt
     \<and> (\<not> dataDownloadDisallowed (lib mt) \<longrightarrow>
          payloadEligible (policy mt) \<and> lastWriteChunkErr (lib mt) = None)
     \<and> (\<not> dataUploadDisallowed (lib mt) \<longrightarrow> uploadOk (policy mt))"

definition sameGen :: "ManagedTorrent \<Rightarrow> ManagedTorrent \<Rightarrow> bool" where
  "sameGen mt mt' \<longleftrightarrow> hash mt' = hash mt \<and> generation mt' = generation mt \<and> raw mt' = raw mt
     \<and> infoHash mt' = infoHash mt"

text \<open>An operation that keeps the generation, the invariant, and takes no slot.\<close>

definition keeps :: "ManagedTorrent \<Rightarrow> ManagedTorrent \<Rightarrow> bool" where
  "keeps mt mt' \<longleftrightarrow> sameGen mt mt' \<and> (mtInv mt \<longrightarrow> mtInv mt' \<and> (slot (policy mt') \<longrightarrow> slot (policy mt)))"

text \<open>The state between an accepted event and its effects: a gate may still be open only if the
  decision asks to close it.\<close>

definition pending :: "stateDecision \<Rightarrow> ManagedTorrent \<Rightarrow> ManagedTorrent \<Rightarrow> bool" where
  "pending d mt mt' \<longleftrightarrow> sameGen mt mt' \<and> (mtInv mt \<longrightarrow>
     policyRun (policy mt') \<and> mirrors mt' \<and> policy mt' = new_policy d \<and> (slot (policy mt') \<longrightarrow> slot (policy mt))
     \<and> (\<not> dataDownloadDisallowed (lib mt') \<longrightarrow>
          closePayload d \<or> payloadEligible (policy mt') \<and> lastWriteChunkErr (lib mt') = None)
     \<and> (\<not> dataUploadDisallowed (lib mt') \<longrightarrow> closeUpload d \<or> uploadOk (policy mt')))"

text \<open>A library call that opens no gate.\<close>

definition closing :: "(libTorrent \<Rightarrow> libTorrent) \<Rightarrow> bool" where
  "closing f \<longleftrightarrow> (\<forall>t.
     (\<not> dataDownloadDisallowed (f t) \<longrightarrow> \<not> dataDownloadDisallowed t \<and> (lastWriteChunkErr t = None \<longrightarrow> lastWriteChunkErr (f t) = None))
     \<and> (\<not> dataUploadDisallowed (f t) \<longrightarrow> \<not> dataUploadDisallowed t))"

lemma policyRun_inv: "policyRun p \<Longrightarrow> policyInv p"
  unfolding policyRun_def using policy.inv_run by blast

lemma policyRun_zero: "policyRun zeroPolicy"
  unfolding policyRun_def by (rule exI[of _ "[]"]) simp

lemma policyRun_step:
  assumes "policyRun p" "runtimeTransition p ev = Inr d"
  shows "policyRun (new_policy d)"
proof -
  obtain evs where "p = fold policyStep evs zeroPolicy" using assms(1) unfolding policyRun_def by blast
  then have "new_policy d = fold policyStep (evs @ [ev]) zeroPolicy" using assms(2) by (simp add: policyStep_def)
  then show ?thesis unfolding policyRun_def by blast
qed

section \<open>Neutral updates\<close>

lemma keeps_refl [simp, intro]: "keeps mt mt"
  by (simp add: keeps_def sameGen_def)

lemma keeps_trans [trans]: "keeps a b \<Longrightarrow> keeps b c \<Longrightarrow> keeps a c"
  by (auto simp: keeps_def sameGen_def)

lemma mtInv_update [simp]:
  "mtInv (mt\<lparr>policyEpoch := e\<rparr>) = mtInv mt"
  "mtInv (mt\<lparr>downloadAllStarted := b\<rparr>) = mtInv mt"
  "mtInv (mt\<lparr>downloadBlockPersisted := b\<rparr>) = mtInv mt"
  "mtInv (mt\<lparr>filePriorities := ps\<rparr>) = mtInv mt"
  "mtInv (mt\<lparr>queuePosition := q\<rparr>) = mtInv mt"
  "mtInv (mt\<lparr>runtimeFence := f\<rparr>) = mtInv mt"
  "mtInv (mt\<lparr>observationSequence := s\<rparr>) = mtInv mt"
  "mtInv (mt\<lparr>appliedIntentRevision := s\<rparr>) = mtInv mt"
  "mtInv (mt\<lparr>currentAttempt := a\<rparr>) = mtInv mt"
  "mtInv (mt\<lparr>recheckOperation := r\<rparr>) = mtInv mt"
  "mtInv (mt\<lparr>intentApplyFailure := i\<rparr>) = mtInv mt"
  "mtInv (mt\<lparr>safetyBlocks := sb\<rparr>) = mtInv mt"
  "mtInv (mt\<lparr>expectedPayload := x\<rparr>) = mtInv mt"
  "mtInv (mt\<lparr>preparation := p\<rparr>) = mtInv mt"
  "mtInv (mt\<lparr>healthProbe := p\<rparr>) = mtInv mt"
  "mtInv (mt\<lparr>sourceURI := u\<rparr>) = mtInv mt"
  "mtInv (mt\<lparr>mtCancelled := c\<rparr>) = mtInv mt"
  by (simp_all add: mtInv_def mirrors_def)

lemma keeps_update [simp]:
  "keeps m (mt\<lparr>policyEpoch := e\<rparr>) = keeps m mt"
  "keeps m (mt\<lparr>downloadAllStarted := b\<rparr>) = keeps m mt"
  "keeps m (mt\<lparr>downloadBlockPersisted := b\<rparr>) = keeps m mt"
  "keeps m (mt\<lparr>filePriorities := ps\<rparr>) = keeps m mt"
  "keeps m (mt\<lparr>queuePosition := q\<rparr>) = keeps m mt"
  "keeps m (mt\<lparr>runtimeFence := f\<rparr>) = keeps m mt"
  "keeps m (mt\<lparr>observationSequence := s\<rparr>) = keeps m mt"
  "keeps m (mt\<lparr>appliedIntentRevision := s\<rparr>) = keeps m mt"
  "keeps m (mt\<lparr>currentAttempt := a\<rparr>) = keeps m mt"
  "keeps m (mt\<lparr>recheckOperation := r\<rparr>) = keeps m mt"
  "keeps m (mt\<lparr>intentApplyFailure := i\<rparr>) = keeps m mt"
  "keeps m (mt\<lparr>safetyBlocks := sb\<rparr>) = keeps m mt"
  "keeps m (mt\<lparr>expectedPayload := x\<rparr>) = keeps m mt"
  "keeps m (mt\<lparr>preparation := p\<rparr>) = keeps m mt"
  "keeps m (mt\<lparr>healthProbe := p\<rparr>) = keeps m mt"
  "keeps m (mt\<lparr>sourceURI := u\<rparr>) = keeps m mt"
  "keeps m (mt\<lparr>mtCancelled := c\<rparr>) = keeps m mt"
  by (simp_all add: keeps_def sameGen_def)

lemma pending_update [simp]:
  "pending d m (mt\<lparr>downloadBlockPersisted := b\<rparr>) = pending d m mt"
  "pending d m (mt\<lparr>filePriorities := ps\<rparr>) = pending d m mt"
  "pending d m (mt\<lparr>queuePosition := q\<rparr>) = pending d m mt"
  "pending d m (mt\<lparr>currentAttempt := a\<rparr>) = pending d m mt"
  "pending d m (mt\<lparr>recheckOperation := r\<rparr>) = pending d m mt"
  "pending d m (mt\<lparr>intentApplyFailure := i\<rparr>) = pending d m mt"
  by (simp_all add: pending_def sameGen_def mirrors_def)

lemma pending_trans: "keeps a b \<Longrightarrow> pending d b c \<Longrightarrow> pending d a c"
  by (auto simp: keeps_def pending_def sameGen_def)

section \<open>Library calls\<close>

lemma closing_calls [simp, intro]:
  "closing DisallowDataDownload" "closing DisallowDataUpload" "closing clearFilePriorities"
  "closing (onWriteChunkErr e)" "closing (installPriorities p ps)"
  "closing (\<lambda>t. t\<lparr>networkingEnabled := b\<rparr>)"
  by (simp_all add: closing_def DisallowDataDownload_def DisallowDataUpload_def clearFilePriorities_def
      onWriteChunkErr_def installPriorities_def split: option.splits)

lemma closing_comp [simp, intro]: "closing f \<Longrightarrow> closing g \<Longrightarrow> closing (f \<circ> g)"
  unfolding closing_def comp_apply by blast

lemma closingD:
  assumes "closing f"
  shows "\<not> dataDownloadDisallowed (f t) \<Longrightarrow> \<not> dataDownloadDisallowed t"
    "\<not> dataDownloadDisallowed (f t) \<Longrightarrow> lastWriteChunkErr t = None \<Longrightarrow> lastWriteChunkErr (f t) = None"
    "\<not> dataUploadDisallowed (f t) \<Longrightarrow> \<not> dataUploadDisallowed t"
  using assms unfolding closing_def by blast+

lemma onLib_sel [simp]:
  "policy (onLib f mt) = policy mt" "lib (onLib f mt) = f (lib mt)" "hash (onLib f mt) = hash mt"
  "generation (onLib f mt) = generation mt" "raw (onLib f mt) = raw mt" "infoHash (onLib f mt) = infoHash mt"
  "mirrors (onLib f mt) = mirrors mt" "mtCancelled (onLib f mt) = mtCancelled mt"
  "filePriorities (onLib f mt) = filePriorities mt"
  by (simp_all add: onLib_def mirrors_def)

lemma keeps_onLib: "closing f \<Longrightarrow> keeps m mt \<Longrightarrow> keeps m (onLib f mt)"
  using closingD[of f "lib mt"] by (auto simp: keeps_def sameGen_def mtInv_def)

lemma pending_onLib: "closing f \<Longrightarrow> pending d m mt \<Longrightarrow> pending d m (onLib f mt)"
  using closingD[of f "lib mt"] by (auto simp: pending_def sameGen_def)

lemma keeps_cleared:
  assumes "ClearWriteChunkErrorIfVersion v (lib mt) = Inr t"
  shows "keeps mt (mt\<lparr>lib := t\<rparr>)"
proof -
  have t: "t = (lib mt)\<lparr>lastWriteChunkErr := None\<rparr>"
    using assms by (simp add: ClearWriteChunkErrorIfVersion_def split: if_splits)
  show ?thesis unfolding t by (simp add: keeps_def sameGen_def mtInv_def mirrors_def)
qed

section \<open>Events\<close>

lemma applyKind_slot:
  assumes "applyKind p ev = Inr (n, fx)" "ev_kind ev \<noteq> stateSlotRequested" "slot n"
  shows "slot p"
  using assms
  by (cases "ev_kind ev";
      clarsimp simp: applyKind_def observeSelection_def Let_def split: if_splits
        dest!: activate_Inr verify_Inr failClosed_Inr)

lemma uploadOk_eligible: "uploadEligible p \<Longrightarrow> uploadOk p"
  by (simp add: uploadOk_def uploadEligible_def)

lemma uploadOk_cong:
  assumes "registered n = registered p" "terminal n = terminal p" "run n = run p" "initializing n = initializing p"
    "isChecking n = isChecking p" "uncertain n = uncertain p" "fault n = fault p"
  shows "uploadOk n = uploadOk p"
  using assms by (simp add: uploadOk_def uploadEligible_def)

lemma applyKind_uploadOk:
  assumes "applyKind p ev = Inr (n, fx)"
  shows "fx_closeUpload fx \<or> uploadOk n \<or> uploadOk n = uploadOk p"
  using assms
  by (cases "ev_kind ev";
      clarsimp simp: applyKind_def effect_simps observeSelection_def Let_def uploadOk_eligible split: if_splits
        dest!: activate_Inr verify_Inr failClosed_Inr requestSlot_Inr;
      simp add: uploadOk_def uploadEligible_def)

lemma apply_Inr:
  assumes "applyStateEventLocked ev mt = Inr (d, mt')"
  obtains n fx where "applyKind (policy mt) ev = Inr (n, fx)" "d = decide n fx" "policy mt' = n"
    "lib mt' = lib mt" "sameGen mt mt'" "mirrors mt'" "\<not> terminal (policy mt)"
    "registered (policy mt) \<or> ev_kind ev = stateRegistered"
    "runtimeTransition (policy mt) ev = Inr d" "filePriorities mt' = filePriorities mt"
    "mtCancelled mt' = mtCancelled mt"
  using assms
  by (auto simp: applyStateEventLocked_def transition_Inr sameGen_def mirrors_def split: sum.splits)

lemma apply_pending:
  assumes "applyStateEventLocked ev mt = Inr (d, mt')" "ev_kind ev \<noteq> stateSlotRequested"
  shows "pending d mt mt'"
proof -
  obtain n fx where *: "applyKind (policy mt) ev = Inr (n, fx)" "d = decide n fx" "policy mt' = n"
    "lib mt' = lib mt" "sameGen mt mt'" "mirrors mt'" "runtimeTransition (policy mt) ev = Inr d"
    using apply_Inr[OF assms(1)] by metis
  show ?thesis
    using * applyKind_gates(1)[OF *(1)] applyKind_uploadOk[OF *(1)] applyKind_slot[OF *(1) assms(2)]
      policyRun_step[OF _ *(7)]
    by (auto simp: pending_def mtInv_def)
qed

lemma event_kind [simp]: "ev_kind (event k) = k"
  by (simp add: event_def)

lemma pendingD:
  assumes "pending d m mt" "mtInv m"
  shows "policyRun (policy mt)" "mirrors mt" "policy mt = new_policy d" "slot (policy mt) \<Longrightarrow> slot (policy m)"
    "\<not> dataDownloadDisallowed (lib mt) \<Longrightarrow> \<not> closePayload d \<Longrightarrow> payloadEligible (policy mt) \<and> lastWriteChunkErr (lib mt) = None"
    "\<not> dataUploadDisallowed (lib mt) \<Longrightarrow> \<not> closeUpload d \<Longrightarrow> uploadOk (policy mt)"
  using assms unfolding pending_def by blast+

lemma pending_keeps:
  assumes "pending d m mt" "policy mt' = policy mt" "mirrors mt \<Longrightarrow> mirrors mt'" "sameGen mt mt'"
    and dl: "\<not> dataDownloadDisallowed (lib mt') \<Longrightarrow>
       \<not> dataDownloadDisallowed (lib mt) \<and> lastWriteChunkErr (lib mt') = lastWriteChunkErr (lib mt) \<and> \<not> closePayload d"
    and ul: "\<not> dataUploadDisallowed (lib mt') \<Longrightarrow> \<not> dataUploadDisallowed (lib mt) \<and> \<not> closeUpload d"
  shows "keeps m mt'"
proof -
  have "mtInv mt' \<and> (slot (policy mt') \<longrightarrow> slot (policy m))" if "mtInv m"
    unfolding mtInv_def using assms(2,3) dl ul pendingD[OF assms(1) that] by auto
  then show ?thesis using assms(1,4) unfolding keeps_def pending_def sameGen_def by simp
qed

lemmas lib_defs = DisallowDataDownload_def DisallowDataUpload_def clearFilePriorities_def AllowDataUpload_def

lemma sameGen_onLib [simp]: "sameGen mt (onLib f mt)"
  by (simp add: sameGen_def)

lemma pending_quiesce: "pending d m mt \<Longrightarrow> keeps m (applyQuiesceLocked d mt)"
  by (erule pending_keeps)
     (simp_all add: applyQuiesceLocked_def Let_def lib_defs sameGen_def split: if_splits)

lemma pending_closed:
  "pending d m mt \<Longrightarrow> keeps m (onLib (DisallowDataUpload \<circ> DisallowDataDownload) mt)"
  by (erule pending_keeps) (simp_all add: lib_defs)

lemma pending_download_closed:
  "pending d m mt \<Longrightarrow> \<not> closeUpload d \<Longrightarrow> keeps m (onLib DisallowDataDownload mt)"
  by (erule pending_keeps) (simp_all add: lib_defs)

lemma pending_none: "pending d m mt \<Longrightarrow> \<not> closeUpload d \<Longrightarrow> \<not> closePayload d \<Longrightarrow> keeps m mt"
  by (erule pending_keeps) (simp_all add: sameGen_def)

section \<open>Every operation keeps the invariant\<close>

lemma keeps_persistSafety [keeps_ops]:
  "keeps m mt \<Longrightarrow> keeps m (snd (persistSafetyFaultLocked save k mt))"
  by (simp add: persistSafetyFaultLocked_def Let_def split: option.split)

lemma keeps_quiesceFault [keeps_ops]:
  assumes "k \<noteq> stateSlotRequested"
  shows "keeps mt (snd (quiesceFault save k mt))"
proof (cases "applyStateEventLocked (event k) mt")
  case (Inr r)
  obtain d mt' where r: "r = (d, mt')" by fastforce
  have "pending d mt mt'" using apply_pending[of "event k" mt d mt'] Inr r assms by simp
  then show ?thesis
    using Inr r by (simp add: quiesceFault_def keeps_persistSafety pending_quiesce)
qed (simp add: quiesceFault_def)

lemma diskBlocked_decision:
  assumes "applyStateEventLocked ((event stateDiskBlocked)\<lparr>ev_diskReason := r\<rparr>) mt = Inr (d, mt')"
  shows "\<not> closeUpload d"
  using assms
  by (elim apply_Inr) (auto simp: applyKind_def noEffects_def split: if_splits)

lemma keeps_blockDownload [keeps_ops]: "keeps mt (snd (blockDownload save reason mt))"
proof (cases "applyStateEventLocked ((event stateDiskBlocked)\<lparr>ev_diskReason := reason\<rparr>) mt")
  case (Inr r)
  obtain d mt' where r: "r = (d, mt')" by fastforce
  have "pending d mt mt'" using apply_pending[OF Inr[unfolded r]] by simp
  then have "keeps mt (onLib DisallowDataDownload mt')" 
     "keeps mt (onLib DisallowDataDownload (mt'\<lparr>downloadBlockPersisted := False\<rparr>))"
    using diskBlocked_decision[OF Inr[unfolded r]] by (simp_all add: pending_download_closed)
  then show ?thesis
    using Inr r by (simp add: blockDownload_def Let_def split: callback.split)
qed (simp add: blockDownload_def Let_def)

lemma keeps_blockAndReport [keeps_ops]: "keeps mt (snd (blockAndReport save reason mt))"
  using keeps_blockDownload[of mt save reason]
  by (auto simp: blockAndReport_def split: prod.split option.split)

lemma keeps_applyFilePriorities [keeps_ops]:
  "keeps mt (snd (applyFilePrioritiesAndDownload save mt))"
proof (cases "applyStateEventLocked (event stateSelectionInvalid) mt")
  case (Inr r)
  obtain d mt' where r: "r = (d, mt')" by fastforce
  have "pending d mt mt'" using apply_pending[OF Inr[unfolded r]] by simp
  then show ?thesis
    using Inr r by (simp add: applyFilePrioritiesAndDownload_def Let_def keeps_persistSafety pending_quiesce keeps_onLib)
qed (simp add: applyFilePrioritiesAndDownload_def Let_def keeps_onLib)

lemma keeps_setPriorities [keeps_ops]: "keeps mt (setPriorities ps mt)"
  by (simp add: setPriorities_def)

lemma keeps_SetFilePriority [keeps_ops]: "keeps mt (snd (SetFilePriority save i p mt))"
  by (simp add: SetFilePriority_def keeps_setPriorities
      keeps_trans[OF keeps_setPriorities keeps_applyFilePriorities])

lemma keeps_SetTorrentFilesPriority [keeps_ops]: "keeps mt (snd (SetTorrentFilesPriority save p mt))"
  by (simp add: SetTorrentFilesPriority_def Let_def keeps_setPriorities
      keeps_trans[OF keeps_setPriorities keeps_applyFilePriorities])

lemma keeps_SetFilePriorities [keeps_ops]: "keeps mt (snd (SetFilePriorities save ps mt))"
  by (simp add: SetFilePriorities_def Let_def keeps_setPriorities
      keeps_trans[OF keeps_setPriorities keeps_applyFilePriorities])

lemma keeps_release: "keeps m mt \<Longrightarrow> keeps m (applyBackgroundReleaseLocked streaming d mt)"
  by (simp add: applyBackgroundReleaseLocked_def Let_def keeps_onLib)

lemma background_decision:
  assumes "applyStateEventLocked ev mt = Inr (d, mt')" "ev_kind ev = stateSelectionObserved \<or> ev_kind ev = stateSlotReleased"
  shows "\<not> closeUpload d \<and> \<not> closePayload d"
proof -
  obtain n fx where "applyKind (policy mt) ev = Inr (n, fx)" "d = decide n fx"
    using apply_Inr[OF assms(1)] by metis
  then show ?thesis
    using assms(2) by (auto simp: applyKind_def noEffects_def split: if_splits dest!: observeSelection_Inr)
qed

lemma keeps_background:
  assumes "applyStateEventLocked ev mt = Inr (d, mt')" "ev_kind ev = stateSelectionObserved \<or> ev_kind ev = stateSlotReleased"
  shows "keeps mt (applyBackgroundReleaseLocked streaming d mt')"
proof -
  have "pending d mt mt'" using apply_pending[OF assms(1)] assms(2) by auto
  then show ?thesis using background_decision[OF assms] by (simp add: keeps_release pending_none)
qed

lemma keeps_reconcile [keeps_ops]: "keeps mt (reconcileSelectionLocked runs streaming mt)"
  by (simp add: reconcileSelectionLocked_def Let_def keeps_background split: option.split sum.split prod.split)

lemma keeps_releaseFailed [keeps_ops]: "keeps mt (releaseFailedSlotLocked streaming mt)"
  by (simp add: releaseFailedSlotLocked_def keeps_background split: sum.split prod.split)

lemma keeps_allowUpload:
  "keeps m mt \<Longrightarrow> uploadOk (policy mt) \<Longrightarrow> keeps m (onLib AllowDataUpload mt)"
  by (simp add: keeps_def sameGen_def mtInv_def AllowDataUpload_def)

lemma allow_decision:
  assumes "applyStateEventLocked ev mt = Inr (d, mt')" "allowUpload d"
  shows "uploadOk (policy mt')"
  using assms(1)
proof (rule apply_Inr)
  fix n fx assume "applyKind (policy mt) ev = Inr (n, fx)" "d = decide n fx" "policy mt' = n"
  then show ?thesis using applyKind_gates(3)[of "policy mt" ev n fx] assms(2) by (simp add: uploadOk_eligible)
qed

text \<open>The closing tail of verification and of a restore.\<close>

lemma pending_tail:
  assumes "pending d m mt"
  shows "keeps m ((if closeUpload d then onLib DisallowDataUpload else id)
                  ((if closePayload d then onLib DisallowDataDownload else id) mt))"
  using assms by (rule pending_keeps) (simp_all add: lib_defs sameGen_def split: if_splits)

lemma keeps_verified:
  assumes "applyVerificationEventLocked v mt = Inr (d, mt')"
  shows "keeps mt ((if closeUpload d then onLib DisallowDataUpload else id)
                  ((if closePayload d then onLib DisallowDataDownload else id) (mt'\<lparr>currentAttempt := a\<rparr>)))"
    and "pending d mt mt'" and "allowUpload d \<Longrightarrow> uploadOk (policy mt')"
proof -
  note ev = assms[unfolded applyVerificationEventLocked_def]
  show p: "pending d mt mt'" using apply_pending[OF ev] by simp
  then show "keeps mt ((if closeUpload d then onLib DisallowDataUpload else id)
                  ((if closePayload d then onLib DisallowDataDownload else id) (mt'\<lparr>currentAttempt := a\<rparr>)))"
    by (intro pending_tail) simp
  show "allowUpload d \<Longrightarrow> uploadOk (policy mt')" by (rule allow_decision[OF ev])
qed

lemma keeps_abandonVerification [keeps_ops]: "keeps mt (abandonVerification attempt mt)"
  by (simp add: abandonVerification_def split: option.split)

lemma keeps_completeVerification [keeps_ops]:
  "keeps mt (snd (completeVerification noUpload save attempt err mt))"
proof (cases "currentAttempt mt")
  case (Some a)
  define v m1 where "v = attemptEvent (attemptError save err mt)"
    and "m1 = (if at_operation a
       then mt\<lparr>recheckOperation := map_option (recordOutcome (attemptError save err mt)) (recheckOperation mt)\<rparr> else mt)"
  have m1: "keeps mt m1" by (simp add: m1_def)
  have eq: "snd (completeVerification noUpload save attempt err mt) =
    (if at_id a \<noteq> attempt \<or> \<not> rechecking mt then mt
     else case applyVerificationEventLocked v m1 of
                 Inl _ \<Rightarrow> m1\<lparr>currentAttempt := None\<rparr>
               | Inr (d, mt) \<Rightarrow>
                  (let mt = mt\<lparr>currentAttempt := None\<rparr>;
                       mt = (if closePayload d then onLib DisallowDataDownload mt else mt);
                       mt = (if closeUpload d then onLib DisallowDataUpload mt else mt)
                   in if allowUpload d \<and> \<not> noUpload \<and> \<not> mtCancelled mt
                             then onLib AllowDataUpload mt else mt))"
    unfolding completeVerification_def Some Let_def m1_def v_def
    by (simp only: option.case snd_conv if_distrib[of snd] sum.case_distrib[of snd] prod.case_distrib[of snd])
  show ?thesis
  proof (cases "applyVerificationEventLocked v m1")
    case (Inr r)
    obtain d m2 where r: "r = (d, m2)" by fastforce
    let ?m3 = "(if closeUpload d then onLib DisallowDataUpload else id)
                  ((if closePayload d then onLib DisallowDataDownload else id) (m2\<lparr>currentAttempt := None\<rparr>))"
    have k: "keeps mt ?m3" using keeps_trans[OF m1 keeps_verified(1)[OF Inr[unfolded r]]] .
    have "keeps mt (onLib AllowDataUpload ?m3)" if "allowUpload d"
      by (rule keeps_allowUpload[OF k]) (use keeps_verified(3)[OF Inr[unfolded r] that] in simp)
    then show ?thesis
      unfolding eq using Inr r k by (cases "closePayload d"; cases "closeUpload d"; simp add: Let_def)
  qed (use m1 in \<open>simp add: eq\<close>)
qed (simp add: completeVerification_def)

lemma keeps_begin:
  assumes "applyVerificationEventLocked v mt = Inr (d, mt')"
  shows "keeps mt (onLib (DisallowDataUpload \<circ> DisallowDataDownload) mt')"
  by (rule pending_closed[OF keeps_verified(2)[OF assms]])

lemma onLib_comp: "onLib (f \<circ> g) mt = onLib f (onLib g mt)"
  by (simp add: onLib_def)

lemma onLib_update:
  "onLib f (mt\<lparr>recheckOperation := r\<rparr>) = (onLib f mt)\<lparr>recheckOperation := r\<rparr>"
  "onLib f (mt\<lparr>currentAttempt := a\<rparr>) = (onLib f mt)\<lparr>currentAttempt := a\<rparr>"
  "onLib f (mt\<lparr>downloadBlockPersisted := b\<rparr>) = (onLib f mt)\<lparr>downloadBlockPersisted := b\<rparr>"
  by (simp_all add: onLib_def)

lemma keeps_beginRecheck [keeps_ops]:
  "keeps mt (snd (beginRecheck noUpload save save' admitted attempt opID mt))"
proof (cases "applyVerificationEventLocked verificationBegin mt")
  case (Inr r)
  obtain d mt' where r: "r = (d, mt')" by fastforce
  have k: "keeps mt (onLib (clearFilePriorities \<circ> DisallowDataUpload \<circ> DisallowDataDownload) mt')"
    using keeps_onLib[OF closing_calls(3) keeps_begin[OF Inr[unfolded r]]] by (simp add: onLib_comp)
  show ?thesis
    using Inr r k keeps_trans[OF _ keeps_completeVerification]
    by (simp add: beginRecheck_def Let_def onLib_update split: option.split)
qed (simp add: beginRecheck_def)

lemma keeps_startRecheck [keeps_ops]:
  "keeps mt (snd (startRecheckLocked noUpload save save' active admitted attempt opID mt))"
  by (simp add: startRecheckLocked_def keeps_beginRecheck split: option.split)

lemma keeps_verifyInactive [keeps_ops]:
  "keeps mt (snd (verifyInactiveBegin noUpload save save' attempt mt))"
proof (cases "applyVerificationEventLocked verificationBegin mt")
  case (Inr r)
  obtain d mt' where r: "r = (d, mt')" by fastforce
  show ?thesis
    using Inr r keeps_begin[OF Inr[unfolded r]] keeps_trans[OF _ keeps_completeVerification]
    by (simp add: verifyInactiveBegin_def Let_def onLib_update split: option.split)
qed (simp add: verifyInactiveBegin_def)

lemma keeps_RestoreVerificationBlock [keeps_ops]: "keeps mt (snd (RestoreVerificationBlock mt))"
  by (simp add: RestoreVerificationBlock_def keeps_begin split: sum.split prod.split)

lemma keeps_bindRuntime [keeps_ops]: "keeps mt (snd (bindRuntime save saveBlocks fence applied mt))"
  by (simp add: bindRuntime_def Let_def split: callback.split)

lemma keeps_FailIntentApply [keeps_ops]: "keeps mt (snd (FailIntentApply record revision code mt))"
proof (cases "applyStateEventLocked (event stateApplyFailed) mt")
  case (Inr r)
  obtain d mt' where r: "r = (d, mt')" by fastforce
  have "pending d mt mt'" using apply_pending[OF Inr[unfolded r]] by simp
  then show ?thesis using Inr r by (simp add: FailIntentApply_def pending_quiesce)
qed (simp add: FailIntentApply_def)

lemma keeps_CaptureObservation [keeps_ops]: "keeps mt (snd (CaptureObservation mt))"
  by (simp add: CaptureObservation_def Let_def)

lemma keeps_installSaved: "keeps m (installSaved s ps mt) = keeps m mt" "pending d m (installSaved s ps mt) = pending d m mt"
  by (simp_all add: installSaved_def)

lemma keeps_pauseWithIntent [keeps_ops]: "keeps mt (snd (pauseWithIntent saved mt))"
proof -
  let ?m = "onLib DisallowDataDownload mt" and ?ev = "(event statePaused)\<lparr>ev_fullReconcile := (saved \<noteq> None)\<rparr>"
  have k: "keeps mt ?m" by (simp add: keeps_onLib)
  have "keeps mt (applyQuiesceLocked d (case saved of None \<Rightarrow> mt' | Some s \<Rightarrow> installSaved s ps mt'))"
    if "applyStateEventLocked ?ev ?m = Inr (d, mt')" for d mt' ps
    using pending_trans[OF k apply_pending[OF that]]
    by (intro pending_quiesce) (simp add: keeps_installSaved split: option.split)
  then show ?thesis
    using k by (simp add: pauseWithIntent_def Let_def split: sum.split prod.split)
qed

lemma keeps_StageExistingRestore [keeps_ops]: "keeps mt (snd (StageExistingRestore saved mt))"
proof -
  have "keeps mt (applyQuiesceLocked d (installSaved saved ps mt'))"
    if "applyStateEventLocked (event stateRestoreStaged) mt = Inr (d, mt')" for d mt' ps
    using apply_pending[OF that] by (intro pending_quiesce) (simp add: keeps_installSaved)
  then show ?thesis by (simp add: StageExistingRestore_def split: sum.split prod.split)
qed

lemma keeps_resumeBegin [keeps_ops]: "keeps mt (snd (resumeBegin mt))"
  by (simp add: resumeBegin_def Let_def keeps_onLib)

text \<open>Resume keeps payload eligibility, and always leads to a policy that allows uploads up to the
  verification fault.\<close>

lemma activate_resume:
  assumes "activate p ev = Inr (n, fx)" "ev_kind ev = stateActivated" "ev_phase ev = StateQueued" "ev_diskRecovered ev"
    "\<not> terminal p"
  shows "payloadEligible p \<Longrightarrow> payloadEligible n" "uploadOk n" "\<not> slot n"
proof -
  obtain b where b: "activationBase p ev = Inr b"
    and n: "n = (activationPhase ev (b\<lparr>run := RunEnabled\<rparr>))\<lparr>slot := False, payloadComplete := False\<rparr>"
    using activate_Inr[OF assms(1)] assms(3) by auto
  have nb: "n = b\<lparr>run := RunEnabled, slot := False, payloadComplete := False\<rparr>"
    unfolding n using assms(3) by (simp add: activationPhase_def)
  have "\<not> isChecking p" "\<not> uncertain p" "\<not> initializing b" "disk b = ''''" "fault b = None"
    using b assms(2,4) by (auto simp: activationBase_def Let_def fault_None split: if_splits)
  then show "payloadEligible p \<Longrightarrow> payloadEligible n" "uploadOk n" "\<not> slot n"
    using activationBase_sel[OF b] assms(5) by (simp_all add: nb uploadOk_def payloadEligible_def uploadEligible_def)
qed

lemma keeps_resumed:
  assumes "applyStateEventLocked ((event stateActivated)\<lparr>ev_phase := StateQueued, ev_diskRecovered := True\<rparr>) mt = Inr (d, mt')"
  shows "keeps mt mt'" "uploadOk (policy mt')"
proof -
  let ?ev = "(event stateActivated)\<lparr>ev_phase := StateQueued, ev_diskRecovered := True\<rparr>"
  obtain n fx where *: "applyKind (policy mt) ?ev = Inr (n, fx)" "policy mt' = n" "lib mt' = lib mt" "\<not> terminal (policy mt)"
    using apply_Inr[OF assms] by metis
  then have act: "activate (policy mt) ?ev = Inr (n, fx)" by (simp add: applyKind_def)
  note res = activate_resume[OF act _ _ _ *(4)]
  show "uploadOk (policy mt')" using res(2) *(2) by simp
  have p: "pending d mt mt'" using apply_pending[OF assms] by simp
  have "mtInv mt' \<and> (slot (policy mt') \<longrightarrow> slot (policy mt))" if "mtInv mt"
    using that pendingD(1,2)[OF p that] res *(2,3) by (simp add: mtInv_def)
  then show "keeps mt mt'" using p by (simp add: keeps_def pending_def)
qed

lemma applyFilePriorities_policy:
  assumes "applyFilePrioritiesAndDownload save mt = (None, mt')"
  shows "policy mt' = policy mt" "lastWriteChunkErr (lib mt') = lastWriteChunkErr (lib mt)"
  using assms
  by (auto simp: applyFilePrioritiesAndDownload_def installPriorities_def Let_def split: if_splits sum.splits prod.splits option.splits)

lemma keeps_applied: "applyFilePrioritiesAndDownload save mt = (r, mt') \<Longrightarrow> keeps mt mt'"
  using keeps_applyFilePriorities[of mt save] by simp

lemma keeps_resumeActivate [keeps_ops]: "keeps mt (snd (resumeActivate safety mt))"
proof (cases "applyStateEventLocked ((event stateActivated)\<lparr>ev_phase := StateQueued, ev_diskRecovered := True\<rparr>) mt")
  case (Inr r)
  obtain d mt1 where r: "r = (d, mt1)" by fastforce
  let ?m = "mt1\<lparr>downloadBlockPersisted := False\<rparr>"
  have km: "keeps mt ?m" using keeps_resumed(1)[OF Inr[unfolded r]] by simp
  obtain e mt2 where e: "applyFilePrioritiesAndDownload safety ?m = (e, mt2)" by fastforce
  have k: "keeps mt mt2" using keeps_trans[OF km keeps_applied[OF e]] .
  have "keeps mt (onLib AllowDataUpload mt2)" if "e = None"
    by (rule keeps_allowUpload[OF k])
       (use applyFilePriorities_policy(1)[of safety ?m mt2] keeps_resumed(2)[OF Inr[unfolded r]] e that in simp)
  then show ?thesis using k km Inr r e by (simp add: resumeActivate_def Let_def split: option.split)
qed (simp add: resumeActivate_def)

lemma keeps_resumeFinish [keeps_ops]:
  "keeps mt (snd (resumeFinish save safety w version probeErr mt))"
proof (cases "ClearWriteChunkErrorIfVersion version (lib mt)")
  case (Inr t)
  show ?thesis
    using Inr keeps_cleared[OF Inr] keeps_blockAndReport[of mt] keeps_trans[OF keeps_cleared[OF Inr] keeps_resumeActivate]
    by (simp add: resumeFinish_def split: callback.split option.split)
qed (simp add: resumeFinish_def keeps_blockAndReport split: option.split)

text \<open>A fault that fails closed is accepted by every live policy, and closes both gates.\<close>

lemma quiesceFault_closes:
  assumes "pending d m mt" "registered (policy mt)" "\<not> terminal (policy mt)" "k = stateApplyFailed"
  shows "keeps m (snd (quiesceFault safety k mt))"
proof -
  let ?n = "(policy mt)\<lparr>initializing := True, slot := False\<rparr>"
  have t: "runtimeTransition (policy mt) (event k) = Inr (decide ?n quiesceEffects)"
    using assms(2-4) by (simp add: runtimeTransition_def applyKind_def failClosed_def event_def)
  then obtain d' mt' where a: "applyStateEventLocked (event k) mt = Inr (d', mt')"
    by (simp add: applyStateEventLocked_def)
  then have d': "d' = decide ?n quiesceEffects" using t by (auto simp: applyStateEventLocked_def)
  obtain n fx where g: "d' = decide n fx" "policy mt' = n" "lib mt' = lib mt" "sameGen mt mt'" "mirrors mt'"
    using apply_Inr[OF a] by metis
  then have f: "policy mt' = ?n" using d' by (metis decide_sel(1))
  have "pending d' m mt'"
  proof -
    have "policyRun ?n" if "mtInv m"
      using policyRun_step[OF pendingD(1)[OF assms(1) that] t] by simp
    then show ?thesis
      using assms(1) f g(3-5) d' by (simp add: pending_def sameGen_def quiesceEffects_def)
  qed
  then show ?thesis using a by (simp add: quiesceFault_def keeps_persistSafety pending_quiesce)
qed

lemma activated_live:
  assumes "applyStateEventLocked ev mt = Inr (d, mt')" "ev_kind ev = stateActivated"
  shows "registered (policy mt')" "\<not> terminal (policy mt')" "closePayload d"
proof -
  obtain n fx where *: "applyKind (policy mt) ev = Inr (n, fx)" "d = decide n fx" "policy mt' = n" "\<not> terminal (policy mt)"
    using apply_Inr[OF assms(1)] by metis
  then have "activate (policy mt) ev = Inr (n, fx)" using assms(2) by (simp add: applyKind_def)
  from activate_Inr[OF this] show "registered (policy mt')" "\<not> terminal (policy mt')" "closePayload d"
    using *(2-4) by (auto simp: gateEffects_def dest: activationBase_sel)
qed

lemma keeps_restoreGates:
  assumes "pending d m mt" "allowUpload d \<Longrightarrow> uploadOk (policy mt)"
  shows "keeps m (restoreGates noUpload d mt)"
proof (cases "closeUpload d")
  case True
  show ?thesis
    using assms(1) by (rule pending_keeps)
      (simp_all add: True restoreGates_def Let_def lib_defs sameGen_def split: if_splits)
next
  case False
  then show ?thesis
    using pending_download_closed[OF assms(1) False] keeps_allowUpload assms(2) by (simp add: restoreGates_def Let_def)
qed

lemma keeps_finishRestoreActivate [keeps_ops]:
  assumes "ev_kind ev = stateActivated"
  shows "keeps mt (snd (finishRestoreActivate noUpload safety mergeOk ev mt))"
proof (cases "applyStateEventLocked ev mt")
  case (Inr r)
  obtain d mt1 where r: "r = (d, mt1)" by fastforce
  note a = Inr[unfolded r]
  define m where "m = (if ev_diskRecovered ev then mt1\<lparr>downloadBlockPersisted := False\<rparr> else mt1)"
  have p: "pending d mt m" using apply_pending[OF a] assms by (simp add: m_def)
  have live: "registered (policy m)" "\<not> terminal (policy m)" using activated_live[OF a assms] by (simp_all add: m_def)
  let ?b = "inactivePhase (vf_state (next_facts d))"
  define m2 where "m2 = (if ?b then m else onLib (\<lambda>t. t\<lparr>networkingEnabled := True\<rparr>) m)"
  have p2: "pending d mt m2" using p by (simp add: m2_def pending_onLib)
  have k: "keeps mt (restoreGates noUpload d m2)"
    by (rule keeps_restoreGates[OF p2]) (use allow_decision[OF a] in \<open>simp add: m2_def m_def\<close>)
  have "finishRestoreActivate noUpload safety mergeOk ev mt =
    (if \<not> ?b \<and> \<not> networkingEnabled (lib m) \<and> \<not> mergeOk
     then (Some MergeFailed, snd (quiesceFault safety stateApplyFailed m))
     else (None, if ?b \<and> InfoKnown (restoreGates noUpload d m2)
                 then onLib clearFilePriorities (restoreGates noUpload d m2) else restoreGates noUpload d m2))"
    unfolding finishRestoreActivate_def a sum.case prod.case Let_def m_def[symmetric] m2_def[symmetric] by (rule refl)
  then show ?thesis
    using quiesceFault_closes[OF p live] k keeps_onLib[OF closing_calls(3) k] by simp
qed (simp add: finishRestoreActivate_def)

lemma keeps_finishRestoreCheck [keeps_ops]: "keeps mt (snd (finishRestoreCheck safety metadataOk w mt))"
  by (simp add: finishRestoreCheck_def keeps_quiesceFault)

lemma keeps_finishRestoreRecover [keeps_ops]: "keeps mt (snd (finishRestoreRecover save w version probeErr mt))"
  by (simp add: finishRestoreRecover_def keeps_blockAndReport keeps_cleared split: option.split sum.split)

lemma keeps_admitBegin [keeps_ops]: "keeps mt (snd (admitBegin ticket mt))"
  by (simp add: admitBegin_def split: option.split)

lemma keeps_opened:
  assumes "AllowDataDownloadIfNoWriteError (lib mt) = Inr t" "payloadEligible (policy mt)" "keeps m mt"
  shows "keeps m (mt\<lparr>lib := t\<rparr>)"
proof -
  have "t = (lib mt)\<lparr>dataDownloadDisallowed := False\<rparr>" "lastWriteChunkErr (lib mt) = None"
    using assms(1) by (auto simp: AllowDataDownloadIfNoWriteError_def split: if_splits option.splits)
  then show ?thesis using assms(2,3) by (simp add: keeps_def sameGen_def mtInv_def mirrors_def)
qed

lemma keeps_admitOpen:
  assumes "payloadEligible (policy mt)"
  shows "keeps mt (snd (case applyFilePrioritiesAndDownload safety mt of
              (Some e, mt) \<Rightarrow> (Some e, mt)
            | (None, mt) \<Rightarrow>
               (case AllowDataDownloadIfNoWriteError (lib mt) of
                  Inl e \<Rightarrow> blockAndReport save (writeErrorReason e) mt
                | Inr t \<Rightarrow> (None, mt\<lparr>lib := t\<rparr>))))"
proof -
  obtain r mt' where r: "applyFilePrioritiesAndDownload safety mt = (r, mt')" by fastforce
  note k = keeps_applied[OF r]
  show ?thesis
  proof (cases r)
    case None
    have p: "payloadEligible (policy mt')"
      using applyFilePriorities_policy(1)[of safety mt mt'] assms r None by simp
    show ?thesis
      using r None keeps_opened[OF _ p k] keeps_trans[OF k keeps_blockAndReport] by (simp split: sum.split)
  qed (use r k in simp)
qed

lemma keeps_admitFinish [keeps_ops]:
  "keeps mt (snd (admitFinish save safety tk probeErr metadataOk mt))"
proof -
  define m where "m = (if preparation mt = Some (tk_id tk) then mt\<lparr>preparation := None\<rparr> else mt)"
  have m: "keeps mt m" "policy m = policy mt" by (simp_all add: m_def)
  show ?thesis
    using m keeps_trans[OF m(1) keeps_blockAndReport] keeps_trans[OF m(1) keeps_quiesceFault]
      keeps_trans[OF m(1) keeps_admitOpen[of m]]
    unfolding admitFinish_def Let_def m_def[symmetric] by (simp split: option.split)
qed

lemma keeps_payloadWriteError [keeps_ops]: "keeps mt (payloadWriteError save err mt)"
  by (simp add: payloadWriteError_def keeps_blockDownload split: option.split)

lemma keeps_releaseIfOwned [keeps_ops]: "keeps mt (releaseIfOwned streaming token mt)"
  using keeps_releaseFailed[of "mt\<lparr>downloadAllStarted := False\<rparr>" streaming]
    keeps_trans[of mt "mt\<lparr>downloadAllStarted := False\<rparr>"]
  by (simp add: releaseIfOwned_def)

lemma keeps_refreshPeerDiscovery [keeps_ops]: "keeps mt (refreshPeerDiscovery noUpload safety downloadAll mt)"
proof (cases "uploadEligible (policy mt)")
  case True
  let ?m = "if noUpload then mt else onLib AllowDataUpload mt"
  have "keeps mt ?m" using True by (simp add: keeps_allowUpload uploadOk_eligible)
  then show ?thesis
    using True keeps_trans[OF _ keeps_applyFilePriorities] by (simp add: refreshPeerDiscovery_def Let_def)
qed (simp add: refreshPeerDiscovery_def)

lemma keeps_remember [keeps_ops]: "keeps mt (snd (rememberExpectedPayload i ready mt))"
  by (simp add: rememberExpectedPayload_def Let_def)

lemma keeps_detectMissing [keeps_ops]: "keeps mt (snd (detectMissingFinish safety w missing mt))"
  by (simp add: detectMissingFinish_def keeps_quiesceFault)

lemma keeps_terminal [keeps_ops]:
  assumes "applyStateEventLocked (event k) mt = Inr (d, mt')" "k \<noteq> stateSlotRequested"
  shows "keeps mt (applyQuiesceLocked d mt')"
  using apply_pending[OF assms(1)] assms(2) by (simp add: pending_quiesce)

end
