(* ===== verification/Engine.thy ===== *)
theory Engine
  imports Generation
begin

text \<open>
  The engine as a whole: the registered, registering and detaching generations, the commands, the
  scheduler and shutdown (\<open>engine/engine.go\<close>, \<open>resource_manager.go\<close> and the entry points of the
  other files of \<open>internal/engine\<close>). An entry point that does I/O without the admission lock is
  split where the lock is released; between two parts any other step may happen, and the second
  part gets the ticket the first one returned. The results of that I/O are arguments.
\<close>

section \<open>State\<close>

record engine =
  ctxDone :: bool
  maxActiveDownloads :: int
  btNoUpload :: bool
  managedTorrents :: "ManagedTorrent list"
  registering :: "ManagedTorrent list"
  detaching :: "ManagedTorrent list"
  nextGeneration :: nat
  nextTicket :: nat
  nextRecheckID :: "64 word"

definition newEngine :: "int \<Rightarrow> bool \<Rightarrow> engine" where
  "newEngine maxActive noUpload = \<lparr>ctxDone = False, maxActiveDownloads = maxActive, btNoUpload = noUpload,
     managedTorrents = [], registering = [], detaching = [], nextGeneration = 0, nextTicket = 0, nextRecheckID = 0\<rparr>"

definition lookup :: "engine \<Rightarrow> string \<Rightarrow> ManagedTorrent option" where
  "lookup e h = find (\<lambda>mt. hash mt = h) (managedTorrents e)"

text \<open>Replace the generation that \<open>mt\<close> belongs to.\<close>

definition putGen :: "ManagedTorrent \<Rightarrow> engine \<Rightarrow> engine" where
  "putGen mt e = e\<lparr>managedTorrents :=
     map (\<lambda>m. if generation m = generation mt then mt else m) (managedTorrents e)\<rparr>"

definition currentTorrent :: "engine \<Rightarrow> nat \<Rightarrow> ManagedTorrent option" where
  "currentTorrent e g = (if ctxDone e then None else find (\<lambda>mt. generation mt = g) (managedTorrents e))"

type_synonym 'a genOp = "ManagedTorrent \<Rightarrow> 'a \<times> ManagedTorrent"

text \<open>The shape of the entry points: look up by hash, or continue on a generation if it is still
  current; run the operation; store the generation.\<close>

definition withHash :: "engine \<Rightarrow> string \<Rightarrow> engineError option genOp \<Rightarrow> engineError option \<times> engine" where
  "withHash e h f =
     (case lookup e h of
        None \<Rightarrow> (Some (TorrentNotFound h), e)
      | Some mt \<Rightarrow> (case f mt of (r, mt') \<Rightarrow> (r, putGen mt' e)))"

definition withCurrent :: "engine \<Rightarrow> nat \<Rightarrow> engineError option genOp \<Rightarrow> engineError option \<times> engine" where
  "withCurrent e g f =
     (case currentTorrent e g of
        None \<Rightarrow> (Some OperationConflict, e)
      | Some mt \<Rightarrow> (case f mt of (r, mt') \<Rightarrow> (r, putGen mt' e)))"

definition checkCtx :: "engine \<Rightarrow> (engineError option \<times> engine) \<Rightarrow> engineError option \<times> engine" where
  "checkCtx e r = (if ctxDone e then (Some CtxErr, e) else r)"

section \<open>Commands on one torrent\<close>

definition Pause :: "string \<Rightarrow> engine \<Rightarrow> engineError option \<times> engine" where
  "Pause h e = checkCtx e (withHash e h (pauseWithIntent None))"

definition ReconcilePausedIntent :: "savedTorrent \<Rightarrow> engine \<Rightarrow> engineError option \<times> engine" where
  "ReconcilePausedIntent saved e = checkCtx e (withHash e (sv_hash saved) (pauseWithIntent (Some saved)))"

definition stageExistingRestore :: "savedTorrent \<Rightarrow> engine \<Rightarrow> engineError option \<times> engine" where
  "stageExistingRestore saved e = checkCtx e (withHash e (sv_hash saved) (StageExistingRestore saved))"

definition setFilePriority :: "callback \<Rightarrow> string \<Rightarrow> int \<Rightarrow> FilePriority \<Rightarrow> engine \<Rightarrow> engineError option \<times> engine" where
  "setFilePriority safety h i p e =
     checkCtx e (if i < 0 \<or> \<not> ValidFilePriority p then (Some InvalidPriority, e)
                 else withHash e h (SetFilePriority safety i p))"

definition setTorrentFilesPriority :: "callback \<Rightarrow> string \<Rightarrow> FilePriority \<Rightarrow> engine \<Rightarrow> engineError option \<times> engine" where
  "setTorrentFilesPriority safety h p e =
     checkCtx e (if \<not> ValidFilePriority p then (Some InvalidPriority, e)
                 else withHash e h (SetTorrentFilesPriority safety p))"

definition setFilePriorities ::
    "callback \<Rightarrow> string \<Rightarrow> (int \<times> FilePriority) list \<Rightarrow> engine \<Rightarrow> engineError option \<times> engine" where
  "setFilePriorities safety h ps e = checkCtx e (withHash e h (SetFilePriorities safety ps))"

definition SetQueuePosition :: "string \<Rightarrow> int \<Rightarrow> engine \<Rightarrow> engine" where
  "SetQueuePosition h position e = snd (withHash e h (\<lambda>mt. (None, mt\<lparr>queuePosition := position\<rparr>)))"

definition BindRuntime :: "callback \<Rightarrow> callback \<Rightarrow> nat \<Rightarrow> RuntimeFence \<Rightarrow> int \<Rightarrow> engine \<Rightarrow> engineError option \<times> engine" where
  "BindRuntime save saveBlocks expected fence applied e =
     (if \<not> validFence fence then (Some InvalidBinding, e)
      else checkCtx e
        (case lookup e (iv_hash fence) of
           None \<Rightarrow> (Some OperationConflict, e)
         | Some mt \<Rightarrow>
            if raw mt \<noteq> expected then (Some OperationConflict, e)
            else withHash e (iv_hash fence) (bindRuntime save saveBlocks fence applied)))"

definition failIntentApply :: "nat \<Rightarrow> IntentVersion \<Rightarrow> string \<Rightarrow> engine \<Rightarrow> engineError option \<times> engine" where
  "failIntentApply expected v code e =
     (if iv_record v = '''' \<or> iv_revision v < 1 then (Some OperationConflict, e)
      else if \<not> failureCode code then (Some InvalidFailureCode, e)
      else case lookup e (iv_hash v) of
        None \<Rightarrow> (Some OperationConflict, e)
      | Some mt \<Rightarrow>
         if raw mt \<noteq> expected then (Some OperationConflict, e)
         else withHash e (iv_hash v) (FailIntentApply (iv_record v) (iv_revision v) code))"

text \<open>\<open>g\<close> is the generation found before the storage was refreshed.\<close>

definition captureObservation :: "string \<Rightarrow> nat \<Rightarrow> engine \<Rightarrow> (engineError + (RuntimeFence \<times> int \<times> int)) \<times> engine" where
  "captureObservation h g e =
     (case lookup e h of
        None \<Rightarrow> (Inl (TorrentNotFound h), e)
      | Some mt \<Rightarrow>
         if generation mt \<noteq> g then (Inl OperationConflict, e)
         else case CaptureObservation mt of (r, mt') \<Rightarrow> (r, putGen mt' e))"

definition restoreVerificationBlock :: "string \<Rightarrow> engine \<Rightarrow> engineError option \<times> engine" where
  "restoreVerificationBlock h e = withHash e h RestoreVerificationBlock"

section \<open>Verification\<close>

text \<open>The operation number is consumed before the policy may reject the check.\<close>

definition StartRecheck :: "callback \<Rightarrow> callback \<Rightarrow> bool \<Rightarrow> bool \<Rightarrow> string \<Rightarrow> engine \<Rightarrow> engineError option \<times> engine" where
  "StartRecheck save save' active admitted h e =
     (case lookup e h of
        None \<Rightarrow> (Some (TorrentNotFound h), e)
      | Some mt \<Rightarrow>
         if ctxDone e then (Some Cancelled, e)
         else
           (let fresh = (\<not> rechecking mt \<and> \<not> mt_initializing mt \<and> InfoKnown mt \<and> \<not> active);
                e = (if fresh then e\<lparr>nextRecheckID := nextRecheckID e + 1\<rparr> else e);
                a = nextTicket e;
                e = e\<lparr>nextTicket := a + 1\<rparr>
            in withHash e h (startRecheckLocked (btNoUpload e) save save' active admitted a (nextRecheckID e))))"

text \<open>A generation is reached through its pointer, whichever table holds it. One that is not current any
  more gives up its attempt.\<close>

definition onGeneration :: "nat \<Rightarrow> (ManagedTorrent \<Rightarrow> ManagedTorrent) \<Rightarrow> engine \<Rightarrow> engine" where
  "onGeneration g f e =
     (let at = (\<lambda>m. if generation m = g then f m else m)
      in e\<lparr>managedTorrents := map at (managedTorrents e), registering := map at (registering e), detaching := map at (detaching e)\<rparr>)"

definition finishVerification :: "callback \<Rightarrow> nat \<Rightarrow> nat \<Rightarrow> verifyError option \<Rightarrow> engine \<Rightarrow> bool \<times> engine" where
  "finishVerification save g attempt err e =
     (case currentTorrent e g of
        None \<Rightarrow> (False, onGeneration g (abandonVerification attempt) e)
      | Some mt \<Rightarrow> (case completeVerification (btNoUpload e) save attempt err mt of (r, mt') \<Rightarrow> (r, putGen mt' e)))"

definition VerifyInactive :: "callback \<Rightarrow> callback \<Rightarrow> string \<Rightarrow> engine \<Rightarrow> engineError option \<times> engine" where
  "VerifyInactive save save' h e =
     (if ctxDone e then (Some Cancelled, e)
      else let a = nextTicket e
           in withHash (e\<lparr>nextTicket := a + 1\<rparr>) h (verifyInactiveBegin (btNoUpload e) save save' a))"

text \<open>The verification task starts: a stale attempt is finished as cancelled, a current one is
  marked as running.\<close>

definition startVerificationTask :: "callback \<Rightarrow> nat \<Rightarrow> nat \<Rightarrow> engine \<Rightarrow> engine" where
  "startVerificationTask save g attempt e =
     (case find (\<lambda>mt. generation mt = g) (managedTorrents e) of
        None \<Rightarrow> snd (finishVerification save g attempt (Some contextCanceled) e)
      | Some mt \<Rightarrow>
         if map_option at_id (currentAttempt mt) \<noteq> Some attempt \<or> mtCancelled mt
         then snd (finishVerification save g attempt (Some contextCanceled) e)
         else putGen (mt\<lparr>recheckOperation := map_option (\<lambda>op. op\<lparr>op_status := ''running''\<rparr>) (recheckOperation mt)\<rparr>) e)"

section \<open>Resume and restore\<close>

definition ResumeBegin :: "string \<Rightarrow> engine \<Rightarrow> (engineError, nat \<times> workTicket \<times> 64 word) result \<times> engine" where
  "ResumeBegin h e =
     (if ctxDone e then (Inl CtxErr, e)
      else case lookup e h of
        None \<Rightarrow> (Inl (TorrentNotFound h), e)
      | Some mt \<Rightarrow>
         (case resumeBegin mt of
            (Inl x, mt') \<Rightarrow> (Inl x, putGen mt' e)
          | (Inr (w, v), mt') \<Rightarrow> (Inr (generation mt, w, v), putGen mt' e)))"

definition ResumeFinish ::
    "callback \<Rightarrow> callback \<Rightarrow> nat \<times> workTicket \<times> 64 word \<Rightarrow> string option \<Rightarrow> engine \<Rightarrow> engineError option \<times> engine" where
  "ResumeFinish save safety tk probeErr e =
     (case tk of (g, w, v) \<Rightarrow> withCurrent e g (resumeFinish save safety w v probeErr))"

definition FinishRestoreBegin ::
    "string \<Rightarrow> TorrentState \<Rightarrow> engine \<Rightarrow> (engineError, nat \<times> stateEvent \<times> workTicket) result" where
  "FinishRestoreBegin h state e =
     (if ctxDone e then Inl CtxErr
      else case lookup e h of
        None \<Rightarrow> Inl (TorrentNotFound h)
      | Some mt \<Rightarrow>
         (case finishRestoreBegin state mt of
            Inl x \<Rightarrow> Inl x
          | Inr (ev, w) \<Rightarrow> Inr (generation mt, ev, w)))"

text \<open>Second part: without a manual Resume it goes on to the activation; with one it captures
  again and returns the ticket of the disk probe.\<close>

definition FinishRestoreActivate ::
    "callback \<Rightarrow> bool \<Rightarrow> bool \<Rightarrow> nat \<times> stateEvent \<times> workTicket \<Rightarrow> engine \<Rightarrow> engineError option \<times> engine" where
  "FinishRestoreActivate safety metadataOk mergeOk tk e =
     (case tk of (g, ev, w) \<Rightarrow> withCurrent e g (\<lambda>mt.
        case finishRestoreCheck safety metadataOk w mt of
          (Some x, mt) \<Rightarrow> (Some x, mt)
        | (None, mt) \<Rightarrow> finishRestoreActivate (btNoUpload e) safety mergeOk ev mt))"

definition FinishRestoreProbe ::
    "callback \<Rightarrow> bool \<Rightarrow> nat \<times> stateEvent \<times> workTicket \<Rightarrow> engine
     \<Rightarrow> (engineError, nat \<times> stateEvent \<times> workTicket \<times> 64 word) result \<times> engine" where
  "FinishRestoreProbe safety metadataOk tk e =
     (case tk of (g, ev, w) \<Rightarrow>
        case currentTorrent e g of
          None \<Rightarrow> (Inl OperationConflict, e)
        | Some mt \<Rightarrow>
           (case finishRestoreCheck safety metadataOk w mt of
              (Some x, mt) \<Rightarrow> (Inl x, putGen mt e)
            | (None, mt) \<Rightarrow> (Inr (g, ev, captureWork mt, lastWriteChunkErrVersion (lib mt)), putGen mt e)))"

definition FinishRestoreManual ::
    "callback \<Rightarrow> callback \<Rightarrow> string option \<Rightarrow> bool \<Rightarrow> nat \<times> stateEvent \<times> workTicket \<times> 64 word \<Rightarrow> engine
     \<Rightarrow> engineError option \<times> engine" where
  "FinishRestoreManual save safety probeErr mergeOk tk e =
     (case tk of (g, ev, w, v) \<Rightarrow> withCurrent e g (\<lambda>mt.
        case finishRestoreRecover save w v probeErr mt of
          (Some x, mt) \<Rightarrow> (Some x, mt)
        | (None, mt) \<Rightarrow> finishRestoreActivate (btNoUpload e) safety mergeOk (ev\<lparr>ev_diskRecovered := True\<rparr>) mt))"

section \<open>Payload admission\<close>

definition AdmitBegin :: "nat \<Rightarrow> engine \<Rightarrow> (engineError, nat \<times> payloadPreparation) result \<times> engine" where
  "AdmitBegin g e =
     (case currentTorrent e g of
        None \<Rightarrow> (Inl OperationConflict, e)
      | Some mt \<Rightarrow>
         (case admitBegin (nextTicket e) mt of
            (Inl x, mt') \<Rightarrow> (Inl x, putGen mt' e)
          | (Inr tk, mt') \<Rightarrow> (Inr (g, tk), (putGen mt' e)\<lparr>nextTicket := nextTicket e + 1\<rparr>)))"

definition AdmitFinish ::
    "callback \<Rightarrow> callback \<Rightarrow> nat \<times> payloadPreparation \<Rightarrow> string option \<Rightarrow> bool \<Rightarrow> engine \<Rightarrow> engineError option \<times> engine" where
  "AdmitFinish save safety tk probeErr metadataOk e =
     withCurrent e (fst tk) (admitFinish save safety (snd tk) probeErr metadataOk)"

definition CheckPayloadAdmission ::
    "string \<Rightarrow> engine \<Rightarrow> (engineError, nat \<times> payloadPreparation) result \<times> engine" where
  "CheckPayloadAdmission h e =
     (case lookup e h of
        None \<Rightarrow> (Inl (TorrentNotFound h), e)
      | Some mt \<Rightarrow> if ctxDone e then (Inl CtxErr, e) else AdmitBegin (generation mt) e)"

definition PayloadWriteError :: "callback \<Rightarrow> nat \<Rightarrow> storageError option \<Rightarrow> engine \<Rightarrow> engine" where
  "PayloadWriteError save g err e =
     (case currentTorrent e g of
        None \<Rightarrow> e
      | Some mt \<Rightarrow> putGen (payloadWriteError save err mt) e)"

definition RefreshPeerDiscovery :: "callback \<Rightarrow> bool \<Rightarrow> nat \<Rightarrow> engine \<Rightarrow> engine" where
  "RefreshPeerDiscovery safety downloadAll g e =
     (case currentTorrent e g of
        None \<Rightarrow> e
      | Some mt \<Rightarrow> putGen (refreshPeerDiscovery (btNoUpload e) safety downloadAll mt) e)"

definition restoreBasePriorities :: "callback \<Rightarrow> string \<Rightarrow> engine \<Rightarrow> engine" where
  "restoreBasePriorities save h e = snd (withHash e h (basePriorities save))"

definition DetectMissingBegin :: "nat \<Rightarrow> engine \<Rightarrow> (engineError, nat \<times> workTicket) result" where
  "DetectMissingBegin g e =
     (case currentTorrent e g of
        None \<Rightarrow> Inl OperationConflict
      | Some mt \<Rightarrow>
         if mt_initializing mt \<or> rechecking mt \<or> verificationUncertain mt then Inl OperationConflict
         else Inr (g, captureWork mt))"

definition DetectMissingFinish :: "callback \<Rightarrow> nat \<times> workTicket \<Rightarrow> bool \<Rightarrow> engine \<Rightarrow> engineError option \<times> engine" where
  "DetectMissingFinish safety tk missing e = withCurrent e (fst tk) (detectMissingFinish safety (snd tk) missing)"

definition RememberExpectedPayload :: "nat \<Rightarrow> int \<Rightarrow> bool \<Rightarrow> engine \<Rightarrow> engine" where
  "RememberExpectedPayload g i ready e =
     (case find (\<lambda>mt. generation mt = g) (managedTorrents e) of
        None \<Rightarrow> e
      | Some mt \<Rightarrow> putGen (snd (rememberExpectedPayload i ready mt)) e)"

section \<open>The scheduler (\<open>resource_manager.go\<close>)\<close>

definition slotCountLocked :: "engine \<Rightarrow> int" where
  "slotCountLocked e = int (length (filter (\<lambda>mt. slot (policy mt)) (managedTorrents e)))"

definition waiting :: "ManagedTorrent \<Rightarrow> bool" where
  "waiting mt \<longleftrightarrow> payloadEligible (policy mt) \<and> \<not> slot (policy mt) \<and> \<not> selectedComplete (policy mt)
     \<and> \<not> payloadComplete (policy mt)"

text \<open>Go's \<open><\<close> on strings compares bytes.\<close>

definition strLess :: "string \<Rightarrow> string \<Rightarrow> bool" where
  "strLess a b = ord_class.lexordp a b"

definition before :: "ManagedTorrent \<Rightarrow> ManagedTorrent \<Rightarrow> bool" where
  "before mt first =
     (let p = queuePosition mt; position = queuePosition first; a = addedAt mt; added = addedAt first in
      if p > 0 \<and> position > 0 \<and> p \<noteq> position then p < position
      else if (p > 0) \<noteq> (position > 0) then p > 0
      else if a \<noteq> added then a < added
      else strLess (hash mt) (hash first))"

text \<open>One pass over the map, in whatever order it is iterated.\<close>

definition headStep :: "ManagedTorrent \<Rightarrow> ManagedTorrent option \<Rightarrow> ManagedTorrent option" where
  "headStep mt first =
     (if \<not> waiting mt then first
      else case first of None \<Rightarrow> Some mt | Some f \<Rightarrow> if before mt f then Some mt else first)"

definition schedulerHead :: "ManagedTorrent list \<Rightarrow> ManagedTorrent option" where
  "schedulerHead mts = fold headStep mts None"

definition schedulerHeadLocked :: "engine \<Rightarrow> ManagedTorrent option" where
  "schedulerHeadLocked e = schedulerHead (managedTorrents e)"

text \<open>The health probe of one generation: capture, and the rest of the loop body of
  \<open>manageResources\<close> up to the payload preparation.\<close>

definition ManageProbe :: "nat \<Rightarrow> engine \<Rightarrow> (nat \<times> payloadPreparation) option \<times> engine" where
  "ManageProbe g e =
     (case currentTorrent e g of
        None \<Rightarrow> (None, e)
      | Some mt \<Rightarrow>
         if healthProbe mt \<noteq> None then (None, e)
         else (Some (g, \<lparr>tk_id = nextTicket e, tk_epoch = policyEpoch mt, tk_fence = runtimeFence mt, tk_slot = 0\<rparr>),
               (putGen (mt\<lparr>healthProbe := Some (nextTicket e)\<rparr>) e)\<lparr>nextTicket := nextTicket e + 1\<rparr>))"

definition requestEvent :: "bool \<Rightarrow> stateEvent" where
  "requestEvent available = (event stateSlotRequested)\<lparr>ev_slotAvailable := available\<rparr>"

text \<open>Lines 129 to 141: ask for a slot unless one is held. The first component tells whether the
  pass goes on.\<close>

definition grantSlot :: "nat \<Rightarrow> engine \<Rightarrow> bool \<times> engine" where
  "grantSlot g e =
     (case currentTorrent e g of
        None \<Rightarrow> (False, e)
      | Some mt \<Rightarrow>
         if slot (policy mt) then (True, e)
         else
           (let available = (slotCountLocked e < maxActiveDownloads e
                             \<and> map_option generation (schedulerHeadLocked e) = Some g)
            in case applyStateEventLocked (requestEvent available) mt of
                 Inl _ \<Rightarrow> (False, e)
               | Inr (_, mt') \<Rightarrow> (True, putGen mt' e)))"

text \<open>Lines 142 to 162: start the preparation of a fresh slot.\<close>

definition prepareSlot :: "bool \<Rightarrow> nat \<Rightarrow> engine \<Rightarrow> (nat \<times> payloadPreparation \<times> 64 word) option \<times> engine" where
  "prepareSlot streaming g e =
     (case currentTorrent e g of
        None \<Rightarrow> (None, e)
      | Some mt \<Rightarrow>
         if slot (policy mt) \<and> payloadEligible (policy mt) \<and> \<not> downloadAllStarted mt \<and> preparation mt = None \<and> InfoKnown mt
         then
           (case AdmitBegin g (putGen (mt\<lparr>downloadAllStarted := True\<rparr>) e) of
              (Inl x, e') \<Rightarrow> (None, snd (withCurrent e' g (\<lambda>m. (None, releaseIfOwned streaming (slotToken mt) m))))
            | (Inr (_, tk), e') \<Rightarrow> (Some (g, tk, slotToken mt), e'))
         else (None, e))"

definition ManageFinish ::
    "callback \<Rightarrow> PieceStateRun list \<Rightarrow> bool \<Rightarrow> nat \<times> payloadPreparation \<Rightarrow> string option \<Rightarrow> engine
     \<Rightarrow> (nat \<times> payloadPreparation \<times> 64 word) option \<times> engine" where
  "ManageFinish save runs streaming tk probeErr e =
     (case tk of (g, t) \<Rightarrow>
        case currentTorrent e g of
          None \<Rightarrow> (None, e)
        | Some mt \<Rightarrow>
           (let valid = (policyEpoch mt = tk_epoch t \<and> runtimeFence mt = tk_fence t \<and> healthProbe mt = Some (tk_id t));
                mt = (if healthProbe mt = Some (tk_id t) then mt\<lparr>healthProbe := None\<rparr> else mt)
            in if \<not> valid then (None, putGen mt e)
               else case probeErr of
                 Some reason \<Rightarrow> (None, putGen (snd (blockDownload save reason mt)) e)
               | None \<Rightarrow>
                  (case grantSlot g (putGen (reconcileSelectionLocked runs streaming mt) e) of
                     (False, e') \<Rightarrow> (None, e')
                   | (True, e') \<Rightarrow> prepareSlot streaming g e')))"

text \<open>The end of a scheduler's preparation.\<close>

definition ManageAdmit ::
    "callback \<Rightarrow> callback \<Rightarrow> bool \<Rightarrow> nat \<times> payloadPreparation \<times> 64 word \<Rightarrow> string option \<Rightarrow> bool \<Rightarrow> engine
     \<Rightarrow> engineError option \<times> engine" where
  "ManageAdmit save safety streaming tk probeErr metadataOk e =
     (case tk of (g, t, token) \<Rightarrow> withCurrent e g (\<lambda>mt.
        case admitFinish save safety t probeErr metadataOk mt of
          (None, mt) \<Rightarrow> (None, mt)
        | (Some x, mt) \<Rightarrow> (Some x, releaseIfOwned streaming token mt)))"

section \<open>Registration, deletion and shutdown (\<open>engine.go\<close>)\<close>

text \<open>A library torrent handed to \<open>registerTorrent\<close>, with the persisted record when it is staged,
  the trimmed source and the current time.\<close>

record addRequest =
  rq_raw :: nat
  rq_infoHash :: string
  rq_hash :: string
  rq_lib :: libTorrent
  rq_source :: string
  rq_saved :: "savedTorrent option"
  rq_now :: int

definition owns :: "string \<Rightarrow> addRequest \<Rightarrow> ManagedTorrent \<Rightarrow> bool" where
  "owns h rq owner \<longleftrightarrow> hash owner = h \<or> raw owner = rq_raw rq \<or> infoHash owner = rq_infoHash rq"

definition registerEvent :: "savedTorrent option \<Rightarrow> stateEvent" where
  "registerEvent saved =
     (case saved of
        None \<Rightarrow> (event stateRegistered)\<lparr>ev_phase := StateQueued\<rparr>
      | Some s \<Rightarrow> (event stateRegistered)\<lparr>ev_phase := sv_state s, ev_err := sv_error s,
                   ev_diskReason := sv_block s, ev_staged := True\<rparr>)"

definition newManagedTorrent :: "nat \<Rightarrow> string \<Rightarrow> addRequest \<Rightarrow> ManagedTorrent" where
  "newManagedTorrent g h rq =
     \<lparr>hash = h, generation = g, raw = rq_raw rq, infoHash = rq_infoHash rq, lib = rq_lib rq,
      mt_state = OtherState '''', mt_err = '''', rechecking = False, verificationUncertain = False,
      mt_initializing = False, downloadBlock = '''', mt_selectionComplete = False, mt_terminal = False,
      policy = zeroPolicy, policyEpoch = 0, slotToken = 0, appliedIntentRevision = 0,
      downloadAllStarted = False,
      downloadBlockPersisted = (case rq_saved rq of None \<Rightarrow> False | Some s \<Rightarrow> sv_block s \<noteq> ''''),
      filePriorities = (case rq_saved rq of None \<Rightarrow> [] | Some s \<Rightarrow> fold (\<lambda>(i, p). AList.update i p) (sv_files s) []),
      queuePosition = (case rq_saved rq of None \<Rightarrow> 0 | Some s \<Rightarrow> sv_queue s),
      addedAt = rq_now rq, runtimeFence = emptyFence, observationSequence = 0, currentAttempt = None,
      recheckOperation = None, intentApplyFailure = None, safetyBlocks = [], expectedPayload = [],
      preparation = None, healthProbe = None, sourceURI = rq_source rq, mtCancelled = False\<rparr>"

text \<open>The result names the generation that is registering (\<open>True\<close>) or was found managed.\<close>

definition registerBegin :: "addRequest \<Rightarrow> engine \<Rightarrow> (engineError, nat \<times> bool) result \<times> engine" where
  "registerBegin rq e =
     (if ctxDone e then (Inl CtxErr, e)
      else if libClosed (rq_lib rq) then (Inl GenerationClosed, e)
      else
        (let h = rq_hash rq in
         if list_ex (owns h rq) (detaching e) then (Inl OperationConflict, e)
         else if list_ex (owns h rq) (registering e) then (Inl OperationConflict, e)
         else
           (let h = (case find (\<lambda>mt. raw mt = rq_raw rq) (managedTorrents e) of Some mt \<Rightarrow> hash mt | None \<Rightarrow> h) in
            case lookup e h of
              Some mt \<Rightarrow>
                (Inr (generation mt, False),
                 putGen (if sourceURI mt = '''' \<and> rq_source rq \<noteq> '''' then mt\<lparr>sourceURI := rq_source rq\<rparr> else mt) e)
            | None \<Rightarrow>
               (let g = nextGeneration e;
                    e = e\<lparr>nextGeneration := g + 1\<rparr>;
                    mt = newManagedTorrent g h rq
                in case applyStateEventLocked (registerEvent (rq_saved rq)) mt of
                     Inl x \<Rightarrow> (Inl (Rejected x), e\<lparr>detaching := mt # detaching e\<rparr>)
                   | Inr (_, mt) \<Rightarrow> (Inr (g, True), e\<lparr>registering := mt # registering e\<rparr>)))))"

text \<open>The metadata was saved without the lock; publish, or detach the unpublished generation.\<close>

definition registerFinish :: "nat \<Rightarrow> bool \<Rightarrow> engine \<Rightarrow> engineError option \<times> engine" where
  "registerFinish g persistOk e =
     (case find (\<lambda>mt. generation mt = g) (registering e) of
        None \<Rightarrow> (Some OperationConflict, e)
      | Some mt \<Rightarrow>
         (let e = e\<lparr>registering := filter (\<lambda>m. generation m \<noteq> g) (registering e)\<rparr> in
          if \<not> persistOk \<or> ctxDone e \<or> libClosed (lib mt)
          then (Some OperationConflict, e\<lparr>detaching := mt\<lparr>mtCancelled := True\<rparr> # detaching e\<rparr>)
          else (None, e\<lparr>managedTorrents := mt # managedTorrents e\<rparr>)))"

text \<open>The library torrent was dropped: the generation leaves the namespace.\<close>

definition detachFinish :: "nat \<Rightarrow> engine \<Rightarrow> engine" where
  "detachFinish g e = e\<lparr>detaching := filter (\<lambda>m. generation m \<noteq> g) (detaching e)\<rparr>"

definition stopGeneration :: "stateEventKind \<Rightarrow> ManagedTorrent \<Rightarrow> ManagedTorrent" where
  "stopGeneration k mt =
     (case applyStateEventLocked (event k) mt of
        Inl _ \<Rightarrow> mt
      | Inr (d, mt) \<Rightarrow> applyQuiesceLocked d mt)"

definition deleteBegin :: "string \<Rightarrow> engine \<Rightarrow> engineError option \<times> engine" where
  "deleteBegin h e =
     (if ctxDone e then (Some CtxErr, e)
      else if list_ex (\<lambda>mt. hash mt = h) (detaching e) then (Some OperationConflict, e)
      else if list_ex (\<lambda>mt. hash mt = h \<or> infoHash mt = h) (registering e) then (Some OperationConflict, e)
      else case lookup e h of
        None \<Rightarrow> (None, e)
      | Some mt \<Rightarrow>
         (None, e\<lparr>managedTorrents := filter (\<lambda>m. generation m \<noteq> generation mt) (managedTorrents e),
                 detaching := stopGeneration stateDeleted (mt\<lparr>mtCancelled := True\<rparr>) # detaching e\<rparr>))"

definition BeginShutdown :: "engine \<Rightarrow> engine" where
  "BeginShutdown e = e\<lparr>ctxDone := True\<rparr>"

definition closeTorrents :: "engine \<Rightarrow> engine" where
  "closeTorrents e = (BeginShutdown e)\<lparr>managedTorrents := map (stopGeneration stateClosed) (managedTorrents e)\<rparr>"

section \<open>Steps\<close>

text \<open>What the library does on its own: a chunk write fails, metadata arrives, the torrent is
  closed by a drop.\<close>

definition libraryStep :: "nat \<Rightarrow> (libTorrent \<Rightarrow> libTorrent) \<Rightarrow> engine \<Rightarrow> engine" where
  "libraryStep g f e = e\<lparr>
     managedTorrents := map (\<lambda>m. if generation m = g then onLib f m else m) (managedTorrents e),
     registering := map (\<lambda>m. if generation m = g then onLib f m else m) (registering e)\<rparr>"

definition gotInfo :: "libFile list \<Rightarrow> int \<Rightarrow> libTorrent \<Rightarrow> libTorrent" where
  "gotInfo fs len t = (if libFiles t = None then t\<lparr>libFiles := Some fs, pieceLength := len\<rparr> else t)"

text \<open>A library torrent as the add paths create it: no payload, and no upload when staged.\<close>

definition freshLib :: "addRequest \<Rightarrow> bool" where
  "freshLib rq \<longleftrightarrow> dataDownloadDisallowed (rq_lib rq) \<and> (rq_saved rq \<noteq> None \<longrightarrow> dataUploadDisallowed (rq_lib rq))"

inductive estep :: "engine \<Rightarrow> engine \<Rightarrow> bool" where
  pause: "estep e (snd (Pause h e))"
| reconcilePaused: "estep e (snd (ReconcilePausedIntent saved e))"
| stage: "estep e (snd (stageExistingRestore saved e))"
| setPriority: "estep e (snd (setFilePriority safety h i p e))"
| setAll: "estep e (snd (setTorrentFilesPriority safety h p e))"
| setSelection: "estep e (snd (setFilePriorities safety h ps e))"
| queuePos: "estep e (SetQueuePosition h position e)"
| bindFence: "estep e (snd (BindRuntime save saveBlocks expected fence applied e))"
| failIntent: "estep e (snd (failIntentApply expected v code e))"
| observe: "estep e (snd (captureObservation h g e))"
| restoreBlock: "estep e (snd (restoreVerificationBlock h e))"
| recheck: "estep e (snd (StartRecheck save save' active admitted h e))"
| recheckTask: "estep e (startVerificationTask save g attempt e)"
| recheckDone: "estep e (snd (finishVerification save g attempt err e))"
| verifyInactive: "estep e (snd (VerifyInactive save save' h e))"
| resume1: "estep e (snd (ResumeBegin h e))"
| resume2: "estep e (snd (ResumeFinish save safety rtk probeErr e))"
| restore2: "ev_kind (fst (snd ftk)) = stateActivated \<Longrightarrow> estep e (snd (FinishRestoreActivate safety metadataOk mergeOk ftk e))"
| restoreProbe: "estep e (snd (FinishRestoreProbe safety metadataOk ftk e))"
| restore3: "ev_kind (fst (snd mtk)) = stateActivated \<Longrightarrow> estep e (snd (FinishRestoreManual save safety probeErr mergeOk mtk e))"
| admit1: "estep e (snd (AdmitBegin g e))"
| admit2: "estep e (snd (AdmitFinish save safety atk probeErr metadataOk e))"
| checkAdmission: "estep e (snd (CheckPayloadAdmission h e))"
| writeError: "estep e (PayloadWriteError save g err e)"
| basePrio: "estep e (restoreBasePriorities save h e)"
| discovery: "estep e (RefreshPeerDiscovery safety downloadAll g e)"
| remember: "estep e (RememberExpectedPayload g i ready e)"
| missing: "estep e (snd (DetectMissingFinish safety dtk absent e))"
| probe1: "estep e (snd (ManageProbe g e))"
| probe2: "estep e (snd (ManageFinish save runs streaming atk probeErr e))"
| scheduled: "estep e (snd (ManageAdmit save safety streaming stk probeErr metadataOk e))"
| register1: "freshLib rq \<Longrightarrow> estep e (snd (registerBegin rq e))"
| register2: "estep e (snd (registerFinish g persistOk e))"
| delete1: "estep e (snd (deleteBegin h e))"
| detach2: "estep e (detachFinish g e)"
| shutdown: "estep e (BeginShutdown e)"
| closeAll: "estep e (closeTorrents e)"
| chunkError: "estep e (libraryStep g (onWriteChunkErr werr) e)"
| metadata: "estep e (libraryStep g (gotInfo fs len) e)"
| dropped: "estep e (libraryStep g (\<lambda>t. t\<lparr>libClosed := True\<rparr>) e)"

text \<open>The engines reached from a new one.\<close>

inductive reachable :: "int \<Rightarrow> bool \<Rightarrow> engine \<Rightarrow> bool" for maxActive noUpload where
  start: "reachable maxActive noUpload (newEngine maxActive noUpload)"
| step: "reachable maxActive noUpload e \<Longrightarrow> estep e e' \<Longrightarrow> reachable maxActive noUpload e'"

section \<open>Concrete runs\<close>

text \<open>A torrent that is added, gets the slot and is admitted; and one that is restored with a
  verification fault and resumed.\<close>

definition exLib :: libTorrent where
  "exLib = \<lparr>dataDownloadDisallowed = True, dataUploadDisallowed = False, lastWriteChunkErr = None,
     lastWriteChunkErrVersion = 0, libClosed = False,
     libFiles = Some [\<lparr>f_offset = 0, f_length = 5, f_priority = PiecePriorityNone\<rparr>],
     pieceLength = 10, verificationSelection = [], networkingEnabled = True\<rparr>"

definition exRequest :: addRequest where
  "exRequest = \<lparr>rq_raw = 7, rq_infoHash = ''aa'', rq_hash = ''aa'', rq_lib = exLib, rq_source = '''',
     rq_saved = None, rq_now = 1\<rparr>"

definition exRegistered :: engine where
  "exRegistered = snd (registerFinish 0 True (snd (registerBegin exRequest (newEngine 1 False))))"

definition exProbed :: engine where
  "exProbed = snd (ManageProbe 0 exRegistered)"

definition exPrepared :: engine where
  "exPrepared = snd (ManageFinish Unset [] False (the (fst (ManageProbe 0 exRegistered))) None exProbed)"

definition exOpen :: engine where
  "exOpen = snd (ManageAdmit Unset Unset False
     (the (fst (ManageFinish Unset [] False (the (fst (ManageProbe 0 exRegistered))) None exProbed))) None True exPrepared)"


definition exSaved :: savedTorrent where
  "exSaved = \<lparr>sv_hash = ''aa'', sv_state = StateError, sv_error = ErrVerificationFailed, sv_block = '''',
     sv_queue = 0, sv_files = []\<rparr>"

definition exFaulty :: engine where
  "exFaulty = snd (registerFinish 0 True (snd (registerBegin
     (exRequest\<lparr>rq_saved := Some exSaved, rq_lib := exLib\<lparr>dataUploadDisallowed := True\<rparr>\<rparr>) (newEngine 1 False))))"

definition exRestored :: engine where
  "exRestored = (case FinishRestoreBegin ''aa'' StateError exFaulty of
     Inr tk \<Rightarrow> snd (FinishRestoreActivate Unset True True tk exFaulty) | Inl _ \<Rightarrow> exFaulty)"

definition exResumed :: engine where
  "exResumed = (case ResumeBegin ''aa'' exRestored of
     (Inr tk, e) \<Rightarrow> snd (ResumeFinish Unset Unset tk None e) | (Inl _, e) \<Rightarrow> e)"

end
