(* ===== verification/GoPath.thy ===== *)
theory GoPath
  imports Prelude "HOL-Library.Sublist"
begin

text \<open>
  The part of the Go packages \<open>strings\<close>, \<open>encoding/hex\<close> and \<open>path/filepath\<close> (Unix) the program
  uses. A Go string is its list of bytes, held as characters. \<open>Clean\<close> is stated over the
  \<open>/\<close>-separated components, which is how its documentation describes it. The lemmas
  characterise the cleaned local paths by their component lists: every component is non-empty and
  neither \<open>.\<close> nor \<open>..\<close>, and prefix tests on such paths are prefix tests on components.
\<close>

section \<open>Strings\<close>

abbreviation HasPrefix :: "string \<Rightarrow> string \<Rightarrow> bool" where
  "HasPrefix s p \<equiv> prefix p s"

fun splitOn :: "char \<Rightarrow> string \<Rightarrow> string list" where
  "splitOn c [] = [[]]"
| "splitOn c (x # xs) =
     (if x = c then [] # splitOn c xs
      else case splitOn c xs of [] \<Rightarrow> [[x]] | p # ps \<Rightarrow> (x # p) # ps)"

fun joinWith :: "char \<Rightarrow> string list \<Rightarrow> string" where
  "joinWith c [] = []"
| "joinWith c [p] = p"
| "joinWith c (p # ps) = p @ c # joinWith c ps"

definition CutPrefix :: "string \<Rightarrow> string \<Rightarrow> string option" where
  "CutPrefix s p = (if HasPrefix s p then Some (drop (length p) s) else None)"

text \<open>\<open>strings.ToLower\<close> maps the bytes of an ASCII string one by one; other strings go through
  the Unicode tables, which are the argument \<open>table\<close>.\<close>

definition asciiLower :: "char \<Rightarrow> char" where
  "asciiLower c = (let n = of_char c :: nat in if 65 \<le> n \<and> n \<le> 90 then char_of (n + 32) else c)"

definition asciiUpper :: "char \<Rightarrow> char" where
  "asciiUpper c = (let n = of_char c :: nat in if 97 \<le> n \<and> n \<le> 122 then char_of (n - 32) else c)"

definition isASCII :: "string \<Rightarrow> bool" where
  "isASCII s = list_all (\<lambda>c. (of_char c :: nat) < 128) s"

definition ToLower :: "(string \<Rightarrow> string) \<Rightarrow> string \<Rightarrow> string" where
  "ToLower table s = (if isASCII s then map asciiLower s else table s)"

definition ToUpper :: "(string \<Rightarrow> string) \<Rightarrow> string \<Rightarrow> string" where
  "ToUpper table s = (if isASCII s then map asciiUpper s else table s)"

text \<open>\<open>hex.DecodeString\<close> succeeds on an even number of hexadecimal digits.\<close>

definition isHexDigit :: "char \<Rightarrow> bool" where
  "isHexDigit c = (let n = of_char c :: nat in
     (48 \<le> n \<and> n \<le> 57) \<or> (97 \<le> n \<and> n \<le> 102) \<or> (65 \<le> n \<and> n \<le> 70))"

definition hexDecodes :: "string \<Rightarrow> bool" where
  "hexDecodes s = (even (length s) \<and> list_all isHexDigit s)"

section \<open>Paths\<close>

abbreviation dot :: string where "dot \<equiv> ''.''"
abbreviation dotdot :: string where "dotdot \<equiv> ''..''"
abbreviation sep :: char where "sep \<equiv> CHR ''/''"

definition IsAbs :: "string \<Rightarrow> bool" where
  "IsAbs p = HasPrefix p ''/''"

fun cleanStep :: "bool \<Rightarrow> string \<Rightarrow> string list \<Rightarrow> string list" where
  "cleanStep rooted c st =
     (if c = [] \<or> c = dot then st
      else if c = dotdot then
        (case st of
           [] \<Rightarrow> if rooted then [] else [dotdot]
         | d # ds \<Rightarrow> if d = dotdot then dotdot # st else ds)
      else c # st)"

definition cleanComps :: "string \<Rightarrow> string list" where
  "cleanComps p = rev (fold (cleanStep (IsAbs p)) (splitOn sep p) [])"

definition Clean :: "string \<Rightarrow> string" where
  "Clean p =
     (if IsAbs p then sep # joinWith sep (cleanComps p)
      else if cleanComps p = [] then dot else joinWith sep (cleanComps p))"

definition IsLocal :: "string \<Rightarrow> bool" where
  "IsLocal p =
     (if IsAbs p \<or> p = [] then False
      else let q = (if list_ex (\<lambda>c. c = dot \<or> c = dotdot) (splitOn sep p) then Clean p else p)
           in q \<noteq> dotdot \<and> \<not> HasPrefix q ''../'')"

definition Join :: "string list \<Rightarrow> string" where
  "Join es = (case dropWhile (\<lambda>e. e = []) es of [] \<Rightarrow> [] | es' \<Rightarrow> Clean (joinWith sep es'))"

text \<open>\<open>Dir\<close> drops everything after the last slash and cleans the rest; \<open>Base\<close> is the last element
  after trailing slashes are removed.\<close>

definition Dir :: "string \<Rightarrow> string" where
  "Dir p = Clean (rev (dropWhile (\<lambda>c. c \<noteq> sep) (rev p)))"

definition Base :: "string \<Rightarrow> string" where
  "Base p =
     (if p = [] then dot
      else let q = rev (dropWhile (\<lambda>c. c = sep) (rev p)) in
        if q = [] then ''/'' else rev (takeWhile (\<lambda>c. c \<noteq> sep) (rev q)))"

text \<open>A component of a cleaned local path.\<close>

definition properComp :: "string \<Rightarrow> bool" where
  "properComp c \<longleftrightarrow> c \<noteq> [] \<and> c \<noteq> dot \<and> c \<noteq> dotdot \<and> sep \<notin> set c"

definition properComps :: "string list \<Rightarrow> bool" where
  "properComps cs \<longleftrightarrow> cs \<noteq> [] \<and> list_all properComp cs"

section \<open>Splitting and joining\<close>

lemma splitOn_not_Nil [simp]: "splitOn c s \<noteq> []"
  by (induction s) (simp_all split: list.split)

lemma splitOn_no_sep: "p \<in> set (splitOn c s) \<Longrightarrow> c \<notin> set p"
  by (induction s arbitrary: p) (auto split: list.splits if_splits)

lemma splitOn_single: "c \<notin> set s \<Longrightarrow> splitOn c s = [s]"
  by (induction s) auto

lemma splitOn_append_sep: "c \<notin> set p \<Longrightarrow> splitOn c (p @ c # s) = p # splitOn c s"
  by (induction p) auto

lemma splitOn_append: "splitOn c (s @ c # t) = splitOn c s @ splitOn c t"
proof (induction s)
  case (Cons x s)
  then show ?case by (cases "splitOn c s") auto
qed simp

lemma joinWith_splitOn [simp]: "joinWith c (splitOn c s) = s"
proof (induction s)
  case (Cons x s)
  then show ?case by (cases "splitOn c s"; cases "tl (splitOn c s)") auto
qed simp

lemma joinWith_Cons: "ps \<noteq> [] \<Longrightarrow> joinWith c (p # ps) = p @ c # joinWith c ps"
  by (cases ps) auto

lemma splitOn_joinWith:
  "ps \<noteq> [] \<Longrightarrow> list_all (\<lambda>p. c \<notin> set p) ps \<Longrightarrow> splitOn c (joinWith c ps) = ps"
  by (induction c ps rule: joinWith.induct) (auto simp: splitOn_single splitOn_append_sep)

lemma joinWith_append:
  "ps \<noteq> [] \<Longrightarrow> qs \<noteq> [] \<Longrightarrow> joinWith c (ps @ qs) = joinWith c ps @ c # joinWith c qs"
  by (induction c ps rule: joinWith.induct) (auto simp: joinWith_Cons)

lemma properComps_no_sep: "properComps cs \<Longrightarrow> list_all (\<lambda>p. sep \<notin> set p) cs"
  by (auto simp: properComps_def properComp_def list_all_iff)

lemma splitOn_join_proper [simp]: "properComps cs \<Longrightarrow> splitOn sep (joinWith sep cs) = cs"
  by (metis splitOn_joinWith properComps_no_sep properComps_def)

lemma join_proper_inj:
  "properComps a \<Longrightarrow> properComps b \<Longrightarrow> joinWith sep a = joinWith sep b \<longleftrightarrow> a = b"
  by (metis splitOn_join_proper)

lemma properComps_append:
  "properComps a \<Longrightarrow> properComps b \<Longrightarrow> properComps (a @ b)"
  by (simp add: properComps_def)

section \<open>Cleaned local paths\<close>

lemma fold_clean_proper:
  "list_all properComp cs \<Longrightarrow> fold (cleanStep r) cs st = rev cs @ st"
  by (induction cs arbitrary: st) (auto simp: properComp_def)

lemma join_proper_head:
  assumes "properComps cs"
  shows "\<not> IsAbs (joinWith sep cs)" "joinWith sep cs \<noteq> []"
proof -
  obtain c cs' where cs: "cs = c # cs'" and c: "properComp c"
    using assms by (cases cs) (auto simp: properComps_def)
  obtain x xs where x: "c = x # xs" "x \<noteq> sep"
    using c by (cases c) (auto simp: properComp_def)
  show "\<not> IsAbs (joinWith sep cs)" "joinWith sep cs \<noteq> []"
    using x by (cases cs'; simp add: cs IsAbs_def)+
qed

lemma cleanComps_join [simp]: "properComps cs \<Longrightarrow> cleanComps (joinWith sep cs) = cs"
  by (simp add: cleanComps_def fold_clean_proper properComps_def)

lemma Clean_join [simp]: "properComps cs \<Longrightarrow> Clean (joinWith sep cs) = joinWith sep cs"
  by (simp add: Clean_def join_proper_head) (simp add: properComps_def)

text \<open>The stack of a relative clean is proper components over leading \<open>..\<close> entries.\<close>

definition cleanStack :: "string list \<Rightarrow> bool" where
  "cleanStack st \<longleftrightarrow> (\<exists>ps k. st = ps @ replicate k dotdot \<and> list_all properComp ps)"

lemma cleanStack_Nil: "cleanStack []"
  by (simp add: cleanStack_def)

lemma cleanStack_step:
  assumes "cleanStack st" "sep \<notin> set c"
  shows "cleanStack (cleanStep False c st)"
proof -
  obtain ps k where st: "st = ps @ replicate k dotdot" and ps: "list_all properComp ps"
    using assms(1) by (auto simp: cleanStack_def)
  consider "c = [] \<or> c = dot" | "c = dotdot" | "properComp c"
    using assms(2) by (auto simp: properComp_def)
  then show ?thesis
  proof cases
    case 1
    then show ?thesis using assms(1) by auto
  next
    case 2
    show ?thesis
    proof (cases ps)
      case Nil
      then have "cleanStep False c st = [] @ replicate (Suc k) dotdot"
        using 2 by (cases k) (simp_all add: st)
      then show ?thesis unfolding cleanStack_def by (intro exI [of _ "[]"] exI [of _ "Suc k"]) simp
    next
      case (Cons d ds)
      then have "cleanStep False c st = ds @ replicate k dotdot"
        using 2 ps by (simp add: st properComp_def)
      then show ?thesis using ps Cons unfolding cleanStack_def by auto
    qed
  next
    case 3
    then have "cleanStep False c st = (c # ps) @ replicate k dotdot"
      by (auto simp: st properComp_def)
    then show ?thesis using 3 ps unfolding cleanStack_def
      by (intro exI [of _ "c # ps"] exI [of _ k]) simp
  qed
qed

lemma cleanStack_fold:
  "cleanStack st \<Longrightarrow> \<forall>c \<in> set cs. sep \<notin> set c \<Longrightarrow> cleanStack (fold (cleanStep False) cs st)"
  by (induction cs arbitrary: st) (auto intro: cleanStack_step simp del: cleanStep.simps)

lemma cleanComps_relative:
  assumes "\<not> IsAbs p"
  shows "\<exists>k ps. cleanComps p = replicate k dotdot @ ps \<and> list_all properComp ps"
proof -
  have "cleanStack (fold (cleanStep (IsAbs p)) (splitOn sep p) [])"
    using cleanStack_fold [OF cleanStack_Nil] splitOn_no_sep assms by (metis (full_types))
  then obtain ps k where "fold (cleanStep (IsAbs p)) (splitOn sep p) [] = ps @ replicate k dotdot"
    "list_all properComp ps" by (auto simp: cleanStack_def)
  then show ?thesis unfolding cleanComps_def
    by (intro exI [of _ k] exI [of _ "rev ps"]) simp
qed

lemma cleanStep_no_dots:
  "c \<noteq> dot \<Longrightarrow> c \<noteq> dotdot \<Longrightarrow> cleanStep r c st = (if c = [] then st else c # st)"
  by simp

lemma fold_clean_no_dots:
  "\<forall>c \<in> set cs. c \<noteq> dot \<and> c \<noteq> dotdot \<Longrightarrow> dotdot \<notin> set st \<Longrightarrow>
     dotdot \<notin> set (fold (cleanStep r) cs st)"
proof (induction cs arbitrary: st)
  case (Cons c cs)
  have "cleanStep r c st = (if c = [] then st else c # st)"
    using Cons.prems(1) by (intro cleanStep_no_dots) simp_all
  moreover have "dotdot \<notin> set (c # st)" using Cons.prems by (metis list.set_intros(1) set_ConsD)
  ultimately have "dotdot \<notin> set (cleanStep r c st)" using Cons.prems(2) by presburger
  then show ?case using Cons.IH Cons.prems(1) by (simp del: cleanStep.simps)
qed simp

lemma join_dotdot_prefix:
  "joinWith sep (dotdot # cs) = dotdot \<or> HasPrefix (joinWith sep (dotdot # cs)) ''../''"
  by (cases cs) auto

text \<open>A valid local path other than the directory itself cleans to proper components.\<close>

lemma local_proper:
  assumes "IsLocal p" "Clean p \<noteq> dot"
  shows "properComps (cleanComps p)" "Clean p = joinWith sep (cleanComps p)"
proof -
  have rel: "\<not> IsAbs p" "p \<noteq> []" using assms(1) by (auto simp: IsLocal_def split: if_splits)
  have ne: "cleanComps p \<noteq> []" using assms(2) rel by (auto simp: Clean_def)
  then show eq: "Clean p = joinWith sep (cleanComps p)" using rel by (simp add: Clean_def)
  obtain k ps where k: "cleanComps p = replicate k dotdot @ ps" and ps: "list_all properComp ps"
    using cleanComps_relative [OF rel(1)] by blast
  have "k = 0"
  proof (rule ccontr)
    assume "k \<noteq> 0"
    then obtain rest where rest: "cleanComps p = dotdot # rest" using k by (cases k) auto
    show False
    proof (cases "list_ex (\<lambda>c. c = dot \<or> c = dotdot) (splitOn sep p)")
      case True
      then show False
        using assms(1) rel join_dotdot_prefix [of rest] unfolding IsLocal_def
        by (auto simp: eq rest Let_def simp del: joinWith.simps)
    next
      case False
      then have "dotdot \<notin> set (cleanComps p)"
        unfolding cleanComps_def using fold_clean_no_dots by (simp add: list_ex_iff)
      then show False using rest by simp
    qed
  qed
  then show "properComps (cleanComps p)" using ne k ps by (simp add: properComps_def)
qed

lemma local_join:
  assumes "properComps cs"
  shows "IsLocal (joinWith sep cs)" "joinWith sep cs \<noteq> dot"
proof -
  have nodots: "\<not> list_ex (\<lambda>c. c = dot \<or> c = dotdot) cs"
    using assms by (auto simp: properComps_def properComp_def list_ex_iff list_all_iff)
  have hd: "splitOn sep (joinWith sep cs) = cs" using assms by simp
  have one: "joinWith sep cs = x \<Longrightarrow> sep \<notin> set x \<Longrightarrow> cs = [x]" for x
    using hd splitOn_single by metis
  have "joinWith sep cs \<noteq> dot" "joinWith sep cs \<noteq> dotdot"
    using one [of dot] one [of dotdot] nodots by auto
  moreover have "\<not> HasPrefix (joinWith sep cs) ''../''"
  proof
    assume "HasPrefix (joinWith sep cs) ''../''"
    then obtain t where "joinWith sep cs = dotdot @ sep # t" by (auto elim!: prefixE)
    then have "cs = dotdot # splitOn sep t" using hd splitOn_append_sep [of sep dotdot t] by simp
    then show False using nodots by simp
  qed
  ultimately show "IsLocal (joinWith sep cs)" "joinWith sep cs \<noteq> dot"
    using nodots by (simp_all add: IsLocal_def join_proper_head [OF assms] hd assms)
qed

lemma prefix_join_iff:
  assumes "properComps a" "properComps b"
  shows "HasPrefix (joinWith sep a) (joinWith sep b @ [sep]) \<longleftrightarrow> strict_prefix b a"
proof
  assume "HasPrefix (joinWith sep a) (joinWith sep b @ [sep])"
  then obtain t where "joinWith sep a = joinWith sep b @ sep # t" by (auto elim!: prefixE)
  then have "a = b @ splitOn sep t"
    using assms by (metis splitOn_append splitOn_join_proper)
  then show "strict_prefix b a" by (simp add: strict_prefix_def)
next
  assume "strict_prefix b a"
  then obtain c where "a = b @ c" "c \<noteq> []" by (auto simp: strict_prefix_def prefix_def)
  then show "HasPrefix (joinWith sep a) (joinWith sep b @ [sep])"
    using assms(2) by (simp add: joinWith_append properComps_def)
qed

end
