(* ===== verification/StreamPlan.thy ===== *)
theory StreamPlan
  imports GoPath "HOL-Library.Product_Lexorder"
begin

text \<open>
  The piece ranges a stream asks for (the pure part of \<open>engine/stream.go\<close>): the head of the file,
  the tail of containers that keep their index there, and a sliding window from the playhead, as
  piece ranges that are sorted and merged. The lemmas show that merging keeps exactly the pieces of
  its arguments and leaves sorted, separated, non-empty ranges, and that a plan stays inside the
  file and covers the whole window.
\<close>

section \<open>Ranges\<close>

record streamPieceRange =
  Begin :: int
  End :: int

definition inRange :: "int \<Rightarrow> streamPieceRange \<Rightarrow> bool" where
  "inRange piece r \<longleftrightarrow> piece \<ge> Begin r \<and> piece < End r"

definition streamRangesContainPiece :: "streamPieceRange list \<Rightarrow> int \<Rightarrow> bool" where
  "streamRangesContainPiece ranges piece = list_ex (inRange piece) ranges"

text \<open>The comparator of \<open>sort.Slice\<close> is the strict lexicographic order on (Begin, End), so the
  sorted slice is determined.\<close>

definition sortRanges :: "streamPieceRange list \<Rightarrow> streamPieceRange list" where
  "sortRanges = sort_key (\<lambda>r. (Begin r, End r))"

text \<open>The merge loop, with the last merged range.\<close>

fun mergeFrom :: "streamPieceRange \<Rightarrow> streamPieceRange list \<Rightarrow> streamPieceRange list" where
  "mergeFrom l [] = [l]"
| "mergeFrom l (r # rs) =
     (if Begin r \<le> End l
      then mergeFrom (if End r > End l then l\<lparr>End := End r\<rparr> else l) rs
      else l # mergeFrom r rs)"

definition mergeStreamPieceRanges :: "streamPieceRange list \<Rightarrow> streamPieceRange list" where
  "mergeStreamPieceRanges ranges =
     (case sortRanges (filter (\<lambda>r. Begin r < End r) ranges) of
        [] \<Rightarrow> []
      | r # rs \<Rightarrow> mergeFrom r rs)"

section \<open>The plan\<close>

record StreamOptions =
  RangeStart :: int
  RangeEnd :: int
  HasRange :: bool
  IsHEAD :: bool
  SkipQoS :: bool
  WindowBytes :: int
  AccountingOnly :: bool

record streamFileBounds =
  Offset :: int
  FileLength :: int
  BeginPiece :: int
  EndPiece :: int
  DisplayPath :: string

definition minPositiveInt64 :: "int \<Rightarrow> int \<Rightarrow> int" where
  "minPositiveInt64 a b = (if a \<le> 0 then b else if b \<le> 0 then a else if a < b then a else b)"

text \<open>\<open>filepath.Ext\<close>: from the last dot of the last path element.\<close>

fun extScan :: "string \<Rightarrow> string \<Rightarrow> string" where
  "extScan acc [] = ''''"
| "extScan acc (c # cs) =
     (if c = CHR ''/'' then '''' else if c = CHR ''.'' then c # acc else extScan (c # acc) cs)"

definition Ext :: "string \<Rightarrow> string" where
  "Ext path = extScan [] (rev path)"

definition streamFileHasTailMetadata :: "(string \<Rightarrow> string) \<Rightarrow> string \<Rightarrow> bool" where
  "streamFileHasTailMetadata table path \<longleftrightarrow> ToLower table (Ext path) \<in> set [''.mp4'', ''.mov'', ''.m4v'']"

definition streamByteRegionPieces :: "streamFileBounds \<Rightarrow> int \<Rightarrow> int \<Rightarrow> int \<Rightarrow> streamPieceRange option" where
  "streamByteRegionPieces bounds pieceLen relOffset sz =
     (let sz = (if relOffset < 0 then wrap64 (sz + relOffset) else sz);
          relOffset = (if relOffset < 0 then 0 else relOffset)
      in if sz \<le> 0 \<or> relOffset \<ge> FileLength bounds then None
         else
           (let sz = (if wrap64 (relOffset + sz) > FileLength bounds then FileLength bounds - relOffset else sz);
                absStart = wrap64 (Offset bounds + relOffset);
                absEnd = wrap64 (absStart + sz);
                begin = max (absStart sdiv pieceLen) (BeginPiece bounds);
                end = min (wrap64 (absEnd + pieceLen - 1) sdiv pieceLen) (EndPiece bounds)
            in if begin \<ge> end then None else Some \<lparr>Begin = begin, End = end\<rparr>))"

definition defaultStreamHeadPrebuffer :: int where "defaultStreamHeadPrebuffer = 20 * 2 ^ 20"
definition defaultStreamTailPieces :: int where "defaultStreamTailPieces = 4"
definition defaultStreamBehindPieces :: int where "defaultStreamBehindPieces = 2"
definition defaultStreamSlidingWindow :: int where "defaultStreamSlidingWindow = 20 * 2 ^ 20"

definition windowOf :: "int \<Rightarrow> StreamOptions \<Rightarrow> int" where
  "windowOf cacheSize opts =
     (let w = (if WindowBytes opts \<le> 0 then cacheSize else WindowBytes opts)
      in if w \<le> 0 then defaultStreamSlidingWindow else w)"

definition headOfPlan :: "streamFileBounds \<Rightarrow> StreamOptions \<Rightarrow> int" where
  "headOfPlan bounds opts =
     (if WindowBytes opts > 0 then minPositiveInt64 (WindowBytes opts) (FileLength bounds)
      else minPositiveInt64 defaultStreamHeadPrebuffer (FileLength bounds))"

definition playheadOf :: "StreamOptions \<Rightarrow> int" where
  "playheadOf opts = (if RangeStart opts < 0 then 0 else RangeStart opts)"

definition tailRange :: "(string \<Rightarrow> string) \<Rightarrow> streamFileBounds \<Rightarrow> streamPieceRange list" where
  "tailRange table bounds =
     (if streamFileHasTailMetadata table (DisplayPath bounds)
      then [\<lparr>Begin = max (EndPiece bounds - defaultStreamTailPieces) (BeginPiece bounds), End = EndPiece bounds\<rparr>]
      else [])"

definition windowRange :: "streamFileBounds \<Rightarrow> int \<Rightarrow> int \<Rightarrow> StreamOptions \<Rightarrow> streamPieceRange list" where
  "windowRange bounds pieceLen cacheSize opts =
     (let w = min (windowOf cacheSize opts) (FileLength bounds - playheadOf opts) in
      case streamByteRegionPieces bounds pieceLen (playheadOf opts) w of
        None \<Rightarrow> []
      | Some r \<Rightarrow> [r\<lparr>Begin := max (Begin r - defaultStreamBehindPieces) (BeginPiece bounds)\<rparr>])"

definition computeStreamPieceRangesForBounds ::
    "(string \<Rightarrow> string) \<Rightarrow> streamFileBounds \<Rightarrow> int \<Rightarrow> int \<Rightarrow> StreamOptions \<Rightarrow> streamPieceRange list" where
  "computeStreamPieceRangesForBounds table bounds pieceLen cacheSize opts =
     (if FileLength bounds \<le> 0 \<or> pieceLen \<le> 0 \<or> BeginPiece bounds \<ge> EndPiece bounds then []
      else
        (let ranges = (case streamByteRegionPieces bounds pieceLen 0 (headOfPlan bounds opts) of
                         None \<Rightarrow> [] | Some r \<Rightarrow> [r]) @ tailRange table bounds
         in if playheadOf opts \<ge> FileLength bounds then mergeStreamPieceRanges ranges
            else mergeStreamPieceRanges (ranges @ windowRange bounds pieceLen cacheSize opts)))"

text \<open>A file as the library describes it: the pieces from the one with the first byte to the one
  with the last, and offsets that fit in 63 bits.\<close>

definition fileBounds :: "streamFileBounds \<Rightarrow> int \<Rightarrow> bool" where
  "fileBounds bounds pieceLen \<longleftrightarrow>
     0 \<le> Offset bounds \<and> 0 < FileLength bounds \<and> 0 < pieceLen
     \<and> Offset bounds + FileLength bounds + pieceLen \<le> MaxInt64
     \<and> BeginPiece bounds = Offset bounds div pieceLen
     \<and> EndPiece bounds = (Offset bounds + FileLength bounds + pieceLen - 1) div pieceLen"

definition exBounds :: streamFileBounds where
  "exBounds = \<lparr>Offset = 25, FileLength = 100, BeginPiece = 2, EndPiece = 13, DisplayPath = ''a/film.MP4''\<rparr>"

definition exOptions :: StreamOptions where
  "exOptions = \<lparr>RangeStart = 60, RangeEnd = 0, HasRange = True, IsHEAD = False, SkipQoS = False,
     WindowBytes = 15, AccountingOnly = False\<rparr>"

section \<open>Merging\<close>

definition separated :: "streamPieceRange list \<Rightarrow> bool" where
  "separated rs \<longleftrightarrow> sorted_wrt (\<lambda>a b. End a < Begin b) rs \<and> list_all (\<lambda>r. Begin r < End r) rs"

lemma contains_Cons [simp]:
  "streamRangesContainPiece (r # rs) p \<longleftrightarrow> inRange p r \<or> streamRangesContainPiece rs p"
  "\<not> streamRangesContainPiece [] p"
  by (simp_all add: streamRangesContainPiece_def)

lemma contains_append [simp]:
  "streamRangesContainPiece (rs @ ss) p \<longleftrightarrow> streamRangesContainPiece rs p \<or> streamRangesContainPiece ss p"
  by (simp add: streamRangesContainPiece_def)

lemma contains_iff: "streamRangesContainPiece rs p \<longleftrightarrow> (\<exists>r\<in>set rs. inRange p r)"
  by (simp add: streamRangesContainPiece_def list_ex_iff)

lemma mergeFrom_contains:
  assumes "Begin l < End l" "\<forall>r\<in>set rs. Begin l \<le> Begin r \<and> Begin r < End r" "sorted (map Begin rs)"
  shows "streamRangesContainPiece (mergeFrom l rs) p \<longleftrightarrow> inRange p l \<or> streamRangesContainPiece rs p"
  using assms
proof (induction rs arbitrary: l)
  case (Cons r rs)
  show ?case
  proof (cases "Begin r \<le> End l")
    case True
    let ?l = "if End r > End l then l\<lparr>End := End r\<rparr> else l"
    have "streamRangesContainPiece (mergeFrom ?l rs) p \<longleftrightarrow> inRange p ?l \<or> streamRangesContainPiece rs p"
      by (rule Cons.IH) (use Cons.prems in auto)
    moreover have "inRange p ?l \<longleftrightarrow> inRange p l \<or> inRange p r"
      using True Cons.prems by (auto simp: inRange_def)
    ultimately show ?thesis using True by simp
  next
    case False
    have "streamRangesContainPiece (mergeFrom r rs) p \<longleftrightarrow> inRange p r \<or> streamRangesContainPiece rs p"
      by (rule Cons.IH) (use Cons.prems in auto)
    then show ?thesis using False by simp
  qed
qed simp

text \<open>The first range keeps its start, every later one starts beyond the previous end.\<close>

lemma mergeFrom_separated:
  assumes "Begin l < End l" "\<forall>r\<in>set rs. Begin l \<le> Begin r \<and> Begin r < End r" "sorted (map Begin rs)"
  shows "separated (mergeFrom l rs) \<and> (\<forall>r\<in>set (mergeFrom l rs). Begin l \<le> Begin r)"
  using assms
proof (induction rs arbitrary: l)
  case Nil
  then show ?case by (simp add: separated_def)
next
  case (Cons r rs)
  show ?case
  proof (cases "Begin r \<le> End l")
    case True
    let ?l = "if End r > End l then l\<lparr>End := End r\<rparr> else l"
    have "separated (mergeFrom ?l rs) \<and> (\<forall>r\<in>set (mergeFrom ?l rs). Begin ?l \<le> Begin r)"
      by (rule Cons.IH) (use Cons.prems in auto)
    then show ?thesis using True by (simp split: if_splits)
  next
    case False
    have "separated (mergeFrom r rs) \<and> (\<forall>x\<in>set (mergeFrom r rs). Begin r \<le> Begin x)"
      by (rule Cons.IH) (use Cons.prems in auto)
    then show ?thesis using False Cons.prems by (force simp: separated_def)
  qed
qed

lemma sortRanges_set [simp]: "set (sortRanges rs) = set rs"
  by (simp add: sortRanges_def)

lemma sortRanges_sorted: "sorted (map Begin (sortRanges rs))"
proof -
  have "sorted (map (\<lambda>r. (Begin r, End r)) (sortRanges rs))" by (simp add: sortRanges_def)
  then have "sorted_wrt (\<lambda>a b. (Begin a, End a) \<le> (Begin b, End b)) (sortRanges rs)"
    by (simp add: sorted_map)
  then have "sorted_wrt (\<lambda>a b. Begin a \<le> Begin b) (sortRanges rs)"
    by (rule sorted_wrt_mono_rel[rotated]) auto
  then show ?thesis by (simp add: sorted_map)
qed

lemma merge_spec:
  "streamRangesContainPiece (mergeStreamPieceRanges ranges) p \<longleftrightarrow> streamRangesContainPiece ranges p"
  "separated (mergeStreamPieceRanges ranges)"
proof -
  let ?rs = "sortRanges (filter (\<lambda>r. Begin r < End r) ranges)"
  have set: "set ?rs = {r \<in> set ranges. Begin r < End r}" by auto
  have "(streamRangesContainPiece (mergeStreamPieceRanges ranges) p \<longleftrightarrow> streamRangesContainPiece ?rs p)
        \<and> separated (mergeStreamPieceRanges ranges)"
  proof (cases ?rs)
    case Nil
    then show ?thesis by (simp add: mergeStreamPieceRanges_def separated_def)
  next
    case (Cons r rs)
    have pre: "Begin r < End r" "\<forall>x\<in>set rs. Begin r \<le> Begin x \<and> Begin x < End x" "sorted (map Begin rs)"
      using set sortRanges_sorted[of "filter (\<lambda>r. Begin r < End r) ranges"] Cons by auto
    show ?thesis
      using mergeFrom_contains[OF pre, of p] mergeFrom_separated[OF pre] Cons
      by (simp add: mergeStreamPieceRanges_def)
  qed
  moreover have "streamRangesContainPiece ?rs p \<longleftrightarrow> streamRangesContainPiece ranges p"
    unfolding contains_iff set by (auto simp: inRange_def)
  ultimately show "streamRangesContainPiece (mergeStreamPieceRanges ranges) p \<longleftrightarrow> streamRangesContainPiece ranges p"
    "separated (mergeStreamPieceRanges ranges)" by simp_all
qed

section \<open>The plan covers the window\<close>

lemma div_ceil:
  fixes b pl :: int
  assumes "0 < pl"
  shows "x < (b + pl - 1) div pl \<longleftrightarrow> x * pl < b"
proof -
  have "x < (b + pl - 1) div pl \<longleftrightarrow> x + 1 \<le> (b + pl - 1) div pl" by linarith
  also have "\<dots> \<longleftrightarrow> (x + 1) * pl \<le> b + pl - 1" by (rule le_div_iff[OF assms])
  also have "\<dots> \<longleftrightarrow> x * pl < b" by (simp add: algebra_simps) linarith
  finally show ?thesis .
qed

lemma region_spec:
  assumes f: "fileBounds bounds pl" and rel: "0 \<le> rel" "0 < sz" "rel + sz \<le> FileLength bounds"
  shows "streamByteRegionPieces bounds pl rel sz =
    Some \<lparr>Begin = (Offset bounds + rel) div pl, End = (Offset bounds + rel + sz + pl - 1) div pl\<rparr>"
proof -
  let ?o = "Offset bounds"
  note b = f[unfolded fileBounds_def]
  have i64: "in_i64 (rel + sz)" "in_i64 (?o + rel)" "in_i64 (?o + rel + sz)" "in_i64 (?o + rel + sz + pl - 1)"
    using b rel by (auto simp: in_i64_def)
  have lo: "BeginPiece bounds \<le> (?o + rel) div pl" using b rel by (simp add: zdiv_mono1)
  have hi: "(?o + rel + sz + pl - 1) div pl \<le> EndPiece bounds" using b rel by (simp add: zdiv_mono1)
  have lt: "(?o + rel) div pl < (?o + rel + sz + pl - 1) div pl"
  proof -
    have "(?o + rel) div pl * pl \<le> ?o + rel" using b le_div_iff[of pl "(?o + rel) div pl" "?o + rel"] by simp
    then show ?thesis using div_ceil[of pl "(?o + rel) div pl" "?o + rel + sz"] b rel by simp
  qed
  show ?thesis
    using b rel i64 lo hi lt by (simp add: streamByteRegionPieces_def Let_def go_simps max_def min_def)
qed

lemma region_contains:
  assumes "0 < pl" "x \<le> b" "b < x + sz"
  shows "inRange (b div pl) \<lparr>Begin = x div pl, End = (x + sz + pl - 1) div pl\<rparr>"
proof -
  have "b div pl * pl \<le> b" using le_div_iff[OF assms(1), of "b div pl" b] by simp
  then show ?thesis using assms div_ceil[OF assms(1), of "b div pl" "x + sz"] by (simp add: inRange_def zdiv_mono1)
qed

lemma headOfPlan_range:
  assumes "0 < FileLength bounds"
  shows "0 < headOfPlan bounds opts \<and> headOfPlan bounds opts \<le> FileLength bounds"
  using assms by (simp add: headOfPlan_def minPositiveInt64_def defaultStreamHeadPrebuffer_def)

lemma windowOf_pos: "0 < windowOf cacheSize opts"
  by (simp add: windowOf_def Let_def defaultStreamSlidingWindow_def)

lemma window_contains:
  assumes f: "fileBounds bounds pl" and p: "playheadOf opts < FileLength bounds"
    and b: "playheadOf opts \<le> b" "b < playheadOf opts + windowOf cacheSize opts" "b < FileLength bounds"
  shows "streamRangesContainPiece (windowRange bounds pl cacheSize opts) ((Offset bounds + b) div pl)"
proof -
  let ?w = "min (windowOf cacheSize opts) (FileLength bounds - playheadOf opts)"
  have ph: "0 \<le> playheadOf opts" by (simp add: playheadOf_def)
  have r: "streamByteRegionPieces bounds pl (playheadOf opts) ?w =
    Some \<lparr>Begin = (Offset bounds + playheadOf opts) div pl, End = (Offset bounds + playheadOf opts + ?w + pl - 1) div pl\<rparr>"
    by (rule region_spec[OF f ph]) (use p windowOf_pos[of cacheSize opts] in auto)
  have pl: "0 < pl" "BeginPiece bounds = Offset bounds div pl" using f by (simp_all add: fileBounds_def)
  have "inRange ((Offset bounds + b) div pl)
     \<lparr>Begin = (Offset bounds + playheadOf opts) div pl, End = (Offset bounds + playheadOf opts + ?w + pl - 1) div pl\<rparr>"
    by (rule region_contains[OF pl(1)]) (use b in auto)
  moreover have "BeginPiece bounds \<le> (Offset bounds + b) div pl"
    using pl b ph by (simp add: zdiv_mono1)
  ultimately show ?thesis
    using r by (auto simp: windowRange_def Let_def inRange_def defaultStreamBehindPieces_def)
qed

lemma ranges_inside:
  assumes f: "fileBounds bounds pl"
  shows "rel \<ge> 0 \<Longrightarrow> sz > 0 \<Longrightarrow> rel + sz \<le> FileLength bounds \<Longrightarrow>
      streamByteRegionPieces bounds pl rel sz = Some r \<Longrightarrow> BeginPiece bounds \<le> Begin r \<and> End r \<le> EndPiece bounds"
    and "r' \<in> set (tailRange table bounds) \<Longrightarrow> BeginPiece bounds \<le> Begin r' \<and> End r' \<le> EndPiece bounds"
proof -
  note b = f[unfolded fileBounds_def]
  show "BeginPiece bounds \<le> Begin r \<and> End r \<le> EndPiece bounds"
    if "rel \<ge> 0" "sz > 0" "rel + sz \<le> FileLength bounds" "streamByteRegionPieces bounds pl rel sz = Some r"
    using region_spec[OF f that(1-3)] that b by (auto simp: zdiv_mono1)
  show "r' \<in> set (tailRange table bounds) \<Longrightarrow> BeginPiece bounds \<le> Begin r' \<and> End r' \<le> EndPiece bounds"
    by (auto simp: tailRange_def split: if_splits)
qed

lemma window_inside:
  assumes f: "fileBounds bounds pl" and p: "playheadOf opts < FileLength bounds"
    and r: "r \<in> set (windowRange bounds pl cacheSize opts)"
  shows "BeginPiece bounds \<le> Begin r \<and> End r \<le> EndPiece bounds"
proof -
  let ?w = "min (windowOf cacheSize opts) (FileLength bounds - playheadOf opts)"
  have ph: "0 \<le> playheadOf opts" by (simp add: playheadOf_def)
  obtain q where q: "streamByteRegionPieces bounds pl (playheadOf opts) ?w = Some q"
    and "r = q\<lparr>Begin := max (Begin q - defaultStreamBehindPieces) (BeginPiece bounds)\<rparr>"
    using r by (cases "streamByteRegionPieces bounds pl (playheadOf opts) ?w") (simp_all add: windowRange_def Let_def)
  moreover have "BeginPiece bounds \<le> Begin q \<and> End q \<le> EndPiece bounds"
    by (rule ranges_inside(1)[OF f ph _ _ q]) (use p windowOf_pos[of cacheSize opts] in auto)
  ultimately show ?thesis by simp
qed

definition planRanges :: "(string \<Rightarrow> string) \<Rightarrow> streamFileBounds \<Rightarrow> int \<Rightarrow> int \<Rightarrow> StreamOptions \<Rightarrow> streamPieceRange list" where
  "planRanges table bounds pl cacheSize opts =
     (case streamByteRegionPieces bounds pl 0 (headOfPlan bounds opts) of None \<Rightarrow> [] | Some r \<Rightarrow> [r])
     @ tailRange table bounds
     @ (if playheadOf opts \<ge> FileLength bounds then [] else windowRange bounds pl cacheSize opts)"

lemma compute_plan:
  assumes "fileBounds bounds pl"
  shows "computeStreamPieceRangesForBounds table bounds pl cacheSize opts
         = mergeStreamPieceRanges (planRanges table bounds pl cacheSize opts)"
proof -
  note b = assms[unfolded fileBounds_def]
  have "BeginPiece bounds * pl < Offset bounds + FileLength bounds"
    using b le_div_iff[of pl "Offset bounds div pl" "Offset bounds"] by simp
  then have "BeginPiece bounds < EndPiece bounds"
    using div_ceil[of pl "BeginPiece bounds" "Offset bounds + FileLength bounds"] b by simp
  then show ?thesis using b by (simp add: computeStreamPieceRangesForBounds_def planRanges_def Let_def)
qed

lemma planRanges_inside:
  assumes f: "fileBounds bounds pl" and r: "r \<in> set (planRanges table bounds pl cacheSize opts)"
  shows "BeginPiece bounds \<le> Begin r \<and> End r \<le> EndPiece bounds"
proof -
  have h: "0 < headOfPlan bounds opts" "0 + headOfPlan bounds opts \<le> FileLength bounds"
    using headOfPlan_range[of bounds opts] f by (simp_all add: fileBounds_def)
  show ?thesis
    using r ranges_inside(1)[OF f _ h] ranges_inside(2)[OF f] window_inside[OF f, of opts r cacheSize]
    by (auto simp: planRanges_def split: option.splits if_splits)
qed

text \<open>The plan of a stream stays inside its file and covers what the player needs. Every range
  is made of pieces of the file; every byte of the window that starts at the playhead (of the
  session's size, the configured cache size or the default, cut at the end of the file) and every
  byte of the head lies in a planned piece.\<close>

lemma plan_covers:
  assumes "fileBounds bounds pieceLen"
  shows "let plan = computeStreamPieceRangesForBounds table bounds pieceLen cacheSize opts in
    list_all (\<lambda>r. BeginPiece bounds \<le> Begin r \<and> Begin r < End r \<and> End r \<le> EndPiece bounds) plan
    \<and> (\<forall>b. playheadOf opts \<le> b \<and> b < playheadOf opts + windowOf cacheSize opts \<and> b < FileLength bounds
          \<longrightarrow> streamRangesContainPiece plan ((Offset bounds + b) div pieceLen))
    \<and> (\<forall>b. 0 \<le> b \<and> b < headOfPlan bounds opts
          \<longrightarrow> streamRangesContainPiece plan ((Offset bounds + b) div pieceLen))"
proof -
  let ?rs = "planRanges table bounds pieceLen cacheSize opts" and ?plan = "mergeStreamPieceRanges (planRanges table bounds pieceLen cacheSize opts)"
  have pl: "0 < pieceLen" using assms by (simp add: fileBounds_def)
  have h: "0 < headOfPlan bounds opts" "0 + headOfPlan bounds opts \<le> FileLength bounds"
    using headOfPlan_range[of bounds opts] assms by (simp_all add: fileBounds_def)
  have inside: "BeginPiece bounds \<le> Begin r \<and> Begin r < End r \<and> End r \<le> EndPiece bounds" if r: "r \<in> set ?plan" for r
  proof -
    have ne: "Begin r < End r" using merge_spec(2)[of ?rs] r by (auto simp: separated_def list_all_iff)
    then have "streamRangesContainPiece ?plan (Begin r)" "streamRangesContainPiece ?plan (End r - 1)"
      using r by (auto simp: contains_iff inRange_def)
    then have "\<exists>q\<in>set ?rs. inRange (Begin r) q" "\<exists>q\<in>set ?rs. inRange (End r - 1) q"
      unfolding merge_spec(1) by (simp_all add: contains_iff)
    then show ?thesis using ne planRanges_inside[OF assms] by (force simp: inRange_def)
  qed
  have "streamRangesContainPiece ?rs ((Offset bounds + b) div pieceLen)"
    if "playheadOf opts \<le> b \<and> b < playheadOf opts + windowOf cacheSize opts \<and> b < FileLength bounds" for b
    using window_contains[OF assms, of opts b cacheSize] that by (simp add: planRanges_def)
  moreover have "streamRangesContainPiece ?rs ((Offset bounds + b) div pieceLen)"
    if "0 \<le> b \<and> b < headOfPlan bounds opts" for b
    using region_spec[OF assms _ h] region_contains[OF pl, of "Offset bounds" "Offset bounds + b" "headOfPlan bounds opts"] that
    by (simp add: planRanges_def)
  ultimately show ?thesis
    using inside by (simp add: Let_def compute_plan[OF assms] merge_spec(1) list_all_iff)
qed

section \<open>Properties\<close>

text \<open>C35: merging piece ranges is exact. A piece lies in a merged range exactly when it lies in one
  of the given ranges, and the merged ranges are non-empty, in increasing order, and separated by
  at least one piece.\<close>

theorem merge_is_exact:
  "(\<forall>piece. streamRangesContainPiece (mergeStreamPieceRanges ranges) piece
      = (\<exists>r\<in>set ranges. Begin r \<le> piece \<and> piece < End r))
   \<and> sorted_wrt (\<lambda>a b. End a < Begin b) (mergeStreamPieceRanges ranges)
   \<and> list_all (\<lambda>r. Begin r < End r) (mergeStreamPieceRanges ranges)"
  using merge_spec[of ranges] by (auto simp: contains_iff inRange_def separated_def)

lemma plan_covers_example:
  "streamRangesContainPiece (computeStreamPieceRangesForBounds id exBounds 10 0 exOptions) ((Offset exBounds + 70) div 10)"
proof -
  have "fileBounds exBounds 10" by (simp add: fileBounds_def exBounds_def)
  note covers = plan_covers[OF this, of id 0 exOptions, unfolded Let_def, THEN conjunct2, THEN conjunct1, rule_format]
  show ?thesis by (rule covers) (simp add: playheadOf_def windowOf_def exOptions_def exBounds_def)
qed

end
