(* ===== verification/StreamManager.thy ===== *)
theory StreamManager
  imports Engine StreamPlan
begin

text \<open>
  The stream manager (\<open>internal/engine/stream.go\<close>): reference counted sessions per file, the
  debounce of the last one, the handles of direct reads, and the overlay of piece priorities the
  sessions of a torrent share. The manager works on the engine's torrents, so its state is paired
  with the engine and with the piece priorities of the library.
\<close>

section \<open>State\<close>

type_synonym FileKey = "string \<times> int"

text \<open>A session's \<open>Done\<close> channel is named by the session's ID, a handle's cancel channel by the
  handle's ID. Both counters are Go \<open>int64\<close> that only grow by one per registration.\<close>

record StreamSession =
  sessionID :: int
  Options :: StreamOptions
  Preload :: bool
  sessionAccountingOnly :: bool

text \<open>\<open>stateAddr\<close> is the identity of the Go pointer; \<open>DebounceTimer\<close> tells whether a timer is
  set.\<close>

record StreamState =
  stateAddr :: nat
  Torrent :: nat
  TimerVersion :: "64 word"
  ActiveStreams :: int
  ActivePreloads :: int
  DebounceTimer :: bool
  Sessions :: "StreamSession list"
  AppliedRanges :: "streamPieceRange list"
  FullyDownloaded :: bool

record directStreamHandle =
  handleID :: int
  handleTorrent :: nat
  handleHash :: string

text \<open>\<open>closedDone\<close> and \<open>closedHandles\<close> are the channels closed so far, and \<open>panicked\<close> tells whether
  a closed channel was closed again.\<close>

record StreamManager =
  states :: "(FileKey \<times> StreamState) list"
  directStreams :: "directStreamHandle list"
  nextDirectID :: int
  nextSessionID :: int
  closed :: bool
  nextAddr :: nat
  closedDone :: "int list"
  closedHandles :: "int list"
  panicked :: bool

definition NewStreamManager :: StreamManager where
  "NewStreamManager = \<lparr>states = [], directStreams = [], nextDirectID = 0, nextSessionID = 0, closed = False,
     nextAddr = 0, closedDone = [], closedHandles = [], panicked = False\<rparr>"

text \<open>What the library tells about the files of a torrent, and the configured cache size.\<close>

record streamEnv =
  lowerTable :: "string \<Rightarrow> string"
  displayPath :: "int \<Rightarrow> string"
  bytesCompleted :: "int \<Rightarrow> int"
  numPieces :: int
  streamCacheSize :: int

record streamSystem =
  eng :: engine
  mgr :: StreamManager
  pieces :: "nat \<Rightarrow> int \<Rightarrow> PiecePriority"

definition maxStates :: nat where "maxStates = 256"

section \<open>Counting\<close>

definition stateWeight :: "StreamState \<Rightarrow> int" where
  "stateWeight st = (if ActiveStreams st > 0 then ActiveStreams st else if DebounceTimer st then 1 else 0)"

definition ActiveStreamsForTorrent :: "string \<Rightarrow> StreamManager \<Rightarrow> int" where
  "ActiveStreamsForTorrent h m = sum_list (map (\<lambda>(k, st). if fst k \<noteq> h then 0 else stateWeight st) (states m))"

definition ActiveStreamsTotal :: "StreamManager \<Rightarrow> int" where
  "ActiveStreamsTotal m = sum_list (map (\<lambda>(k, st). stateWeight st) (states m))"

definition hasReaders :: "string \<Rightarrow> StreamManager \<Rightarrow> bool" where
  "hasReaders h m \<longleftrightarrow>
     list_ex (\<lambda>(k, st). fst k = h \<and> (ActiveStreams st > 0 \<or> ActivePreloads st > 0 \<or> DebounceTimer st)) (states m)
     \<or> list_ex (\<lambda>d. handleHash d = h) (directStreams m)"

section \<open>Direct reads and closing\<close>

definition closeDone :: "int \<Rightarrow> StreamManager \<Rightarrow> StreamManager" where
  "closeDone i m = (if i \<in> set (closedDone m) then m\<lparr>panicked := True\<rparr> else m\<lparr>closedDone := i # closedDone m\<rparr>)"

definition closeHandle :: "directStreamHandle \<Rightarrow> StreamManager \<Rightarrow> StreamManager" where
  "closeHandle d m =
     (if handleID d \<in> set (closedHandles m) then m\<lparr>panicked := True\<rparr>
      else m\<lparr>closedHandles := handleID d # closedHandles m\<rparr>)"

definition closeDirectHandles :: "directStreamHandle list \<Rightarrow> StreamManager \<Rightarrow> StreamManager" where
  "closeDirectHandles toClose m = fold closeHandle toClose m"

definition registerHandle :: "ManagedTorrent \<Rightarrow> StreamManager \<Rightarrow> StreamManager" where
  "registerHandle mt m = m\<lparr>nextDirectID := nextDirectID m + 1,
     directStreams := \<lparr>handleID = nextDirectID m + 1, handleTorrent = generation mt, handleHash = hash mt\<rparr> # directStreams m\<rparr>"

definition RegisterDirectStream :: "string \<Rightarrow> nat \<Rightarrow> streamSystem \<Rightarrow> (engineError, int) result \<times> streamSystem" where
  "RegisterDirectStream h expected s =
     (case lookup (eng s) h of
        None \<Rightarrow> (Inl (TorrentNotFound h), s)
      | Some mt \<Rightarrow>
         if generation mt \<noteq> expected then (Inl (TorrentNotFound h), s)
         else if closed (mgr s) then (Inl GenerationClosed, s)
         else if rechecking mt \<or> mt_initializing mt \<or> verificationUncertain mt then (Inl OperationConflict, s)
         else (Inr (nextDirectID (mgr s) + 1), s\<lparr>mgr := registerHandle mt (mgr s)\<rparr>))"

definition unregister :: "int \<Rightarrow> StreamManager \<Rightarrow> StreamManager" where
  "unregister i m = m\<lparr>directStreams := filter (\<lambda>d. handleID d \<noteq> i) (directStreams m)\<rparr>"

text \<open>Close the sessions of the states that satisfy \<open>P\<close> and delete them.\<close>

definition dropStates :: "(StreamState \<Rightarrow> bool) \<Rightarrow> StreamManager \<Rightarrow> StreamManager" where
  "dropStates P m =
     (fold closeDone (concat (map (\<lambda>(k, st). map sessionID (Sessions st)) (filter (\<lambda>(k, st). P st) (states m)))) m)
       \<lparr>states := filter (\<lambda>(k, st). \<not> P st) (states m)\<rparr>"

definition dropHandles :: "(directStreamHandle \<Rightarrow> bool) \<Rightarrow> StreamManager \<Rightarrow> StreamManager" where
  "dropHandles P m = m\<lparr>directStreams := filter (\<lambda>d. \<not> P d) (directStreams m)\<rparr>"

definition detachStreamsForTorrentLocked :: "nat \<Rightarrow> StreamManager \<Rightarrow> directStreamHandle list \<times> StreamManager" where
  "detachStreamsForTorrentLocked g m =
     (filter (\<lambda>d. handleTorrent d = g) (directStreams m),
      dropHandles (\<lambda>d. handleTorrent d = g) (dropStates (\<lambda>st. Torrent st = g) m))"

definition closeStreamsForTorrent :: "nat \<Rightarrow> StreamManager \<Rightarrow> StreamManager" where
  "closeStreamsForTorrent g m =
     (case detachStreamsForTorrentLocked g m of (toClose, m) \<Rightarrow> closeDirectHandles toClose m)"

definition CloseAllStreams :: "StreamManager \<Rightarrow> StreamManager" where
  "CloseAllStreams m =
     closeDirectHandles (directStreams m)
       (dropHandles (\<lambda>_. True) (dropStates (\<lambda>_. True) (m\<lparr>closed := True\<rparr>)))"

section \<open>The overlay\<close>

definition BeginPieceIndex :: "int \<Rightarrow> libFile \<Rightarrow> int" where
  "BeginPieceIndex pieceLen f = (if pieceLen = 0 then 0 else f_offset f sdiv pieceLen)"

definition EndPieceIndex :: "int \<Rightarrow> libFile \<Rightarrow> int" where
  "EndPieceIndex pieceLen f =
     (if pieceLen = 0 then 0 else wrap64 (f_offset f + f_length f + pieceLen - 1) sdiv pieceLen)"

definition boundsOf :: "streamEnv \<Rightarrow> ManagedTorrent \<Rightarrow> int \<Rightarrow> libFile \<Rightarrow> streamFileBounds" where
  "boundsOf env mt i f = \<lparr>Offset = f_offset f, FileLength = f_length f,
     BeginPiece = BeginPieceIndex (pieceLength (lib mt)) f, EndPiece = EndPieceIndex (pieceLength (lib mt)) f,
     DisplayPath = displayPath env i\<rparr>"

definition computeStreamPieceRanges :: "streamEnv \<Rightarrow> ManagedTorrent \<Rightarrow> int \<Rightarrow> libFile \<Rightarrow> StreamOptions \<Rightarrow> streamPieceRange list" where
  "computeStreamPieceRanges env mt i f opts =
     computeStreamPieceRangesForBounds (lowerTable env) (boundsOf env mt i f) (pieceLength (lib mt)) (streamCacheSize env) opts"

definition filesOf :: "ManagedTorrent \<Rightarrow> libFile list" where
  "filesOf mt = (case libFiles (lib mt) of None \<Rightarrow> [] | Some fs \<Rightarrow> fs)"

definition streamFile :: "string \<Rightarrow> int \<Rightarrow> engine \<Rightarrow> (engineError, ManagedTorrent) result" where
  "streamFile h i e =
     (case lookup e h of
        None \<Rightarrow> Inl (TorrentNotFound h)
      | Some mt \<Rightarrow>
         if \<not> InfoKnown mt then Inl MetadataNotReady
         else if i < 0 \<or> i \<ge> int (length (filesOf mt)) then Inl IndexOutOfBounds
         else Inr mt)"

definition wantedRanges :: "streamEnv \<Rightarrow> ManagedTorrent \<Rightarrow> int \<Rightarrow> libFile \<Rightarrow> StreamState \<Rightarrow> streamPieceRange list" where
  "wantedRanges env mt i f st =
     (if Sessions st = [] \<and> DebounceTimer st then AppliedRanges st else [])
     @ concat (map (\<lambda>x. computeStreamPieceRanges env mt i f (Options x))
                   (filter (\<lambda>x. \<not> sessionAccountingOnly x) (Sessions st)))"

definition refreshState :: "streamEnv \<Rightarrow> ManagedTorrent \<Rightarrow> int \<Rightarrow> StreamState \<Rightarrow> StreamState" where
  "refreshState env mt i st =
     (if payloadEligible (policy mt) \<and> 0 \<le> i \<and> i < int (length (filesOf mt)) then
        (let f = filesOf mt ! nat i;
             full = (bytesCompleted env i = f_length f)
         in st\<lparr>FullyDownloaded := full,
               AppliedRanges := mergeStreamPieceRanges (if full then [] else wantedRanges env mt i f st)\<rparr>)
      else st\<lparr>AppliedRanges := mergeStreamPieceRanges []\<rparr>)"

text \<open>\<open>for p := r.Begin; p < r.End; p++\<close> over a list of ranges.\<close>

definition rangePieces :: "streamPieceRange list \<Rightarrow> int list" where
  "rangePieces rs = concat (map (\<lambda>r. [Begin r..End r - 1]) rs)"

definition SetPriority :: "nat \<Rightarrow> PiecePriority \<Rightarrow> int \<Rightarrow> (nat \<Rightarrow> int \<Rightarrow> PiecePriority) \<Rightarrow> nat \<Rightarrow> int \<Rightarrow> PiecePriority" where
  "SetPriority g v p f = f(g := (f g)(p := v))"

definition belongsTo :: "ManagedTorrent \<Rightarrow> FileKey \<times> StreamState \<Rightarrow> bool" where
  "belongsTo mt x \<longleftrightarrow> fst (fst x) = hash mt \<and> Torrent (snd x) = generation mt"

definition refreshEntry :: "streamEnv \<Rightarrow> ManagedTorrent \<Rightarrow> FileKey \<times> StreamState \<Rightarrow> FileKey \<times> StreamState" where
  "refreshEntry env mt x =
     (if belongsTo mt x then (fst x, refreshState env mt (snd (fst x)) (snd x)) else x)"

definition rangesOf :: "ManagedTorrent \<Rightarrow> (FileKey \<times> StreamState) list \<Rightarrow> streamPieceRange list" where
  "rangesOf mt sts = mergeStreamPieceRanges (concat (map (\<lambda>x. AppliedRanges (snd x)) (filter (belongsTo mt) sts)))"

definition publishRanges ::
    "nat \<Rightarrow> streamPieceRange list \<Rightarrow> streamPieceRange list \<Rightarrow> (nat \<Rightarrow> int \<Rightarrow> PiecePriority) \<Rightarrow> nat \<Rightarrow> int \<Rightarrow> PiecePriority" where
  "publishRanges g oldRanges newRanges f =
     fold (SetPriority g PiecePriorityHigh) (rangePieces newRanges)
       (fold (SetPriority g PiecePriorityNone)
          (filter (\<lambda>p. \<not> streamRangesContainPiece newRanges p) (rangePieces oldRanges)) f)"

definition refreshTorrentOverlayLocked :: "streamEnv \<Rightarrow> nat \<Rightarrow> streamSystem \<Rightarrow> engineError option \<times> streamSystem" where
  "refreshTorrentOverlayLocked env g s =
     (case currentTorrent (eng s) g of
        None \<Rightarrow> (Some Cancelled, s)
      | Some mt \<Rightarrow>
         if \<not> InfoKnown mt then (None, s)
         else if closed (mgr s) then (Some Cancelled, s)
         else
           (let sts = map (refreshEntry env mt) (states (mgr s))
            in (None, s\<lparr>mgr := (mgr s)\<lparr>states := sts\<rparr>,
                        pieces := publishRanges g (rangesOf mt (states (mgr s))) (rangesOf mt sts) (pieces s)\<rparr>)))"

definition refreshStreamOverlay :: "streamEnv \<Rightarrow> string \<Rightarrow> int \<Rightarrow> streamSystem \<Rightarrow> engineError option \<times> streamSystem" where
  "refreshStreamOverlay env h i s =
     (case streamFile h i (eng s) of
        Inl x \<Rightarrow> (Some x, s)
      | Inr mt \<Rightarrow> refreshTorrentOverlayLocked env (generation mt) s)"

definition aggregateTorrentRanges :: "string \<Rightarrow> FileKey \<Rightarrow> streamPieceRange list \<Rightarrow> StreamManager \<Rightarrow> streamPieceRange list" where
  "aggregateTorrentRanges h replaceKey replacement m =
     mergeStreamPieceRanges (replacement
       @ concat (map (\<lambda>(k, st). AppliedRanges st) (filter (\<lambda>(k, st). fst k = h \<and> k \<noteq> replaceKey) (states m))))"

definition applyOverlayDiff ::
    "streamEnv \<Rightarrow> nat \<Rightarrow> FileKey \<Rightarrow> streamPieceRange list \<Rightarrow> streamPieceRange list \<Rightarrow> streamSystem \<Rightarrow> streamSystem" where
  "applyOverlayDiff env g key oldRanges newRanges s =
     (let protected = aggregateTorrentRanges (fst key) key newRanges (mgr s);
          inside = filter (\<lambda>p. 0 \<le> p \<and> p < numPieces env)
      in s\<lparr>pieces :=
           fold (SetPriority g PiecePriorityHigh) (inside (rangePieces newRanges))
             (fold (SetPriority g PiecePriorityNone)
                (inside (filter (\<lambda>p. \<not> streamRangesContainPiece protected p) (rangePieces oldRanges))) (pieces s))\<rparr>)"

definition idle :: "StreamState \<Rightarrow> bool" where
  "idle st \<longleftrightarrow> ActiveStreams st = 0 \<and> ActivePreloads st = 0"

definition deleteState :: "FileKey \<Rightarrow> StreamManager \<Rightarrow> StreamManager" where
  "deleteState key m = m\<lparr>states := filter (\<lambda>(k, st). k \<noteq> key) (states m)\<rparr>"

definition clearStreamOverlayLocked :: "streamEnv \<Rightarrow> callback \<Rightarrow> FileKey \<Rightarrow> streamSystem \<Rightarrow> streamSystem" where
  "clearStreamOverlayLocked env save key s =
     (case map_of (states (mgr s)) key of
        None \<Rightarrow> s
      | Some st \<Rightarrow>
         if \<not> idle st then s
         else
           (let s' = s\<lparr>mgr := deleteState key (mgr s)\<rparr>
            in if AppliedRanges st = [] then s'
               else case streamFile (fst key) (snd key) (eng s') of
                 Inl _ \<Rightarrow> s'
               | Inr mt \<Rightarrow>
                  if Torrent st \<noteq> generation mt then s'
                  else (applyOverlayDiff env (generation mt) key (AppliedRanges st) [] s')
                         \<lparr>eng := restoreBasePriorities save (fst key) (eng s')\<rparr>))"

section \<open>Sessions\<close>

text \<open>Replace the state of a key that has one.\<close>

definition putState :: "FileKey \<Rightarrow> StreamState \<Rightarrow> StreamManager \<Rightarrow> StreamManager" where
  "putState key st m = m\<lparr>states := map (\<lambda>(k, x). if k = key then (k, st) else (k, x)) (states m)\<rparr>"

definition scheduleDebounceLocked :: "FileKey \<Rightarrow> StreamManager \<Rightarrow> StreamManager" where
  "scheduleDebounceLocked key m =
     (case map_of (states m) key of
        None \<Rightarrow> m
      | Some st \<Rightarrow>
         if closed m \<or> \<not> idle st then m
         else putState key (st\<lparr>TimerVersion := TimerVersion st + 1, DebounceTimer := True\<rparr>) m)"

definition expireDebounce :: "streamEnv \<Rightarrow> callback \<Rightarrow> FileKey \<Rightarrow> nat \<Rightarrow> 64 word \<Rightarrow> streamSystem \<Rightarrow> streamSystem" where
  "expireDebounce env save key expected version s =
     (case map_of (states (mgr s)) key of
        None \<Rightarrow> s
      | Some st \<Rightarrow>
         if \<not> closed (mgr s) \<and> stateAddr st = expected \<and> TimerVersion st = version \<and> idle st
         then clearStreamOverlayLocked env save key s else s)"

text \<open>Take a session out of its state: the references it held, floored at zero.\<close>

definition takeSession :: "StreamSession \<Rightarrow> StreamState \<Rightarrow> StreamState" where
  "takeSession x st = st\<lparr>
     Sessions := filter (\<lambda>y. sessionID y \<noteq> sessionID x) (Sessions st),
     ActivePreloads := max 0 (if Preload x then ActivePreloads st - 1 else ActivePreloads st),
     ActiveStreams := max 0 (if Preload x then ActiveStreams st else ActiveStreams st - 1)\<rparr>"

definition findSession :: "FileKey \<Rightarrow> int \<Rightarrow> StreamManager \<Rightarrow> (StreamState \<times> StreamSession) option" where
  "findSession key i m =
     (case map_of (states m) key of
        None \<Rightarrow> None
      | Some st \<Rightarrow> map_option (Pair st) (find (\<lambda>x. sessionID x = i) (Sessions st)))"

definition endSession :: "FileKey \<Rightarrow> StreamState \<Rightarrow> StreamSession \<Rightarrow> StreamManager \<Rightarrow> StreamManager" where
  "endSession key st x m = closeDone (sessionID x) (putState key (takeSession x st) m)"

definition rollbackSessionLocked :: "FileKey \<Rightarrow> int \<Rightarrow> StreamManager \<Rightarrow> StreamManager" where
  "rollbackSessionLocked key i m =
     (case findSession key i m of
        None \<Rightarrow> m
      | Some (st, x) \<Rightarrow>
         (let m' = endSession key st x m
          in if idle (takeSession x st) \<and> AppliedRanges st = [] then deleteState key m' else m'))"

definition removeSessionLocked :: "streamEnv \<Rightarrow> callback \<Rightarrow> FileKey \<Rightarrow> int \<Rightarrow> bool \<Rightarrow> streamSystem \<Rightarrow> streamSystem" where
  "removeSessionLocked env save key i debounce s =
     (case findSession key i (mgr s) of
        None \<Rightarrow> s
      | Some (st, x) \<Rightarrow>
         (let s' = s\<lparr>mgr := endSession key st x (mgr s)\<rparr>
          in if \<not> idle (takeSession x st) then snd (refreshTorrentOverlayLocked env (Torrent st) s')
             else if debounce then s'\<lparr>mgr := scheduleDebounceLocked key (mgr s')\<rparr>
             else clearStreamOverlayLocked env save key s'))"

text \<open>The map iteration order of Go picks the session: \<open>choice\<close> selects among the candidates. A
  state whose sessions are gone but whose count is positive is counted down.\<close>

definition RemoveStream :: "streamEnv \<Rightarrow> callback \<Rightarrow> nat \<Rightarrow> FileKey \<Rightarrow> streamSystem \<Rightarrow> streamSystem" where
  "RemoveStream env save choice key s =
     (case map_of (states (mgr s)) key of
        None \<Rightarrow> s
      | Some st \<Rightarrow>
         (let candidates = filter (\<lambda>x. \<not> Preload x) (Sessions st)
          in if candidates \<noteq> [] then
               removeSessionLocked env save key (sessionID (candidates ! (choice mod length candidates))) True s
             else if Sessions st = [] \<and> ActiveStreams st > 0 then
               (let st' = st\<lparr>ActiveStreams := max 0 (ActiveStreams st - 1)\<rparr>;
                    m = putState key st' (mgr s)
                in s\<lparr>mgr := (if ActiveStreams st' \<le> 0 \<and> ActivePreloads st' = 0 then scheduleDebounceLocked key m else m)\<rparr>)
             else s))"

definition freshState :: "nat \<Rightarrow> nat \<Rightarrow> StreamState" where
  "freshState addr g = \<lparr>stateAddr = addr, Torrent = g, TimerVersion = 0, ActiveStreams = 0, ActivePreloads = 0,
     DebounceTimer = False, Sessions = [], AppliedRanges = [], FullyDownloaded = False\<rparr>"

definition ensureState :: "FileKey \<Rightarrow> nat \<Rightarrow> StreamManager \<Rightarrow> (engineError, StreamState \<times> StreamManager) result" where
  "ensureState key g m =
     (case map_of (states m) key of
        Some st \<Rightarrow> Inr (st, m)
      | None \<Rightarrow>
         if length (states m) \<ge> maxStates then Inl TaskLimit
         else Inr (freshState (nextAddr m) g,
                   m\<lparr>states := (key, freshState (nextAddr m) g) # states m, nextAddr := nextAddr m + 1\<rparr>))"

definition joinSession :: "int \<Rightarrow> StreamOptions \<Rightarrow> bool \<Rightarrow> StreamState \<Rightarrow> StreamState" where
  "joinSession i opts preload st = st\<lparr>
     DebounceTimer := False, TimerVersion := TimerVersion st + 1,
     Sessions := \<lparr>sessionID = i, Options = opts, Preload = preload, sessionAccountingOnly = AccountingOnly opts\<rparr> # Sessions st,
     ActivePreloads := (if preload then ActivePreloads st + 1 else ActivePreloads st),
     ActiveStreams := (if preload then ActiveStreams st else ActiveStreams st + 1)\<rparr>"

definition attachSession :: "FileKey \<Rightarrow> nat \<Rightarrow> StreamOptions \<Rightarrow> bool \<Rightarrow> StreamManager \<Rightarrow> (engineError, int \<times> StreamManager) result" where
  "attachSession key g opts preload m =
     (if closed m then Inl Cancelled
      else case ensureState key g m of
        Inl x \<Rightarrow> Inl x
      | Inr (st, m) \<Rightarrow>
         Inr (nextSessionID m + 1,
              putState key (joinSession (nextSessionID m + 1) opts preload st) (m\<lparr>nextSessionID := nextSessionID m + 1\<rparr>)))"

text \<open>\<open>addSession\<close> gives up the admission lock while the payload is admitted, so it is in two
  parts. The first resolves the file and starts the admission unless the session only accounts or
  the file can be read directly (\<open>ready\<close>).\<close>

definition addSessionBegin ::
    "bool \<Rightarrow> string \<Rightarrow> int \<Rightarrow> StreamOptions \<Rightarrow> streamSystem
      \<Rightarrow> (engineError, nat \<times> (nat \<times> payloadPreparation) option) result \<times> streamSystem" where
  "addSessionBegin ready h i opts s =
     (if ctxDone (eng s) then (Inl CtxErr, s)
      else case streamFile h i (eng s) of
        Inl x \<Rightarrow> (Inl x, s)
      | Inr mt \<Rightarrow>
         if AccountingOnly opts \<or> ready then (Inr (generation mt, None), s)
         else case AdmitBegin (generation mt) (eng s) of
           (Inl x, e) \<Rightarrow> (Inl x, s\<lparr>eng := e\<rparr>)
         | (Inr tk, e) \<Rightarrow> (Inr (generation mt, Some tk), s\<lparr>eng := e\<rparr>))"

definition addSessionLocked ::
    "streamEnv \<Rightarrow> FileKey \<Rightarrow> nat \<Rightarrow> StreamOptions \<Rightarrow> bool \<Rightarrow> streamSystem \<Rightarrow> (engineError, int) result \<times> streamSystem" where
  "addSessionLocked env key g opts preload s =
     (case attachSession key g opts preload (mgr s) of
        Inl x \<Rightarrow> (Inl x, s)
      | Inr (i, m) \<Rightarrow>
         (case refreshTorrentOverlayLocked env g (s\<lparr>mgr := m\<rparr>) of
            (Some x, s') \<Rightarrow> (Inl x, s'\<lparr>mgr := rollbackSessionLocked key i (mgr s')\<rparr>)
          | (None, s') \<Rightarrow> (Inr i, s')))"

definition addSessionFinish ::
    "streamEnv \<Rightarrow> callback \<Rightarrow> callback \<Rightarrow> string option \<Rightarrow> bool \<Rightarrow> nat \<times> (nat \<times> payloadPreparation) option
      \<Rightarrow> FileKey \<Rightarrow> StreamOptions \<Rightarrow> bool \<Rightarrow> streamSystem \<Rightarrow> (engineError, int) result \<times> streamSystem" where
  "addSessionFinish env save safety probeErr metadataOk tk key opts preload s =
     (case snd tk of
        None \<Rightarrow> addSessionLocked env key (fst tk) opts preload s
      | Some admission \<Rightarrow>
         (case AdmitFinish save safety admission probeErr metadataOk (eng s) of
            (Some x, e) \<Rightarrow> (Inl x, s\<lparr>eng := e\<rparr>)
          | (None, e) \<Rightarrow> addSessionLocked env key (fst tk) opts preload (s\<lparr>eng := e\<rparr>)))"

text \<open>Following a session to its end needs the session still to be there and a free task
  (\<open>started\<close>); otherwise it is removed at once.\<close>

definition watchSession :: "bool \<Rightarrow> FileKey \<Rightarrow> int \<Rightarrow> StreamManager \<Rightarrow> bool" where
  "watchSession started key i m \<longleftrightarrow> findSession key i m \<noteq> None \<and> started"

definition qosSkipped :: "StreamOptions \<Rightarrow> bool" where
  "qosSkipped opts \<longleftrightarrow> IsHEAD opts \<or> SkipQoS opts"

text \<open>The first check of \<open>AddStream\<close> and \<open>AddPreload\<close>: \<open>ready\<close> is the verdict of
  \<open>CheckFileDirectReady\<close>, if it had no error; a file that is not ready needs a payload admission,
  whose end is a step of the engine.\<close>

definition AddStreamCheck ::
    "bool option \<Rightarrow> string \<Rightarrow> StreamOptions \<Rightarrow> streamSystem
      \<Rightarrow> (engineError, (nat \<times> payloadPreparation) option) result \<times> streamSystem" where
  "AddStreamCheck ready h opts s =
     (if \<not> qosSkipped opts \<and> ready = Some False then
        (case CheckPayloadAdmission h (eng s) of
           (Inl x, e) \<Rightarrow> (Inl x, s\<lparr>eng := e\<rparr>)
         | (Inr tk, e) \<Rightarrow> (Inr (Some tk), s\<lparr>eng := e\<rparr>))
      else (Inr None, s))"

text \<open>\<open>AddStream\<close> and \<open>AddPreload\<close> after \<open>addSession\<close> returned.\<close>

definition followSession ::
    "streamEnv \<Rightarrow> callback \<Rightarrow> bool \<Rightarrow> FileKey \<Rightarrow> (engineError, int) result \<Rightarrow> streamSystem
      \<Rightarrow> (engineError, int) result \<times> streamSystem" where
  "followSession env save started key r s =
     (case r of
        Inl x \<Rightarrow> (Inl x, s)
      | Inr i \<Rightarrow>
         if watchSession started key i (mgr s) then (Inr i, s)
         else (Inl TaskLimit, removeSessionLocked env save key i False s))"

section \<open>The system\<close>

definition newSystem :: "int \<Rightarrow> bool \<Rightarrow> streamSystem" where
  "newSystem maxActive noUpload =
     \<lparr>eng = newEngine maxActive noUpload, mgr = NewStreamManager, pieces = \<lambda>_ _. PiecePriorityNone\<rparr>"

text \<open>\<open>Delete\<close> takes the generation out of the namespace and detaches its streams under one hold of
  the lock.\<close>

definition deleteTorrent :: "string \<Rightarrow> streamSystem \<Rightarrow> engineError option \<times> streamSystem" where
  "deleteTorrent h s =
     (case deleteBegin h (eng s) of (r, e) \<Rightarrow>
        (r, s\<lparr>eng := e,
              mgr := (case (r, lookup (eng s) h) of
                        (None, Some mt) \<Rightarrow> closeStreamsForTorrent (generation mt) (mgr s)
                      | _ \<Rightarrow> mgr s)\<rparr>))"

definition CloseStreamsForTorrent :: "nat \<Rightarrow> streamSystem \<Rightarrow> streamSystem" where
  "CloseStreamsForTorrent g s =
     (if ctxDone (eng s) then s else s\<lparr>mgr := closeStreamsForTorrent g (mgr s)\<rparr>)"

text \<open>Every step of the engine that keeps the generations (all but a deletion, which comes with its
  streams), and the operations of the manager in any order.\<close>

inductive sstep :: "streamSystem \<Rightarrow> streamSystem \<Rightarrow> bool" where
  engineStep: "estep (eng s) e \<Longrightarrow> generation ` set (managedTorrents (eng s)) \<subseteq> generation ` set (managedTorrents e)
     \<Longrightarrow> sstep s (s\<lparr>eng := e\<rparr>)"
| deleteStep: "sstep s (snd (deleteTorrent h s))"
| closeStep: "sstep s (CloseStreamsForTorrent g s)"
| closeAllStep: "sstep s (s\<lparr>mgr := CloseAllStreams (mgr s)\<rparr>)"
| registerStep: "sstep s (snd (RegisterDirectStream h g s))"
| unregisterStep: "sstep s (s\<lparr>mgr := unregister i (mgr s)\<rparr>)"
| addBegin: "sstep s (snd (addSessionBegin ready h j opts s))"
| addFinish: "sstep s (snd (addSessionFinish env save safety probeErr metadataOk tk key opts preload s))"
| followStep: "sstep s (snd (followSession env save started key r s))"
| removeStep: "sstep s (removeSessionLocked env save key i debounce s)"
| removeAny: "sstep s (RemoveStream env save choice key s)"
| expireStep: "sstep s (expireDebounce env save key addr version s)"
| refreshStep: "sstep s (snd (refreshStreamOverlay env h j s))"

inductive sreachable :: "int \<Rightarrow> bool \<Rightarrow> streamSystem \<Rightarrow> bool" for maxActive noUpload where
  start: "sreachable maxActive noUpload (newSystem maxActive noUpload)"
| more: "sreachable maxActive noUpload s \<Longrightarrow> sstep s s' \<Longrightarrow> sreachable maxActive noUpload s'"

text \<open>A concrete run: the engine of \<^const>\<open>exOpen\<close> with one stream on its file.\<close>

definition exEnv :: streamEnv where
  "exEnv = \<lparr>lowerTable = id, displayPath = (\<lambda>_. ''a.mkv''), bytesCompleted = (\<lambda>_. 0), numPieces = 1, streamCacheSize = 0\<rparr>"

definition exSystem :: streamSystem where
  "exSystem = (newSystem 1 False)\<lparr>eng := exOpen\<rparr>"

definition exStreaming :: streamSystem where
  "exStreaming = snd (addSessionFinish exEnv Unset Unset None True (0, None) (''aa'', 0) exOptions False exSystem)"

end
