(* ===== verification/EngineSafety.thy ===== *)
theory EngineSafety
  imports Engine
begin

text \<open>
  Safety of the whole engine: an invariant over the managed, registering and detaching generations
  that every step of \<open>Engine\<close> keeps, and what follows from it for every reachable engine. The
  operations on one generation enter through the locale \<open>generation_op\<close>.
\<close>

section \<open>The engine invariant\<close>

definition generations :: "engine \<Rightarrow> ManagedTorrent list" where
  "generations e = managedTorrents e @ registering e @ detaching e"

definition engInv :: "engine \<Rightarrow> bool" where
  "engInv e \<longleftrightarrow>
     list_all mtInv (managedTorrents e) \<and> list_all mtInv (registering e)
     \<and> list_all (\<lambda>mt. \<not> slot (policy mt)) (registering e)
     \<and> distinct (map generation (generations e)) \<and> list_all (\<lambda>mt. generation mt < nextGeneration e) (generations e)
     \<and> distinct (map hash (generations e)) \<and> distinct (map raw (generations e))
     \<and> slotCountLocked e \<le> max 0 (maxActiveDownloads e)"

lemma engInvD:
  assumes "engInv e"
  shows "list_all mtInv (managedTorrents e)" "list_all mtInv (registering e)"
    "list_all (\<lambda>mt. \<not> slot (policy mt)) (registering e)"
    "distinct (map generation (generations e))" "distinct (map hash (generations e))" "distinct (map raw (generations e))"
    "\<And>mt. mt \<in> set (generations e) \<Longrightarrow> generation mt < nextGeneration e"
    "slotCountLocked e \<le> max 0 (maxActiveDownloads e)"
  using assms unfolding engInv_def list_all_iff by blast+

lemma engInvI:
  assumes "list_all mtInv (managedTorrents e)" "list_all mtInv (registering e)"
    "list_all (\<lambda>mt. \<not> slot (policy mt)) (registering e)"
    "distinct (map generation (generations e))" "distinct (map hash (generations e))" "distinct (map raw (generations e))"
    "\<And>mt. mt \<in> set (generations e) \<Longrightarrow> generation mt < nextGeneration e"
    "slotCountLocked e \<le> max 0 (maxActiveDownloads e)"
  shows "engInv e"
  using assms unfolding engInv_def list_all_iff by blast

lemma length_filter_map_le:
  assumes "\<And>x. x \<in> set xs \<Longrightarrow> P (f x) \<Longrightarrow> P x"
  shows "length (filter P (map f xs)) \<le> length (filter P xs)"
  using assms by (induction xs) (auto simp: le_SucI)

lemma engInv_map_slots:
  assumes inv: "engInv e"
    and k: "\<And>m. m \<in> set (managedTorrents e) \<Longrightarrow> sameGen m (f m) \<and> (mtInv m \<longrightarrow> mtInv (f m))"
    and c: "slotCountLocked (e\<lparr>managedTorrents := map f (managedTorrents e)\<rparr>) \<le> max 0 (maxActiveDownloads e)"
  shows "engInv (e\<lparr>managedTorrents := map f (managedTorrents e)\<rparr>)"
proof -
  have ids: "map generation (map f (managedTorrents e)) = map generation (managedTorrents e)"
    "map hash (map f (managedTorrents e)) = map hash (managedTorrents e)"
    "map raw (map f (managedTorrents e)) = map raw (managedTorrents e)"
    using k by (auto simp: sameGen_def)
  have "list_all (\<lambda>m. generation m < nextGeneration e) (map f (managedTorrents e))"
    using inv k by (auto simp: engInv_def generations_def list_all_iff sameGen_def)
  moreover have "list_all mtInv (map f (managedTorrents e))"
    using k inv by (auto simp: engInv_def list_all_iff)
  ultimately show ?thesis
    using inv ids c by (auto simp: engInv_def generations_def list_all_iff simp del: map_map)
qed

lemma engInv_map:
  assumes inv: "engInv e"
    and k: "\<And>m. m \<in> set (managedTorrents e) \<Longrightarrow> keeps m (f m)"
  shows "engInv (e\<lparr>managedTorrents := map f (managedTorrents e)\<rparr>)"
proof (rule engInv_map_slots[OF inv])
  show "sameGen m (f m) \<and> (mtInv m \<longrightarrow> mtInv (f m))" if "m \<in> set (managedTorrents e)" for m
    using k[OF that] by (simp add: keeps_def)
  have "\<And>m. m \<in> set (managedTorrents e) \<Longrightarrow> slot (policy (f m)) \<Longrightarrow> slot (policy m)"
    using k inv by (auto simp: keeps_def engInv_def list_all_iff)
  from length_filter_map_le[of "managedTorrents e" "\<lambda>mt. slot (policy mt)" f, OF this]
  have "slotCountLocked (e\<lparr>managedTorrents := map f (managedTorrents e)\<rparr>) \<le> slotCountLocked e"
    by (simp add: slotCountLocked_def)
  then show "slotCountLocked (e\<lparr>managedTorrents := map f (managedTorrents e)\<rparr>) \<le> max 0 (maxActiveDownloads e)"
    using inv by (simp add: engInv_def)
qed

lemma engInv_putGen:
  assumes "engInv e" "mt \<in> set (managedTorrents e)" "keeps mt mt'"
  shows "engInv (putGen mt' e)"
proof -
  have "keeps m (if generation m = generation mt' then mt' else m)" if "m \<in> set (managedTorrents e)" for m
  proof -
    have "m = mt" if "generation m = generation mt'"
      using assms(1,3) that \<open>m \<in> set (managedTorrents e)\<close> assms(2)
      by (auto simp: engInv_def generations_def keeps_def sameGen_def distinct_map inj_on_def)
    then show ?thesis using assms(3) by auto
  qed
  from engInv_map[OF assms(1) this] show ?thesis by (simp add: putGen_def)
qed

lemma find_set: "find P xs = Some x \<Longrightarrow> x \<in> set xs \<and> P x"
  by (metis find_Some_iff nth_mem)

lemma lookup_set: "lookup e h = Some mt \<Longrightarrow> mt \<in> set (managedTorrents e) \<and> hash mt = h"
  by (auto simp: lookup_def dest: find_set)

lemma current_set: "currentTorrent e g = Some mt \<Longrightarrow> mt \<in> set (managedTorrents e) \<and> generation mt = g \<and> \<not> ctxDone e"
  by (auto simp: currentTorrent_def split: if_splits dest: find_set)

lemma engInv_counters [simp]:
  "engInv (e\<lparr>nextTicket := n\<rparr>) = engInv e"
  "engInv (e\<lparr>nextRecheckID := r\<rparr>) = engInv e"
  "engInv (e\<lparr>ctxDone := b\<rparr>) = engInv e"
  by (simp_all add: engInv_def generations_def slotCountLocked_def)

text \<open>The interface between the engine and the operations on one generation: an operation promises
  to keep the generation; the engine's entry points then keep the engine's invariant.\<close>

locale generation_op =
  fixes f :: "engineError option genOp"
  assumes op_keeps: "keeps mt (snd (f mt))"
begin

lemma with_hash: "engInv e \<Longrightarrow> engInv (snd (withHash e h f))"
  using op_keeps by (auto simp: withHash_def split: option.split prod.split
      dest!: lookup_set intro!: engInv_putGen) (metis snd_conv)

lemma with_current: "engInv e \<Longrightarrow> engInv (snd (withCurrent e g f))"
  using op_keeps by (auto simp: withCurrent_def split: option.split prod.split
      dest!: current_set intro!: engInv_putGen) (metis snd_conv)

lemma checked_hash: "engInv e \<Longrightarrow> engInv (snd (checkCtx e (withHash e h f)))"
  using with_hash by (simp add: checkCtx_def)

end

interpretation pauseOp: generation_op "pauseWithIntent saved" for saved
  by unfold_locales (rule keeps_ops)

interpretation stageOp: generation_op "StageExistingRestore saved" for saved
  by unfold_locales (rule keeps_ops)

interpretation priorityOp: generation_op "SetFilePriority safety i p" for safety i p
  by unfold_locales (rule keeps_ops)

interpretation allPriorityOp: generation_op "SetTorrentFilesPriority safety p" for safety p
  by unfold_locales (rule keeps_ops)

interpretation selectionOp: generation_op "SetFilePriorities safety ps" for safety ps
  by unfold_locales (rule keeps_ops)

interpretation baseOp: generation_op "basePriorities save" for save
  by unfold_locales (simp add: basePriorities_def keeps_onLib keeps_applyFilePriorities)

interpretation queueOp: generation_op "\<lambda>mt. (None, mt\<lparr>queuePosition := q\<rparr>)" for q
  by unfold_locales simp

interpretation bindOp: generation_op "bindRuntime save saveBlocks fence applied" for save saveBlocks fence applied
  by unfold_locales (rule keeps_ops)

interpretation failIntentOp: generation_op "FailIntentApply rid revision code" for rid revision code
  by unfold_locales (rule keeps_ops)

interpretation restoreBlockOp: generation_op RestoreVerificationBlock
  by unfold_locales (rule keeps_ops)

interpretation recheckOp: generation_op "startRecheckLocked noUpload save save' active admitted a opID"
  for noUpload save save' active admitted a opID
  by unfold_locales (rule keeps_ops)

interpretation inactiveOp: generation_op "verifyInactiveBegin noUpload save save' a" for noUpload save save' a
  by unfold_locales (rule keeps_ops)

interpretation resumeOp: generation_op "resumeFinish save safety w v probeErr" for save safety w v probeErr
  by unfold_locales (rule keeps_ops)

interpretation admitOp: generation_op "admitFinish save safety tk probeErr metadataOk" for save safety tk probeErr metadataOk
  by unfold_locales (rule keeps_ops)

interpretation missingOp: generation_op "detectMissingFinish safety w absent" for safety w absent
  by unfold_locales (rule keeps_ops)

interpretation releaseOp: generation_op "\<lambda>m. (None, releaseIfOwned streaming token m)" for streaming token
  by unfold_locales (simp add: keeps_releaseIfOwned)

section \<open>Steps keep the invariant\<close>

lemma keeps_cases_op: "keeps a b \<Longrightarrow> keeps b (snd (f b)) \<Longrightarrow> keeps a (snd (f b))"
  by (rule keeps_trans)

interpretation restoreOp: generation_op "\<lambda>mt. case finishRestoreCheck safety metadataOk w mt of
          (Some x, mt) \<Rightarrow> (Some x, mt)
        | (None, mt) \<Rightarrow> finishRestoreActivate noUpload safety mergeOk (ev\<lparr>ev_kind := stateActivated\<rparr>) mt"
  for safety metadataOk w noUpload mergeOk ev
proof
  fix mt
  obtain r m where r: "finishRestoreCheck safety metadataOk w mt = (r, m)" by fastforce
  have k: "keeps mt m" using keeps_finishRestoreCheck[of mt safety metadataOk w] r by simp
  show "keeps mt (snd (case finishRestoreCheck safety metadataOk w mt of
          (Some x, mt) \<Rightarrow> (Some x, mt)
        | (None, mt) \<Rightarrow> finishRestoreActivate noUpload safety mergeOk (ev\<lparr>ev_kind := stateActivated\<rparr>) mt))"
    using r k keeps_trans[OF k keeps_finishRestoreActivate] by (simp split: option.split)
qed

interpretation manualOp: generation_op "\<lambda>mt. case finishRestoreRecover save w v probeErr mt of
          (Some x, mt) \<Rightarrow> (Some x, mt)
        | (None, mt) \<Rightarrow> finishRestoreActivate noUpload safety mergeOk (ev\<lparr>ev_kind := stateActivated, ev_diskRecovered := True\<rparr>) mt"
  for save w v probeErr safety noUpload mergeOk ev
proof
  fix mt
  obtain r m where r: "finishRestoreRecover save w v probeErr mt = (r, m)" by fastforce
  have k: "keeps mt m" using keeps_finishRestoreRecover[of mt save w v probeErr] r by simp
  show "keeps mt (snd (case finishRestoreRecover save w v probeErr mt of
          (Some x, mt) \<Rightarrow> (Some x, mt)
        | (None, mt) \<Rightarrow> finishRestoreActivate noUpload safety mergeOk (ev\<lparr>ev_kind := stateActivated, ev_diskRecovered := True\<rparr>) mt))"
    using r k keeps_trans[OF k keeps_finishRestoreActivate] by (simp split: option.split)
qed

interpretation scheduleOp: generation_op "\<lambda>mt. case admitFinish save safety t probeErr metadataOk mt of
          (None, mt) \<Rightarrow> (None, mt)
        | (Some x, mt) \<Rightarrow> (Some x, releaseIfOwned streaming token mt)"
  for save safety t probeErr metadataOk streaming token
proof
  fix mt
  obtain r m where r: "admitFinish save safety t probeErr metadataOk mt = (r, m)" by fastforce
  have k: "keeps mt m" using keeps_admitFinish[of mt save safety t probeErr metadataOk] r by simp
  show "keeps mt (snd (case admitFinish save safety t probeErr metadataOk mt of
          (None, mt) \<Rightarrow> (None, mt)
        | (Some x, mt) \<Rightarrow> (Some x, releaseIfOwned streaming token mt)))"
    using r k keeps_trans[OF k keeps_releaseIfOwned] by (simp split: option.split)
qed

lemma engInv_onGeneration:
  assumes "engInv e" and k: "\<And>m. keeps m (f m)"
  shows "engInv (onGeneration g f e)"
proof -
  define at where "at = (\<lambda>m. if generation m = g then f m else m)"
  have keep: "keeps m (at m)" for m using k by (simp add: at_def)
  have ids: "generation (at m) = generation m" "hash (at m) = hash m" "raw (at m) = raw m" for m
    using keep[of m] unfolding keeps_def sameGen_def by blast+
  note inv = engInvD[OF assms(1)]
  have e': "onGeneration g f e = e\<lparr>managedTorrents := map at (managedTorrents e), registering := map at (registering e), detaching := map at (detaching e)\<rparr>"
    by (simp add: onGeneration_def at_def Let_def)
  have "engInv (e\<lparr>managedTorrents := map at (managedTorrents e)\<rparr>)" by (rule engInv_map[OF assms(1) keep])
  then have m: "list_all mtInv (map at (managedTorrents e))"
      "slotCountLocked (e\<lparr>managedTorrents := map at (managedTorrents e)\<rparr>) \<le> max 0 (maxActiveDownloads e)"
    using engInvD(1,8) by fastforce+
  have r: "mtInv (at m) \<and> \<not> slot (policy (at m))" if "m \<in> set (registering e)" for m
    using keep[of m] inv(2,3) that unfolding keeps_def list_all_iff by blast
  have gens: "generations (onGeneration g f e) = map at (generations e)" by (simp add: e' generations_def)
  have maps: "map generation (map at (generations e)) = map generation (generations e)"
    "map hash (map at (generations e)) = map hash (generations e)" "map raw (map at (generations e)) = map raw (generations e)"
    using ids by simp_all
  have "distinct (map generation (generations (onGeneration g f e)))" "distinct (map hash (generations (onGeneration g f e)))"
    "distinct (map raw (generations (onGeneration g f e)))"
    unfolding gens maps by (rule inv(4-6))+
  moreover have "generation mt < nextGeneration (onGeneration g f e)" if "mt \<in> set (generations (onGeneration g f e))" for mt
    using that inv(7) ids(1) unfolding gens by (auto simp: e')
  moreover have "list_all mtInv (registering (onGeneration g f e))"
    "list_all (\<lambda>mt. \<not> slot (policy mt)) (registering (onGeneration g f e))"
    using r by (simp_all add: e' list_all_iff)
  moreover have "list_all mtInv (managedTorrents (onGeneration g f e))"
    "slotCountLocked (onGeneration g f e) \<le> max 0 (maxActiveDownloads (onGeneration g f e))"
    using m by (simp_all add: e' slotCountLocked_def)
  ultimately show ?thesis by (intro engInvI)
qed

lemma engInv_finishVerification: "engInv e \<Longrightarrow> engInv (snd (finishVerification save g attempt err e))"
  using keeps_completeVerification engInv_onGeneration[OF _ keeps_abandonVerification]
  by (auto simp: finishVerification_def split: option.split prod.split dest!: current_set intro!: engInv_putGen)
     (metis snd_conv)

lemma engInv_startVerificationTask: "engInv e \<Longrightarrow> engInv (startVerificationTask save g attempt e)"
  by (auto simp: startVerificationTask_def engInv_finishVerification split: option.split dest!: find_set intro!: engInv_putGen)

lemma engInv_ResumeBegin: "engInv e \<Longrightarrow> engInv (snd (ResumeBegin h e))"
  using keeps_resumeBegin
  by (auto simp: ResumeBegin_def split: option.split prod.split sum.split dest!: lookup_set intro!: engInv_putGen)
     (metis snd_conv)+

lemma engInv_FinishRestoreProbe: "engInv e \<Longrightarrow> engInv (snd (FinishRestoreProbe safety metadataOk tk e))"
  using keeps_finishRestoreCheck
  by (auto simp: FinishRestoreProbe_def split: option.split prod.split dest!: current_set intro!: engInv_putGen)
     (metis snd_conv)+

lemma engInv_AdmitBegin: "engInv e \<Longrightarrow> engInv (snd (AdmitBegin g e))"
  using keeps_admitBegin
  by (auto simp: AdmitBegin_def split: option.split prod.split sum.split dest!: current_set intro!: engInv_putGen)
     (metis snd_conv)+

lemma engInv_captureObservation: "engInv e \<Longrightarrow> engInv (snd (captureObservation h g e))"
  using keeps_CaptureObservation
  by (auto simp: captureObservation_def split: option.split prod.split dest!: lookup_set intro!: engInv_putGen)
     (metis snd_conv)

lemma engInv_PayloadWriteError: "engInv e \<Longrightarrow> engInv (PayloadWriteError save g err e)"
  by (auto simp: PayloadWriteError_def keeps_payloadWriteError split: option.split dest!: current_set intro!: engInv_putGen)

lemma engInv_RefreshPeerDiscovery: "engInv e \<Longrightarrow> engInv (RefreshPeerDiscovery safety downloadAll g e)"
  by (auto simp: RefreshPeerDiscovery_def keeps_refreshPeerDiscovery split: option.split dest!: current_set intro!: engInv_putGen)

lemma engInv_RememberExpectedPayload: "engInv e \<Longrightarrow> engInv (RememberExpectedPayload g i ready e)"
  by (auto simp: RememberExpectedPayload_def keeps_remember split: option.split dest!: find_set intro!: engInv_putGen)

lemma engInv_ManageProbe: "engInv e \<Longrightarrow> engInv (snd (ManageProbe g e))"
  by (auto simp: ManageProbe_def split: option.split dest!: current_set intro!: engInv_putGen)

text \<open>Granting a slot: the only step that takes one, under a fresh count.\<close>

lemma filter_replace_le:
  assumes "distinct (map generation xs)"
  shows "length (filter P (map (\<lambda>m. if generation m = g then y else m) xs)) \<le> Suc (length (filter P xs))"
  using assms
proof (induction xs)
  case (Cons x xs)
  show ?case
  proof (cases "generation x = g")
    case True
    then have "map (\<lambda>m. if generation m = g then y else m) xs = xs"
      using Cons.prems by (auto intro!: map_idI simp: image_iff)
    then show ?thesis using True by simp
  qed (use Cons in auto)
qed simp

lemma requested:
  assumes "applyStateEventLocked (requestEvent available) mt = Inr (d, mt')"
  shows "available" "sameGen mt mt'" "mtInv mt \<Longrightarrow> mtInv mt'" "waiting mt"
proof -
  obtain n fx where *: "applyKind (policy mt) (requestEvent available) = Inr (n, fx)" "policy mt' = n" "lib mt' = lib mt"
    "sameGen mt mt'" "mirrors mt'" "runtimeTransition (policy mt) (requestEvent available) = Inr d" "d = decide n fx"
    using apply_Inr[OF assms] by metis
  then have r: "requestSlot (policy mt) (requestEvent available) = Inr (n, fx)"
    by (simp add: applyKind_def requestEvent_def)
  note q = requestSlot_Inr[OF r]
  show "available" using q by (simp add: requestEvent_def)
  show "sameGen mt mt'" by (rule *)
  show "waiting mt" using q by (simp add: waiting_def)
  show "mtInv mt'" if "mtInv mt"
  proof -
    have "policyRun n" using policyRun_step[OF _ *(6)] that *(7) by (simp add: mtInv_def)
    then show ?thesis using that *(2,3,5) q by (simp add: mtInv_def uploadOk_def uploadEligible_def)
  qed
qed

lemma engInv_grantSlot:
  assumes "engInv e"
  shows "engInv (snd (grantSlot g e))"
proof (cases "currentTorrent e g")
  case (Some mt)
  let ?av = "slotCountLocked e < maxActiveDownloads e \<and> map_option generation (schedulerHeadLocked e) = Some g"
  have "engInv (putGen mt' e)" if a: "applyStateEventLocked (requestEvent ?av) mt = Inr (d, mt')" for d mt'
  proof -
    let ?f = "\<lambda>m. if generation m = generation mt' then mt' else m"
    note q = requested[OF a]
    have dist: "distinct (map generation (managedTorrents e))"
      using assms by (simp add: engInv_def generations_def)
    have "slotCountLocked (e\<lparr>managedTorrents := map ?f (managedTorrents e)\<rparr>) \<le> max 0 (maxActiveDownloads e)"
      using filter_replace_le[OF dist, of "\<lambda>mt. slot (policy mt)" "generation mt'" mt'] q(1)
      by (simp add: slotCountLocked_def)
    moreover have "sameGen m (?f m) \<and> (mtInv m \<longrightarrow> mtInv (?f m))" if m: "m \<in> set (managedTorrents e)" for m
    proof -
      have "m = mt" if "generation m = generation mt'"
        using that q(2) dist m current_set[OF Some] by (auto simp: sameGen_def distinct_map inj_on_def)
      then show ?thesis using q(2,3) by (auto simp: sameGen_def)
    qed
    ultimately show ?thesis using engInv_map_slots[OF assms, of ?f] by (simp add: putGen_def)
  qed
  then show ?thesis using Some assms by (simp add: grantSlot_def Let_def split: sum.split prod.split)
qed (use assms in \<open>simp add: grantSlot_def\<close>)

lemma engInv_prepareSlot:
  assumes "engInv e"
  shows "engInv (snd (prepareSlot streaming g e))"
proof (cases "currentTorrent e g")
  case (Some mt)
  have "engInv (putGen (mt\<lparr>downloadAllStarted := True\<rparr>) e)"
    using assms current_set[OF Some] by (intro engInv_putGen) auto
  from engInv_AdmitBegin[OF this, of g] show ?thesis
    using assms Some releaseOp.with_current
    by (auto simp: prepareSlot_def split: prod.split sum.split)
qed (use assms in \<open>simp add: prepareSlot_def\<close>)

lemma engInv_ManageFinish:
  assumes "engInv e"
  shows "engInv (snd (ManageFinish save runs streaming tk probeErr e))"
proof -
  obtain g t where tk: "tk = (g, t)" by fastforce
  show ?thesis
  proof (cases "currentTorrent e g")
    case (Some mt)
    define m where "m = (if healthProbe mt = Some (tk_id t) then mt\<lparr>healthProbe := None\<rparr> else mt)"
    have k: "keeps mt m" by (simp add: m_def)
    have in_e: "mt \<in> set (managedTorrents e)" using current_set[OF Some] by simp
    note put = engInv_putGen[OF assms in_e]
    let ?e1 = "putGen (reconcileSelectionLocked runs streaming m) e"
    obtain r e2 where e2: "grantSlot g ?e1 = (r, e2)" by fastforce
    have "engInv e2"
      using engInv_grantSlot[of ?e1 g] put[OF keeps_trans[OF k keeps_reconcile]] e2 by simp
    then have "engInv (snd (case grantSlot g ?e1 of (False, e') \<Rightarrow> (None, e') | (True, e') \<Rightarrow> prepareSlot streaming g e'))"
      using e2 engInv_prepareSlot by (simp split: bool.split)
    then show ?thesis
      using put[OF k] put[OF keeps_trans[OF k keeps_blockDownload]]
      unfolding tk ManageFinish_def prod.case Some option.case Let_def m_def[symmetric] by (simp split: option.split)
  qed (use assms tk in \<open>simp add: ManageFinish_def\<close>)
qed

text \<open>Registration and removal move generations between the three tables.\<close>

lemma registered_inv:
  assumes "applyStateEventLocked (registerEvent (rq_saved rq)) (newManagedTorrent g h rq) = Inr (d, mt')" "freshLib rq"
  shows "mtInv mt'" "\<not> slot (policy mt')" "sameGen (newManagedTorrent g h rq) mt'"
proof -
  let ?mt = "newManagedTorrent g h rq" and ?ev = "registerEvent (rq_saved rq)"
  have p0: "policy ?mt = zeroPolicy" and l0: "lib ?mt = rq_lib rq" by (simp_all add: newManagedTorrent_def)
  obtain n fx where *: "applyKind (policy ?mt) ?ev = Inr (n, fx)" "policy mt' = n" "lib mt' = lib ?mt"
    "sameGen ?mt mt'" "mirrors mt'" "runtimeTransition (policy ?mt) ?ev = Inr d" "d = decide n fx"
    using apply_Inr[OF assms(1)] by metis
  have kind: "ev_kind ?ev = stateRegistered" by (simp add: registerEvent_def split: option.split)
  then have act: "activate zeroPolicy ?ev = Inr (n, fx)" using *(1) p0 by (simp add: applyKind_def)
  obtain b where b: "activationBase zeroPolicy ?ev = Inr b"
    and n: "n = (activationPhase ?ev (b\<lparr>run := (if ev_phase ?ev = StatePaused then RunPaused else RunEnabled)\<rparr>))
            \<lparr>slot := False, payloadComplete := False\<rparr>"
    using activate_Inr[OF act] by blast
  show "\<not> slot (policy mt')" using *(2) n by simp
  show "sameGen ?mt mt'" by (rule *)
  have "uploadOk n" if "rq_saved rq = None"
    using b n that by (auto simp: registerEvent_def activationBase_def event_def zeroPolicy_def activationPhase_def
        uploadOk_def uploadEligible_def fault_def split: if_splits)
  moreover have "policyRun n" using policyRun_step[OF _ *(6)] *(7) p0 policyRun_zero by simp
  ultimately show "mtInv mt'"
    using *(2,3,5) l0 assms(2) by (auto simp: mtInv_def freshLib_def)
qed

lemma engInv_add:
  assumes "engInv e" "mtInv mt" "\<not> slot (policy mt)" "generation mt = nextGeneration e"
    "hash mt \<notin> hash ` set (generations e)" "raw mt \<notin> raw ` set (generations e)"
  shows "engInv (e\<lparr>nextGeneration := nextGeneration e + 1, registering := mt # registering e\<rparr>)"
  using assms by (auto simp: engInv_def generations_def slotCountLocked_def list_all_iff less_Suc_eq image_iff)

lemma engInv_discard:
  assumes "engInv e" "generation mt = nextGeneration e"
    "hash mt \<notin> hash ` set (generations e)" "raw mt \<notin> raw ` set (generations e)"
  shows "engInv (e\<lparr>nextGeneration := nextGeneration e + 1, detaching := mt # detaching e\<rparr>)"
  using assms by (auto simp: engInv_def generations_def slotCountLocked_def list_all_iff less_Suc_eq image_iff)

lemma engInv_registerBegin:
  assumes "engInv e" "freshLib rq"
  shows "engInv (snd (registerBegin rq e))"
proof -
  define h where "h = (case find (\<lambda>mt. raw mt = rq_raw rq) (managedTorrents e) of Some mt \<Rightarrow> hash mt | None \<Rightarrow> rq_hash rq)"
  let ?mt = "newManagedTorrent (nextGeneration e) h rq"
  have new: "(\<forall>x. applyStateEventLocked (registerEvent (rq_saved rq)) ?mt = Inl x \<longrightarrow>
        engInv (e\<lparr>nextGeneration := nextGeneration e + 1, detaching := ?mt # detaching e\<rparr>))
      \<and> (\<forall>d mt. applyStateEventLocked (registerEvent (rq_saved rq)) ?mt = Inr (d, mt) \<longrightarrow>
        engInv (e\<lparr>nextGeneration := nextGeneration e + 1, registering := mt # registering e\<rparr>))"
    if free: "\<not> list_ex (owns (rq_hash rq) rq) (detaching e)" "\<not> list_ex (owns (rq_hash rq) rq) (registering e)"
      and l: "lookup e h = None"
  proof -
    have fr: "find (\<lambda>mt. raw mt = rq_raw rq) (managedTorrents e) = None"
      using l by (auto simp: h_def lookup_def find_None_iff split: option.splits dest!: find_set)
    have hq: "h = rq_hash rq" by (simp add: h_def fr)
    moreover have "\<forall>m \<in> set (managedTorrents e). raw m \<noteq> rq_raw rq" using fr by (simp add: find_None_iff)
    ultimately have hashes: "h \<notin> hash ` set (generations e)" and raws: "rq_raw rq \<notin> raw ` set (generations e)"
      using free l by (auto simp: generations_def owns_def list_ex_iff lookup_def find_None_iff image_iff)
    have ids: "generation ?mt = nextGeneration e" "hash ?mt = h" "raw ?mt = rq_raw rq"
      by (simp_all add: newManagedTorrent_def)
    have "engInv (e\<lparr>nextGeneration := nextGeneration e + 1, registering := mt' # registering e\<rparr>)"
      if "applyStateEventLocked (registerEvent (rq_saved rq)) ?mt = Inr (d, mt')" for d mt'
      using engInv_add[OF assms(1) registered_inv(1,2)[OF that assms(2)]] registered_inv(3)[OF that assms(2)]
        ids hashes raws by (simp add: sameGen_def)
    then show ?thesis using engInv_discard[OF assms(1), of ?mt] ids hashes raws by simp
  qed
  have "engInv (putGen (if sourceURI mt = '''' \<and> rq_source rq \<noteq> '''' then mt\<lparr>sourceURI := rq_source rq\<rparr> else mt) e)"
    if "lookup e h = Some mt" for mt
    using assms(1) lookup_set[OF that] by (intro engInv_putGen) auto
  then show ?thesis
    using new assms(1) unfolding registerBegin_def Let_def h_def[symmetric]
    by (simp split: option.split sum.split prod.split)
qed

lemma distinct_move:
  assumes "distinct (map f (xs @ ys @ zs))" "x \<in> set xs" "f x' = f x" "\<not> P x"
  shows "distinct (map f (filter P xs @ ys @ x' # zs))"
proof -
  have "f x \<notin> f ` set (filter P xs)"
    using assms(1,2,4) by (auto simp: distinct_map inj_on_def)
  then show ?thesis using assms by (auto simp: distinct_map_filter)
qed

lemma slotCount_filter:
  "length (filter (\<lambda>mt. slot (policy mt)) (filter P mts)) \<le> length (filter (\<lambda>mt. slot (policy mt)) mts)"
  by (induction mts) auto

lemma engInv_moved:
  assumes "engInv e" "mt \<in> set (managedTorrents e)" "sameGen mt mt'"
  shows "engInv (e\<lparr>managedTorrents := filter (\<lambda>m. generation m \<noteq> generation mt) (managedTorrents e),
                   detaching := mt' # detaching e\<rparr>)"
proof (rule engInvI)
  let ?P = "\<lambda>m. generation m \<noteq> generation mt"
  let ?e = "e\<lparr>managedTorrents := filter ?P (managedTorrents e), detaching := mt' # detaching e\<rparr>"
  note inv = engInvD[OF assms(1), unfolded generations_def] and same = assms(3)[unfolded sameGen_def]
  show "distinct (map generation (generations ?e))" "distinct (map hash (generations ?e))" "distinct (map raw (generations ?e))"
    using distinct_move[OF inv(4) assms(2), of mt' ?P] distinct_move[OF inv(5) assms(2), of mt' ?P]
      distinct_move[OF inv(6) assms(2), of mt' ?P] same by (simp_all add: generations_def)
  show "generation m < nextGeneration ?e" if "m \<in> set (generations ?e)" for m
    using that inv(7) assms(2) same by (auto simp: generations_def)
  show "list_all mtInv (managedTorrents ?e)" using inv(1) by (simp add: list_all_iff)
  show "slotCountLocked ?e \<le> max 0 (maxActiveDownloads ?e)"
    using inv(8) slotCount_filter[of ?P "managedTorrents e"] by (simp add: slotCountLocked_def)
qed (use engInvD[OF assms(1)] in simp_all)

lemma sameGen_stop: "sameGen mt (stopGeneration k mt)" if "k \<noteq> stateSlotRequested"
  using keeps_terminal[OF _ that, of mt]
  by (auto simp: stopGeneration_def keeps_def sameGen_def split: sum.split prod.split)

lemma engInv_deleteBegin: "engInv e \<Longrightarrow> engInv (snd (deleteBegin h e))"
  using sameGen_stop[of stateDeleted "mt\<lparr>mtCancelled := True\<rparr>" for mt]
  by (auto simp: deleteBegin_def sameGen_def split: option.split dest!: lookup_set intro!: engInv_moved)

lemma engInv_detachFinish:
  assumes "engInv e"
  shows "engInv (detachFinish g e)"
proof (rule engInvI)
  note inv = engInvD[OF assms, unfolded generations_def]
  show "distinct (map generation (generations (detachFinish g e)))" "distinct (map hash (generations (detachFinish g e)))"
    "distinct (map raw (generations (detachFinish g e)))"
    using inv(4-6) by (auto simp: generations_def detachFinish_def distinct_map_filter)
  show "generation m < nextGeneration (detachFinish g e)" if "m \<in> set (generations (detachFinish g e))" for m
    using that inv(7) by (auto simp: generations_def detachFinish_def)
qed (use engInvD[OF assms] in \<open>simp_all add: detachFinish_def slotCountLocked_def\<close>)

lemma register_found:
  assumes "engInv e" "find (\<lambda>mt. generation mt = g) (registering e) = Some mt" "sameGen mt mt'"
  shows "distinct (map generation (mt' # managedTorrents e @ filter (\<lambda>m. generation m \<noteq> g) (registering e) @ detaching e))"
    "distinct (map hash (mt' # managedTorrents e @ filter (\<lambda>m. generation m \<noteq> g) (registering e) @ detaching e))"
    "distinct (map raw (mt' # managedTorrents e @ filter (\<lambda>m. generation m \<noteq> g) (registering e) @ detaching e))"
    "generation mt' < nextGeneration e" "mtInv mt" "\<not> slot (policy mt)"
proof -
  let ?P = "\<lambda>m. generation m \<noteq> g"
  note inv = engInvD[OF assms(1), unfolded generations_def] and same = assms(3)[unfolded sameGen_def]
  have mt: "mt \<in> set (registering e)" "generation mt = g" using find_set[OF assms(2)] by simp_all
  have move: "distinct (map f (mt' # managedTorrents e @ filter ?P (registering e) @ detaching e))"
    if "distinct (map f (managedTorrents e @ registering e @ detaching e))" "f mt' = f mt" for f :: "ManagedTorrent \<Rightarrow> 'a"
  proof -
    have "distinct (map f (registering e @ managedTorrents e @ detaching e))" using that(1) by auto
    from distinct_move[OF this mt(1) that(2), of ?P] show ?thesis using mt(2) by auto
  qed
  show "distinct (map generation (mt' # managedTorrents e @ filter ?P (registering e) @ detaching e))"
    "distinct (map hash (mt' # managedTorrents e @ filter ?P (registering e) @ detaching e))"
    "distinct (map raw (mt' # managedTorrents e @ filter ?P (registering e) @ detaching e))"
    using move[OF inv(4)] move[OF inv(5)] move[OF inv(6)] same by blast+
  show "generation mt' < nextGeneration e" using inv(7) mt same by auto
  show "mtInv mt" "\<not> slot (policy mt)" using inv(2,3) mt(1) by (simp_all add: list_all_iff)
qed

lemma registerFinish_detach:
  assumes "engInv e" "find (\<lambda>mt. generation mt = g) (registering e) = Some mt" "sameGen mt mt'"
  shows "engInv (e\<lparr>registering := filter (\<lambda>m. generation m \<noteq> g) (registering e), detaching := mt' # detaching e\<rparr>)" (is "engInv ?e")
proof (rule engInvI)
  note inv = engInvD[OF assms(1), unfolded generations_def] and found = register_found[OF assms]
  show "distinct (map generation (generations ?e))" "distinct (map hash (generations ?e))" "distinct (map raw (generations ?e))"
    using found(1-3) by (auto simp: generations_def)
  show "generation m < nextGeneration ?e" if "m \<in> set (generations ?e)" for m
    using that inv(7) found(4) by (auto simp: generations_def)
qed (use engInvD[OF assms(1)] in \<open>simp_all add: list_all_iff slotCountLocked_def\<close>)

lemma registerFinish_publish:
  assumes "engInv e" "find (\<lambda>mt. generation mt = g) (registering e) = Some mt"
  shows "engInv (e\<lparr>registering := filter (\<lambda>m. generation m \<noteq> g) (registering e), managedTorrents := mt # managedTorrents e\<rparr>)" (is "engInv ?e")
proof (rule engInvI)
  note inv = engInvD[OF assms(1), unfolded generations_def] and found = register_found[OF assms, of mt]
  show "distinct (map generation (generations ?e))" "distinct (map hash (generations ?e))" "distinct (map raw (generations ?e))"
    using found(1-3) by (simp_all add: generations_def sameGen_def)
  show "generation m < nextGeneration ?e" if "m \<in> set (generations ?e)" for m
    using that inv(7) found(4) by (auto simp: generations_def sameGen_def)
qed (use engInvD[OF assms(1)] register_found(5,6)[OF assms, of mt] in
      \<open>simp_all add: list_all_iff slotCountLocked_def sameGen_def\<close>)

lemma engInv_registerFinish: "engInv e \<Longrightarrow> engInv (snd (registerFinish g persistOk e))"
  by (auto simp: registerFinish_def Let_def split: option.split
      intro!: registerFinish_detach registerFinish_publish simp: sameGen_def)

lemma engInv_closeTorrents: "engInv e \<Longrightarrow> engInv (closeTorrents e)"
proof -
  assume "engInv e"
  have "keeps m (stopGeneration stateClosed m)" for m
    using keeps_terminal[of stateClosed m] by (simp add: stopGeneration_def split: sum.split prod.split)
  then show ?thesis
    using engInv_map[of "e\<lparr>ctxDone := True\<rparr>" "stopGeneration stateClosed"] \<open>engInv e\<close>
    by (simp add: closeTorrents_def BeginShutdown_def)
qed

lemma engInv_libraryStep:
  assumes "engInv e" "closing f"
  shows "engInv (libraryStep g f e)"
proof -
  let ?h = "\<lambda>m. if generation m = g then onLib f m else m"
  have k: "keeps m (?h m)" for m using keeps_onLib[OF assms(2)] by simp
  let ?e1 = "e\<lparr>managedTorrents := map ?h (managedTorrents e)\<rparr>"
  note inv = engInvD[OF engInv_map[OF assms(1) k]]
  have r: "mtInv (?h m) \<and> \<not> slot (policy (?h m))" if "m \<in> set (registering e)" for m
    using k[of m] that engInvD(2,3)[OF assms(1)] unfolding keeps_def list_all_iff by blast
  have reg: "registering (libraryStep g f e) = map ?h (registering e)" by (simp add: libraryStep_def)
  have ids: "map generation (generations (libraryStep g f e)) = map generation (generations e)"
    "map hash (generations (libraryStep g f e)) = map hash (generations e)"
    "map raw (generations (libraryStep g f e)) = map raw (generations e)"
    by (auto simp: generations_def libraryStep_def)
  show ?thesis
  proof (rule engInvI)
    show "distinct (map generation (generations (libraryStep g f e)))" "distinct (map hash (generations (libraryStep g f e)))"
      "distinct (map raw (generations (libraryStep g f e)))"
      using engInvD(4-6)[OF assms(1)] by (simp_all only: ids)
    show "generation m < nextGeneration (libraryStep g f e)" if "m \<in> set (generations (libraryStep g f e))" for m
      using that engInvD(7)[OF assms(1)] by (auto simp: generations_def libraryStep_def)
    show "list_all mtInv (registering (libraryStep g f e))" "list_all (\<lambda>mt. \<not> slot (policy mt)) (registering (libraryStep g f e))"
      unfolding reg list_all_iff set_map ball_simps(9) using r by blast+
  qed (use inv in \<open>simp_all add: libraryStep_def slotCountLocked_def\<close>)
qed

lemma closing_library [simp, intro]: "closing (gotInfo fs len)" "closing (\<lambda>t. t\<lparr>libClosed := b\<rparr>)"
  by (simp_all add: closing_def gotInfo_def)

lemma activated_eq: "ev_kind ev = stateActivated \<Longrightarrow> ev\<lparr>ev_kind := stateActivated\<rparr> = ev"
  by (cases ev) simp

lemma engInv_FinishRestoreActivate:
  assumes "engInv e" "ev_kind (fst (snd tk)) = stateActivated"
  shows "engInv (snd (FinishRestoreActivate safety metadataOk mergeOk tk e))"
proof -
  obtain g ev w where tk: "tk = (g, ev, w)" by (cases tk)
  have ev: "ev\<lparr>ev_kind := stateActivated\<rparr> = ev" using assms(2) tk by (simp add: activated_eq)
  show ?thesis
    using restoreOp.with_current[OF assms(1), where ev = ev, unfolded ev] by (simp add: FinishRestoreActivate_def tk)
qed

lemma engInv_FinishRestoreManual:
  assumes "engInv e" "ev_kind (fst (snd tk)) = stateActivated"
  shows "engInv (snd (FinishRestoreManual save safety probeErr mergeOk tk e))"
proof -
  obtain g ev w v where tk: "tk = (g, ev, w, v)" by (cases tk)
  have ev: "ev\<lparr>ev_kind := stateActivated, ev_diskRecovered := True\<rparr> = ev\<lparr>ev_diskRecovered := True\<rparr>"
    using assms(2) tk by (simp add: activated_eq)
  show ?thesis
    using manualOp.with_current[OF assms(1), where ev = ev, unfolded ev] by (simp add: FinishRestoreManual_def tk)
qed

lemma engInv_StartRecheck: "engInv e \<Longrightarrow> engInv (snd (StartRecheck save save' active admitted h e))"
  by (auto simp: StartRecheck_def Let_def recheckOp.with_hash split: option.split)

lemmas engInv_ops = engInv_finishVerification engInv_startVerificationTask engInv_ResumeBegin engInv_FinishRestoreProbe
  engInv_AdmitBegin engInv_captureObservation engInv_PayloadWriteError engInv_RefreshPeerDiscovery
  engInv_RememberExpectedPayload engInv_ManageProbe engInv_ManageFinish engInv_registerBegin engInv_registerFinish
  engInv_deleteBegin engInv_detachFinish engInv_closeTorrents engInv_FinishRestoreActivate engInv_FinishRestoreManual
  engInv_StartRecheck

lemma engInv_command:
  assumes "engInv e"
  shows "engInv (snd (Pause h e))" "engInv (snd (ReconcilePausedIntent saved e))"
    "engInv (snd (stageExistingRestore saved e))" "engInv (snd (setFilePriority safety h i p e))"
    "engInv (snd (setTorrentFilesPriority safety h p e))" "engInv (snd (setFilePriorities safety h ps e))"
    "engInv (SetQueuePosition h position e)" "engInv (restoreBasePriorities save h e)" "engInv (snd (restoreVerificationBlock h e))"
    "engInv (snd (VerifyInactive save save' h e))" "engInv (snd (ResumeFinish save safety rtk probeErr e))"
    "engInv (snd (AdmitFinish save safety atk probeErr metadataOk e))"
    "engInv (snd (CheckPayloadAdmission h e))" "engInv (snd (DetectMissingFinish safety dtk absent e))"
    "engInv (snd (ManageAdmit save safety streaming stk probeErr metadataOk e))" "engInv (BeginShutdown e)"
    "engInv (snd (BindRuntime save saveBlocks expected fence applied e))" "engInv (snd (failIntentApply expected v code e))"
  using assms
  by (simp_all add: Pause_def ReconcilePausedIntent_def stageExistingRestore_def setFilePriority_def checkCtx_def
      setTorrentFilesPriority_def setFilePriorities_def SetQueuePosition_def restoreVerificationBlock_def
      VerifyInactive_def ResumeFinish_def AdmitFinish_def CheckPayloadAdmission_def DetectMissingFinish_def ManageAdmit_def
      BeginShutdown_def BindRuntime_def failIntentApply_def pauseOp.with_hash stageOp.with_hash priorityOp.with_hash
      allPriorityOp.with_hash selectionOp.with_hash queueOp.with_hash restoreBasePriorities_def baseOp.with_hash restoreBlockOp.with_hash inactiveOp.with_hash
      resumeOp.with_current admitOp.with_current missingOp.with_current scheduleOp.with_current bindOp.with_hash
      failIntentOp.with_hash engInv_AdmitBegin Let_def split: prod.split option.split)

lemma engInv_step: "estep e e' \<Longrightarrow> engInv e \<Longrightarrow> engInv e'"
  by (induction rule: estep.induct) (simp_all add: engInv_command engInv_ops engInv_libraryStep)

lemma engInv_new: "engInv (newEngine maxActive noUpload)"
  by (simp add: engInv_def newEngine_def generations_def slotCountLocked_def)

lemma engInv_reachable: "reachable maxActive noUpload e \<Longrightarrow> engInv e"
  by (induction rule: reachable.induct) (auto intro: engInv_new engInv_step)

section \<open>The scheduler's head\<close>

lemma strLess_order:
  "\<not> strLess a a" "strLess a b \<Longrightarrow> strLess b c \<Longrightarrow> strLess a c" "a \<noteq> b \<Longrightarrow> strLess a b \<or> strLess b a"
  unfolding strLess_def
  by (auto simp: lexordp_irreflexive' dest: lexordp_trans) (metis lexordp_linear)

text \<open>The order the scheduler promises: queued positions first and in order, then the time of
  addition, then the hash.\<close>

definition queueFirst :: "ManagedTorrent \<Rightarrow> ManagedTorrent \<Rightarrow> bool" where
  "queueFirst a b \<longleftrightarrow> queuePosition a > 0 \<and> (queuePosition b \<le> 0 \<or> queuePosition a < queuePosition b)"

definition precedes :: "ManagedTorrent \<Rightarrow> ManagedTorrent \<Rightarrow> bool" where
  "precedes a b \<longleftrightarrow>
     queueFirst a b \<or> \<not> queueFirst b a \<and> (addedAt a < addedAt b \<or> addedAt a = addedAt b \<and> strLess (hash a) (hash b))"

lemma before_precedes: "before a b = precedes a b"
  unfolding before_def precedes_def queueFirst_def Let_def by auto

lemma before_irrefl: "\<not> before a a"
  by (simp add: before_def Let_def strLess_order)

lemma before_trans: "before a b \<Longrightarrow> before b c \<Longrightarrow> before a c"
  unfolding before_def Let_def by (auto split: if_splits intro: strLess_order(2))

lemma before_total: "hash a \<noteq> hash b \<Longrightarrow> before a b \<or> before b a"
  unfolding before_def Let_def using strLess_order(3) by (auto split: if_splits)

definition headOf :: "ManagedTorrent set \<Rightarrow> ManagedTorrent option \<Rightarrow> bool" where
  "headOf ms f \<longleftrightarrow>
     (case f of None \<Rightarrow> \<forall>m\<in>ms. \<not> waiting m
      | Some f \<Rightarrow> f \<in> ms \<and> waiting f \<and> (\<forall>m\<in>ms. waiting m \<longrightarrow> m = f \<or> before f m))"

lemma headOf_unique:
  assumes "headOf ms f" "headOf ms f'"
  shows "f = f'"
proof (cases f)
  case None
  then show ?thesis using assms by (cases f') (auto simp: headOf_def)
next
  case (Some a)
  then obtain b where b: "f' = Some b" using assms by (cases f') (auto simp: headOf_def)
  have "a = b \<or> before a b" "b = a \<or> before b a" using assms Some b by (auto simp: headOf_def)
  then show ?thesis using Some b before_trans before_irrefl by blast
qed

lemma headOf_step:
  assumes "headOf ms f" "inj_on hash (insert mt ms)"
  shows "headOf (insert mt ms) (headStep mt f)"
proof (cases f)
  case None
  then show ?thesis using assms by (auto simp: headOf_def headStep_def)
next
  case (Some a)
  then have a: "a \<in> ms" "waiting a" "\<forall>m\<in>ms. waiting m \<longrightarrow> m = a \<or> before a m"
    using assms(1) by (simp_all add: headOf_def)
  have "mt = a \<or> before mt a \<or> before a mt"
    using before_total[of mt a] assms(2) a(1) by (auto simp: inj_on_def)
  then show ?thesis
    using a Some before_trans[of mt a] before_irrefl by (auto simp: headOf_def headStep_def)
qed

lemma headOf_fold:
  assumes "headOf ms f" "inj_on hash (set mts \<union> ms)"
  shows "headOf (set mts \<union> ms) (fold headStep mts f)"
  using assms
proof (induction mts arbitrary: ms f)
  case (Cons mt mts)
  have "headOf (insert mt ms) (headStep mt f)"
    using Cons.prems by (intro headOf_step) (auto elim: inj_on_subset)
  from Cons.IH[OF this] show ?case using Cons.prems(2) by simp
qed simp

lemma schedulerHead_spec:
  assumes "inj_on hash (set mts)"
  shows "headOf (set mts) (schedulerHead mts)"
  using headOf_fold[of "{}" None mts] assms by (simp add: schedulerHead_def headOf_def)

lemma engInv_hash_inj: "engInv e \<Longrightarrow> inj_on hash (set (managedTorrents e))"
  using engInvD(5)[of e] by (auto simp: generations_def distinct_map)

section \<open>Properties\<close>

text \<open>C2: the download gate is safe. In every engine that any interleaving of commands, scheduler
  passes, verifications, restores, library callbacks and shutdown can reach, a managed torrent
  whose download gate is open has a policy that allows payload (registered, running, not
  initializing, not being checked, certain, no disk block and no fault) and no write error is
  latched in the library.\<close>

theorem download_gate_safe:
  assumes "reachable maxActive noUpload e" "mt \<in> set (managedTorrents e)" "DataDownloadAllowed (lib mt)"
  shows "payloadEligible (policy mt) \<and> lastWriteChunkErr (lib mt) = None"
  using engInv_reachable[OF assms(1)] assms(2,3)
  by (auto simp: engInv_def list_all_iff mtInv_def DataDownloadAllowed_def)

text \<open>C4: the scheduler never oversubscribes. In every reachable engine the number of torrents that
  hold a download slot is at most the configured number of active downloads.\<close>

theorem slots_bounded:
  assumes "reachable maxActive noUpload e"
  shows "slotCountLocked e \<le> max 0 (maxActiveDownloads e)"
  by (rule engInvD(8)[OF engInv_reachable[OF assms]])

text \<open>C10: slots are granted in FIFO order. When a scheduler pass grants a slot, there was a free one,
  the torrent was waiting, and it comes before every other waiting torrent in the order of queue
  position, time of addition and hash. Which torrent is at the head does not depend on the order
  in which the Go map is iterated.\<close>

theorem slot_grant_is_fifo:
  assumes "reachable maxActive noUpload e" "currentTorrent e g = Some mt" "\<not> slot (policy mt)"
    "grantSlot g e = (True, e')"
  shows "slotCountLocked e < maxActiveDownloads e \<and> waiting mt
    \<and> (\<forall>m\<in>set (managedTorrents e). waiting m \<longrightarrow> m = mt \<or> precedes mt m)
    \<and> (\<forall>mts. set mts = set (managedTorrents e) \<longrightarrow> schedulerHead mts = schedulerHeadLocked e)"
proof -
  note inv = engInv_reachable[OF assms(1)] and inj = engInv_hash_inj[OF engInv_reachable[OF assms(1)]]
  let ?av = "slotCountLocked e < maxActiveDownloads e \<and> map_option generation (schedulerHeadLocked e) = Some g"
  obtain d mt' where a: "applyStateEventLocked (requestEvent ?av) mt = Inr (d, mt')"
    using assms(2-4) by (auto simp: grantSlot_def Let_def split: sum.splits prod.splits)
  then obtain f where f: "schedulerHeadLocked e = Some f" "generation f = g" and c: "slotCountLocked e < maxActiveDownloads e"
    using requested(1)[OF a] by auto
  have head: "headOf (set (managedTorrents e)) (Some f)"
    using schedulerHead_spec[OF inj] f(1) by (simp add: schedulerHeadLocked_def)
  have "f = mt"
    using head f(2) current_set[OF assms(2)] engInvD(4)[OF inv]
    by (auto simp: headOf_def generations_def distinct_map inj_on_def)
  moreover have "schedulerHead mts = schedulerHeadLocked e" if "set mts = set (managedTorrents e)" for mts
    using headOf_unique[OF schedulerHead_spec[of mts]] schedulerHead_spec[OF inj] inj that
    by (simp add: schedulerHeadLocked_def)
  ultimately show ?thesis using head c by (auto simp: headOf_def before_precedes)
qed

text \<open>C29: the tables of the engine are well formed. In every reachable engine no hash, no library
  torrent and no generation number occurs twice among the managed, the registering and the
  detaching generations: a torrent is never registered twice, and never again before its deleted
  generation has been dropped.\<close>

theorem namespace_well_formed:
  assumes "reachable maxActive noUpload e"
  shows "distinct (map hash (managedTorrents e @ registering e @ detaching e))
    \<and> distinct (map raw (managedTorrents e @ registering e @ detaching e))
    \<and> distinct (map generation (managedTorrents e @ registering e @ detaching e))"
  using engInvD(4-6)[OF engInv_reachable[OF assms]] by (simp add: generations_def)

text \<open>C12: the engine refines the policy machine. In every reachable engine the policy of a managed
  torrent is one that a sequence of policy events produces from the zero value, and every field
  copied for transport and diagnostics is the projection of that policy.\<close>

theorem engine_refines_policy:
  assumes "reachable maxActive noUpload e" "mt \<in> set (managedTorrents e)"
  shows "(\<exists>evs. policy mt = fold policyStep evs zeroPolicy)
    \<and> (mt_state mt, mt_err mt) = projection (policy mt)
    \<and> rechecking mt = isChecking (policy mt) \<and> verificationUncertain mt = uncertain (policy mt)
    \<and> mt_initializing mt = initializing (policy mt) \<and> downloadBlock mt = disk (policy mt)
    \<and> mt_selectionComplete mt = selectedComplete (policy mt) \<and> mt_terminal mt = terminal (policy mt)"
  using engInv_reachable[OF assms(1)] assms(2)
  by (simp add: engInv_def list_all_iff mtInv_def mirrors_def policyRun_def)

text \<open>C33: the upload gate is safe up to Resume. In every reachable engine a managed torrent whose
  upload gate is open has a policy that would allow uploads if it had no verification fault.\<close>

theorem upload_gate_safe:
  assumes "reachable maxActive noUpload e" "mt \<in> set (managedTorrents e)" "\<not> dataUploadDisallowed (lib mt)"
  shows "uploadEligible ((policy mt)\<lparr>verificationFault := False\<rparr>)"
  using engInv_reachable[OF assms(1)] assms(2,3)
  by (auto simp: engInv_def list_all_iff mtInv_def uploadOk_def)

section \<open>Concrete runs and further properties\<close>

lemma reachable_exRegistered: "reachable 1 False exRegistered"
  unfolding exRegistered_def
  by (intro reachable.step[OF reachable.step[OF reachable.start register1] register2])
     (simp add: freshLib_def exRequest_def exLib_def)

lemma reachable_exProbed: "reachable 1 False exProbed"
  unfolding exProbed_def by (rule reachable.step[OF reachable_exRegistered probe1])

lemma reachable_exOpen: "reachable 1 False exOpen"
  unfolding exOpen_def exPrepared_def by (rule reachable.step[OF reachable.step[OF reachable_exProbed probe2] scheduled])

theorem download_gate_safe_witness:
  "reachable 1 False exOpen \<and> payloadEligible (policy (hd (managedTorrents exOpen)))
   \<and> DataDownloadAllowed (lib (hd (managedTorrents exOpen)))"
proof -
  have "hd (managedTorrents exOpen) \<in> set (managedTorrents exOpen)" "DataDownloadAllowed (lib (hd (managedTorrents exOpen)))"
    by (rule list.set_sel, code_simp, code_simp)
  then show ?thesis using download_gate_safe[OF reachable_exOpen] reachable_exOpen by blast
qed

theorem slots_bounded_witness: "slotCountLocked exOpen \<le> max 0 (maxActiveDownloads exOpen)"
  by (rule slots_bounded[OF reachable_exOpen])

theorem slot_grant_is_fifo_witness:
  "slotCountLocked exProbed < maxActiveDownloads exProbed \<and> waiting (hd (managedTorrents exProbed))"
proof -
  have "currentTorrent exProbed 0 = Some (hd (managedTorrents exProbed))" "\<not> slot (policy (hd (managedTorrents exProbed)))"
    "fst (grantSlot 0 exProbed)" by code_simp+
  then show ?thesis
    using slot_grant_is_fifo[OF reachable_exProbed, of 0 "hd (managedTorrents exProbed)" "snd (grantSlot 0 exProbed)"]
    by (cases "grantSlot 0 exProbed") simp
qed

theorem namespace_well_formed_witness: "distinct (map hash (managedTorrents exOpen @ registering exOpen @ detaching exOpen))"
  using namespace_well_formed[OF reachable_exOpen] by blast

theorem engine_refines_policy_witness:
  "mt_state (hd (managedTorrents exOpen)) = fst (projection (policy (hd (managedTorrents exOpen))))"
proof -
  have "hd (managedTorrents exOpen) \<in> set (managedTorrents exOpen)" by (rule list.set_sel) code_simp
  from engine_refines_policy[OF reachable_exOpen this] show ?thesis by (metis fst_conv)
qed

theorem upload_gate_safe_witness:
  "uploadEligible ((policy (hd (managedTorrents exOpen)))\<lparr>verificationFault := False\<rparr>)"
proof -
  have "hd (managedTorrents exOpen) \<in> set (managedTorrents exOpen)" "\<not> dataUploadDisallowed (lib (hd (managedTorrents exOpen)))"
    by (rule list.set_sel, code_simp, code_simp)
  then show ?thesis by (rule upload_gate_safe[OF reachable_exOpen])
qed

lemma restore_begin_kind: "FinishRestoreBegin h state e = Inr tk \<Longrightarrow> ev_kind (fst (snd tk)) = stateActivated"
  by (auto simp: FinishRestoreBegin_def finishRestoreBegin_def Let_def event_def split: if_splits option.splits sum.splits prod.splits)

lemma reachable_exResumed: "reachable 1 False exResumed"
proof -
  have f: "reachable 1 False exFaulty"
    unfolding exFaulty_def
    by (intro reachable.step[OF reachable.step[OF reachable.start register1] register2])
       (simp add: freshLib_def exRequest_def exLib_def)
  have "reachable 1 False exRestored"
    unfolding exRestored_def
    using reachable.step[OF f restore2] restore_begin_kind f by (auto split: sum.split)
  then show ?thesis
    unfolding exResumed_def using reachable.step[OF reachable.step[OF _ resume1[of exRestored "''aa''"]] resume2]
      reachable.step[OF _ resume1[of exRestored "''aa''"]]
    by (auto split: prod.split sum.split)
qed

text \<open>C39: Resume opens the upload gate without asking the policy: a torrent restored with a verification
  fault, whose upload gate the restore kept closed, uploads again after Resume although its policy
  still forbids uploads.\<close>

theorem resume_ignores_verification_fault:
  "reachable 1 False exResumed
   \<and> (let before = hd (managedTorrents exRestored); after = hd (managedTorrents exResumed) in
      dataUploadDisallowed (lib before) \<and> \<not> dataUploadDisallowed (lib after)
      \<and> verificationFault (policy after) \<and> \<not> uploadEligible (policy after))"
proof
  show "let before = hd (managedTorrents exRestored); after = hd (managedTorrents exResumed) in
      dataUploadDisallowed (lib before) \<and> \<not> dataUploadDisallowed (lib after)
      \<and> verificationFault (policy after) \<and> \<not> uploadEligible (policy after)" by code_simp
qed (rule reachable_exResumed)

lemma closed_updates:
  "dataDownloadDisallowed (lib mt) \<Longrightarrow> dataDownloadDisallowed (lib (snd (persistSafetyFaultLocked save k mt)))"
  "dataDownloadDisallowed (lib mt) \<Longrightarrow> dataDownloadDisallowed (lib (applyQuiesceLocked d mt))"
  by (simp_all add: persistSafetyFaultLocked_def applyQuiesceLocked_def Let_def lib_defs split: option.split)

lemma closed_quiesceFault:
  assumes "dataDownloadDisallowed (lib mt)"
  shows "dataDownloadDisallowed (lib (snd (quiesceFault save k mt)))"
proof (cases "applyStateEventLocked (event k) mt")
  case (Inr x)
  obtain d m where x: "x = (d, m)" by fastforce
  have "lib m = lib mt" using apply_Inr[OF Inr[unfolded x]] by metis
  then show ?thesis using assms Inr x by (simp add: quiesceFault_def closed_updates)
qed (use assms in \<open>simp add: quiesceFault_def\<close>)

lemma closed_blockAndReport:
  assumes "dataDownloadDisallowed (lib mt)"
  shows "dataDownloadDisallowed (lib (snd (blockAndReport save reason mt)))"
proof -
  have "dataDownloadDisallowed (lib (snd (blockDownload save reason mt)))"
    using assms by (simp add: blockDownload_def Let_def lib_defs split: sum.split prod.split callback.split)
  then show ?thesis by (auto simp: blockAndReport_def split: prod.split option.split)
qed

lemma blockAndReport_fails: "fst (blockAndReport save reason mt) \<noteq> None"
  by (simp add: blockAndReport_def split: prod.split option.split)

lemma closed_install: "dataDownloadDisallowed (installPriorities p ps t) = dataDownloadDisallowed t"
  by (simp add: installPriorities_def split: option.split)

lemma closed_applied:
  assumes "applyFilePrioritiesAndDownload save mt = (r, mt')" "dataDownloadDisallowed (lib mt)"
  shows "dataDownloadDisallowed (lib mt')"
proof -
  have "dataDownloadDisallowed (lib (snd (applyFilePrioritiesAndDownload save mt)))"
  proof (cases "applyStateEventLocked (event stateSelectionInvalid) mt")
    case (Inr x)
    obtain d m where x: "x = (d, m)" by fastforce
    have "lib m = lib mt" using apply_Inr[OF Inr[unfolded x]] by metis
    then show ?thesis
      using assms(2) Inr x by (simp add: applyFilePrioritiesAndDownload_def Let_def closed_updates closed_install)
  qed (use assms(2) in \<open>simp add: applyFilePrioritiesAndDownload_def Let_def closed_install\<close>)
  then show ?thesis using assms(1) by simp
qed

text \<open>C16: admission is fenced. Opening the gate succeeds only with the very ticket that was reserved,
  while the policy epoch, the runtime binding and the slot reservation are those captured before
  the unlocked disk probe, the policy still allows payload, the probe found no problem and the
  metadata is saved. A failed attempt opens nothing.\<close>

theorem admission_is_fenced:
  assumes "admitFinish save safety tk probeErr metadataOk mt = (r, mt')"
  shows "(r = None \<longrightarrow>
      policyEpoch mt = tk_epoch tk \<and> runtimeFence mt = tk_fence tk \<and> slotToken mt = tk_slot tk
      \<and> preparation mt = Some (tk_id tk) \<and> payloadEligible (policy mt) \<and> probeErr = None \<and> metadataOk
      \<and> policy mt' = policy mt \<and> \<not> dataDownloadDisallowed (lib mt'))
    \<and> (r \<noteq> None \<and> dataDownloadDisallowed (lib mt) \<longrightarrow> dataDownloadDisallowed (lib mt'))"
proof -
  define m where "m = (if preparation mt = Some (tk_id tk) then mt\<lparr>preparation := None\<rparr> else mt)"
  have m: "lib m = lib mt" "policy m = policy mt" by (simp_all add: m_def)
  let ?valid = "policyEpoch mt = tk_epoch tk \<and> runtimeFence mt = tk_fence tk \<and> payloadEligible (policy mt)
                   \<and> slotToken mt = tk_slot tk \<and> preparation mt = Some (tk_id tk)"
  have eq: "(r, mt') = (if \<not> ?valid then (Some OperationConflict, m)
         else case probeErr of
           Some reason \<Rightarrow> blockAndReport save reason m
         | None \<Rightarrow>
            if \<not> metadataOk then (Some (MetadataFailed ''save metainfo''), snd (quiesceFault safety stateMetadataFailed m))
            else case applyFilePrioritiesAndDownload safety m of
              (Some e, mt) \<Rightarrow> (Some e, mt)
            | (None, mt) \<Rightarrow>
               (case AllowDataDownloadIfNoWriteError (lib mt) of
                  Inl e \<Rightarrow> blockAndReport save (writeErrorReason e) mt
                | Inr t \<Rightarrow> (None, mt\<lparr>lib := t\<rparr>)))"
    using assms unfolding admitFinish_def Let_def m_def by simp
  consider "\<not> ?valid" | reason where "?valid" "probeErr = Some reason" | "?valid" "probeErr = None" "\<not> metadataOk"
    | "?valid" "probeErr = None" "metadataOk" by auto
  then show ?thesis
  proof cases
    case 2
    obtain r2 m2 where b: "blockAndReport save reason m = (r2, m2)" by fastforce
    then have "r2 \<noteq> None" "dataDownloadDisallowed (lib m) \<Longrightarrow> dataDownloadDisallowed (lib m2)"
      using closed_blockAndReport[of m save reason] blockAndReport_fails[of save reason m] by simp_all
    moreover have "(r, mt') = (r2, m2)" using eq 2 b by simp
    ultimately show ?thesis using m by auto
  next
    case 3
    then show ?thesis using eq m closed_quiesceFault[of m] by simp
  next
    case 4
    obtain r1 m1 where r1: "applyFilePrioritiesAndDownload safety m = (r1, m1)" by fastforce
    have p: "r1 = None \<Longrightarrow> policy m1 = policy mt" using applyFilePriorities_policy(1)[of safety m m1] r1 m by simp
    have c: "dataDownloadDisallowed (lib mt) \<Longrightarrow> dataDownloadDisallowed (lib m1)" using closed_applied[OF r1] m by simp
    show ?thesis
    proof (cases "r1 = None")
      case True
      show ?thesis
      proof (cases "AllowDataDownloadIfNoWriteError (lib m1)")
        case (Inl e)
        obtain r2 m2 where b: "blockAndReport save (writeErrorReason e) m1 = (r2, m2)" by fastforce
        then have "r2 \<noteq> None" "dataDownloadDisallowed (lib m1) \<Longrightarrow> dataDownloadDisallowed (lib m2)"
          using closed_blockAndReport[of m1 save "writeErrorReason e"] blockAndReport_fails[of save "writeErrorReason e" m1]
          by simp_all
        moreover have "(r, mt') = (r2, m2)" using eq 4 r1 True Inl b by simp
        ultimately show ?thesis using c by auto
      next
        case (Inr t)
        then have "\<not> dataDownloadDisallowed t"
          by (auto simp: AllowDataDownloadIfNoWriteError_def split: if_splits option.splits)
        then show ?thesis using eq 4 r1 True p Inr by simp
      qed
    qed (use eq 4 r1 c in auto)
  qed (use eq m in simp)
qed

theorem admission_is_fenced_witness:
  "let mt = hd (managedTorrents exPrepared);
       tk = \<lparr>tk_id = 1, tk_epoch = policyEpoch mt, tk_fence = runtimeFence mt, tk_slot = slotToken mt\<rparr>;
       r = admitFinish Unset Unset tk None True mt
   in fst r = None \<and> \<not> dataDownloadDisallowed (lib (snd r))"
proof -
  let ?mt = "hd (managedTorrents exPrepared)"
  let ?tk = "\<lparr>tk_id = 1, tk_epoch = policyEpoch ?mt, tk_fence = runtimeFence ?mt, tk_slot = slotToken ?mt\<rparr>"
  have "fst (admitFinish Unset Unset ?tk None True ?mt) = None" by code_simp
  then show ?thesis
    using admission_is_fenced[of Unset Unset ?tk None True ?mt None "snd (admitFinish Unset Unset ?tk None True ?mt)"]
    by (simp add: Let_def prod_eq_iff)
qed

text \<open>A verification attempt completes once. A completion that carries another attempt, or comes
  when no attempt is current, changes nothing; an accepted completion ends the attempt, so a
  second completion of it is ignored.\<close>

lemma attempts_complete_once:
  "(map_option at_id (currentAttempt mt) \<noteq> Some attempt \<longrightarrow>
      completeVerification noUpload save attempt err mt = (False, mt))
   \<and> (completeVerification noUpload save attempt err mt = (True, mt') \<longrightarrow>
      currentAttempt mt' = None
      \<and> completeVerification noUpload' save' attempt' err' mt' = (False, mt'))"
proof -
  have "currentAttempt mt' = None" if "completeVerification noUpload save attempt err mt = (True, mt')"
    using that
    by (auto simp: completeVerification_def Let_def onLib_def split: option.splits if_splits sum.splits prod.splits)
  then show ?thesis by (auto simp: completeVerification_def split: option.splits)
qed

lemma attempts_complete_once_example:
  "completeVerification False Unset 3 None (hd (managedTorrents exOpen)) = (False, hd (managedTorrents exOpen))"
proof -
  have "currentAttempt (hd (managedTorrents exOpen)) = None" by code_simp
  then have "map_option at_id (currentAttempt (hd (managedTorrents exOpen))) \<noteq> Some 3" by simp
  then show ?thesis by (rule conjunct1[OF attempts_complete_once, THEN mp])
qed

end
