(* ===== verification/StreamSafety.thy ===== *)
theory StreamSafety
  imports StreamManager EngineSafety
begin

text \<open>
  What the stream manager promises: the counters of every file state count its sessions, channels
  are closed at most once, no state or direct handle outlives the generation it streams, and the
  piece priorities a refresh publishes are those of the remaining sessions.
\<close>

section \<open>Invariant of the manager\<close>

definition stInv :: "StreamState \<Rightarrow> bool" where
  "stInv st \<longleftrightarrow>
     ActiveStreams st = int (length (filter (\<lambda>x. \<not> Preload x) (Sessions st)))
     \<and> ActivePreloads st = int (length (filter Preload (Sessions st)))
     \<and> (DebounceTimer st \<longrightarrow> Sessions st = [])"

definition ids :: "(FileKey \<times> StreamState) list \<Rightarrow> int list" where
  "ids sts = concat (map (\<lambda>(k, st). map sessionID (Sessions st)) sts)"

text \<open>Names in use are fresh: distinct, already issued, and their channels still open.\<close>

definition openNames :: "int list \<Rightarrow> int \<Rightarrow> int list \<Rightarrow> bool" where
  "openNames used issued done \<longleftrightarrow>
     distinct used \<and> (\<forall>i\<in>set used. 0 < i \<and> i \<le> issued \<and> i \<notin> set done) \<and> (\<forall>i\<in>set done. i \<le> issued) \<and> 0 \<le> issued"

definition smInv :: "StreamManager \<Rightarrow> bool" where
  "smInv m \<longleftrightarrow>
     distinct (map fst (states m)) \<and> length (states m) \<le> maxStates
     \<and> list_all (\<lambda>(k, st). stInv st) (states m)
     \<and> openNames (ids (states m)) (nextSessionID m) (closedDone m)
     \<and> set (ids (states m)) \<union> set (closedDone m) = {1..nextSessionID m}
     \<and> openNames (map handleID (directStreams m)) (nextDirectID m) (closedHandles m)
     \<and> (closed m \<longrightarrow> states m = [] \<and> directStreams m = []) \<and> \<not> panicked m"

lemma ids_simps [simp]: "ids [] = []" "ids (x # xs) = map sessionID (Sessions (snd x)) @ ids xs"
  "ids (xs @ ys) = ids xs @ ids ys"
  by (auto simp: ids_def split: prod.split)

lemma smInv_new: "smInv NewStreamManager"
  by (simp add: smInv_def NewStreamManager_def openNames_def maxStates_def)

lemma openNames_close:
  "openNames (xs @ ys) n cl \<Longrightarrow> openNames ys n (rev xs @ cl)"
  by (auto simp: openNames_def)

lemma openNames_new: "openNames used n cl \<Longrightarrow> openNames ((n + 1) # used) (n + 1) cl"
  by (auto simp: openNames_def)

lemma openNames_less: "openNames used n cl \<Longrightarrow> set used' \<subseteq> set used \<Longrightarrow> distinct used' \<Longrightarrow> openNames used' n cl"
  by (auto simp: openNames_def)

text \<open>Closing names that are all open never closes one twice.\<close>

lemma closeDone_fold:
  "distinct is \<Longrightarrow> set is \<inter> set (closedDone m) = {} \<Longrightarrow> fold closeDone is m = m\<lparr>closedDone := rev is @ closedDone m\<rparr>"
  by (induction "is" arbitrary: m) (auto simp: closeDone_def)

lemma closeHandles_fold:
  "distinct (map handleID ds) \<Longrightarrow> handleID ` set ds \<inter> set (closedHandles m) = {}
    \<Longrightarrow> closeDirectHandles ds m = m\<lparr>closedHandles := rev (map handleID ds) @ closedHandles m\<rparr>"
  unfolding closeDirectHandles_def by (induction ds arbitrary: m) (auto simp: closeHandle_def)

text \<open>A state in the list, and what replacing or deleting it does.\<close>

lemma split_state:
  assumes "smInv m" "map_of (states m) key = Some st"
  obtains xs ys where "states m = xs @ (key, st) # ys" "key \<notin> fst ` set xs" "key \<notin> fst ` set ys"
proof -
  obtain xs ys where eq: "states m = xs @ (key, st) # ys"
    using split_list[OF map_of_SomeD[OF assms(2)]] by blast
  then have "key \<notin> fst ` set xs" "key \<notin> fst ` set ys" using assms(1) by (auto simp: smInv_def)
  with eq that show thesis by blast
qed

lemma states_split:
  assumes "key \<notin> fst ` set xs" "key \<notin> fst ` set ys" "states m = xs @ (key, st) # ys"
  shows "states (putState key st' m) = xs @ (key, st') # ys" "states (deleteState key m) = xs @ ys"
proof -
  have "map (\<lambda>(k, x). if k = key then (k, st') else (k, x)) zs = zs" if "key \<notin> fst ` set zs" for zs
    using that by (induction zs) auto
  then show "states (putState key st' m) = xs @ (key, st') # ys" using assms by (simp add: putState_def)
  have "filter (\<lambda>(k, x). k \<noteq> key) zs = zs" if "key \<notin> fst ` set zs" for zs :: "(FileKey \<times> StreamState) list"
    using that by (induction zs) auto
  then show "states (deleteState key m) = xs @ ys" using assms by (simp add: deleteState_def)
qed

lemma putState_fields [simp]:
  "nextSessionID (putState key st m) = nextSessionID m" "closedDone (putState key st m) = closedDone m"
  "directStreams (putState key st m) = directStreams m" "nextDirectID (putState key st m) = nextDirectID m"
  "closedHandles (putState key st m) = closedHandles m" "closed (putState key st m) = closed m"
  "panicked (putState key st m) = panicked m"
  by (simp_all add: putState_def)

lemma deleteState_fields [simp]:
  "nextSessionID (deleteState key m) = nextSessionID m" "closedDone (deleteState key m) = closedDone m"
  "directStreams (deleteState key m) = directStreams m" "nextDirectID (deleteState key m) = nextDirectID m"
  "closedHandles (deleteState key m) = closedHandles m" "closed (deleteState key m) = closed m"
  "panicked (deleteState key m) = panicked m"
  by (simp_all add: deleteState_def)

lemma smInv_putState:
  assumes inv: "smInv m" and st: "map_of (states m) key = Some st" and st': "stInv st'"
    and same: "map sessionID (Sessions st') = map sessionID (Sessions st)"
  shows "smInv (putState key st' m)"
proof -
  obtain xs ys where sp: "states m = xs @ (key, st) # ys" "key \<notin> fst ` set xs" "key \<notin> fst ` set ys"
    by (rule split_state[OF inv st])
  show ?thesis using inv st' same sp(1) states_split(1)[OF sp(2,3,1)] by (auto simp: smInv_def)
qed

lemma smInv_deleteState:
  assumes inv: "smInv m" and st: "map_of (states m) key = Some st" and empty: "Sessions st = []"
  shows "smInv (deleteState key m)"
proof -
  obtain xs ys where sp: "states m = xs @ (key, st) # ys" "key \<notin> fst ` set xs" "key \<notin> fst ` set ys"
    by (rule split_state[OF inv st])
  show ?thesis using inv empty sp(1) states_split(2)[OF sp(2,3,1)] by (auto simp: smInv_def)
qed

lemma stInv_idle: "stInv st \<Longrightarrow> idle st = (Sessions st = [])"
  by (cases "Sessions st") (auto simp: stInv_def idle_def)

lemma smInv_state: "smInv m \<Longrightarrow> map_of (states m) key = Some st \<Longrightarrow> stInv st"
  by (auto simp: smInv_def list_all_iff dest!: map_of_SomeD)

section \<open>Operations keep the invariant\<close>

lemma length_filter_remove:
  "distinct (map sessionID xs) \<Longrightarrow> x \<in> set xs
    \<Longrightarrow> length (filter P xs) = length (filter P (filter (\<lambda>y. sessionID y \<noteq> sessionID x) xs)) + (if P x then 1 else 0)"
proof (induction xs)
  case (Cons a xs)
  show ?case
  proof (cases "x = a")
    case True
    then have "filter (\<lambda>y. sessionID y \<noteq> sessionID x) xs = xs" using Cons.prems by (force simp: filter_id_conv image_iff)
    then show ?thesis using True by simp
  qed (use Cons in \<open>auto\<close>)
qed simp

lemma stInv_takeSession:
  assumes "stInv st" "distinct (map sessionID (Sessions st))" "x \<in> set (Sessions st)"
  shows "stInv (takeSession x st)"
  using assms length_filter_remove[OF assms(2,3), of "\<lambda>x. \<not> Preload x"] length_filter_remove[OF assms(2,3), of Preload]
  by (auto simp: stInv_def takeSession_def)

lemma findSessionD:
  "findSession key i m = Some (st, x) \<Longrightarrow> map_of (states m) key = Some st \<and> x \<in> set (Sessions st) \<and> sessionID x = i"
  by (auto simp: findSession_def split: option.splits dest: find_set)

lemma openNames_remove:
  assumes "openNames (xs @ used @ ys) n cl" "i \<in> set used" "set used' = set used - {i}" "distinct used'"
  shows "openNames (xs @ used' @ ys) n (i # cl)"
    "set (xs @ used' @ ys) \<union> set (i # cl) = set (xs @ used @ ys) \<union> set cl"
  using assms by (auto simp: openNames_def)

lemma smInv_endSession:
  assumes inv: "smInv m" and f: "findSession key i m = Some (st, x)"
  shows "smInv (endSession key st x m)" "map_of (states (endSession key st x m)) key = Some (takeSession x st)"
proof -
  note fd = findSessionD[OF f]
  obtain xs ys where sp': "states m = xs @ (key, st) # ys" "key \<notin> fst ` set xs" "key \<notin> fst ` set ys"
    using fd by (elim conjE) (rule split_state[OF inv])
  note sp = sp'(1) states_split(1)[OF sp'(2,3,1), of "takeSession x st"] sp'(2)
  have d: "distinct (map sessionID (Sessions st))" using inv sp by (auto simp: smInv_def openNames_def)
  have ids': "set (map sessionID (Sessions (takeSession x st))) = set (map sessionID (Sessions st)) - {i}"
    "distinct (map sessionID (Sessions (takeSession x st)))"
    using fd d by (auto simp: takeSession_def distinct_map_filter)
  have i: "i \<in> set (map sessionID (Sessions st))" using fd by auto
  have "openNames (ids xs @ map sessionID (Sessions st) @ ids ys) (nextSessionID m) (closedDone m)"
    using inv sp by (simp add: smInv_def)
  note rm = openNames_remove[OF this i ids']
  have new: "i \<notin> set (closedDone m)" using inv sp i by (auto simp: smInv_def openNames_def)
  have "stInv (takeSession x st)" using stInv_takeSession[OF smInv_state[OF inv]] d fd by blast
  then show "smInv (endSession key st x m)"
    using inv sp(1,2) rm new fd unfolding smInv_def endSession_def closeDone_def by simp
  show "map_of (states (endSession key st x m)) key = Some (takeSession x st)"
    using sp(2) map_of_eq_None_iff[of xs key] sp(3) by (simp add: endSession_def closeDone_def map_add_def)
qed

lemma smInv_rollback:
  assumes "smInv m"
  shows "smInv (rollbackSessionLocked key i m)"
proof (cases "findSession key i m")
  case (Some p)
  obtain st x where p: "p = (st, x)" by (cases p)
  note e = smInv_endSession[OF assms Some[unfolded p]]
  have "Sessions (takeSession x st) = []" if "idle (takeSession x st)"
    using that stInv_idle[OF smInv_state[OF e]] by simp
  then show ?thesis using e smInv_deleteState[OF e] by (simp add: rollbackSessionLocked_def Some p Let_def)
qed (simp add: rollbackSessionLocked_def assms)

lemma smInv_schedule: "smInv m \<Longrightarrow> smInv (scheduleDebounceLocked key m)"
proof (cases "map_of (states m) key")
  case (Some st)
  assume inv: "smInv m"
  note st = smInv_state[OF inv Some]
  show ?thesis
  proof (cases "closed m \<or> \<not> idle st")
    case False
    then have "stInv (st\<lparr>TimerVersion := TimerVersion st + 1, DebounceTimer := True\<rparr>)"
      using st stInv_idle[OF st] by (simp add: stInv_def)
    then show ?thesis using smInv_putState[OF inv Some] False Some by (simp add: scheduleDebounceLocked_def)
  qed (simp add: scheduleDebounceLocked_def Some inv)
qed (simp add: scheduleDebounceLocked_def)

lemma dropped_ids:
  assumes "distinct (ids sts)"
  shows "distinct (ids (filter Q sts))" "set (ids (filter Q sts)) \<inter> set (ids (filter (\<lambda>x. \<not> Q x) sts)) = {}"
    "set (ids (filter Q sts)) \<union> set (ids (filter (\<lambda>x. \<not> Q x) sts)) = set (ids sts)"
proof -
  have all: "set (ids (filter Q sts)) \<union> set (ids (filter (\<lambda>x. \<not> Q x) sts)) = set (ids sts)" for sts
    by (induction sts) auto
  then show "set (ids (filter Q sts)) \<union> set (ids (filter (\<lambda>x. \<not> Q x) sts)) = set (ids sts)" .
  have "distinct (ids (filter Q sts)) \<and> set (ids (filter Q sts)) \<inter> set (ids (filter (\<lambda>x. \<not> Q x) sts)) = {}"
    using assms
  proof (induction sts)
    case (Cons x sts)
    then show ?case using all[of sts] by (auto simp del: set_map)
  qed simp
  then show "distinct (ids (filter Q sts))" "set (ids (filter Q sts)) \<inter> set (ids (filter (\<lambda>x. \<not> Q x) sts)) = {}"
    by auto
qed

lemma dropStates_eq:
  assumes "openNames (ids (states m)) n (closedDone m)"
  shows "dropStates P m = m\<lparr>states := filter (\<lambda>(k, st). \<not> P st) (states m),
    closedDone := rev (ids (filter (\<lambda>(k, st). P st) (states m))) @ closedDone m\<rparr>"
proof -
  let ?gone = "ids (filter (\<lambda>(k, st). P st) (states m))"
  have d: "distinct (ids (states m))" "set (ids (states m)) \<inter> set (closedDone m) = {}"
    using assms by (auto simp: openNames_def)
  then have "distinct ?gone" "set ?gone \<inter> set (closedDone m) = {}"
    using dropped_ids(1,3)[OF d(1), of "\<lambda>(k, st). P st"] by auto
  then show ?thesis unfolding dropStates_def ids_def[symmetric] by (subst closeDone_fold) simp_all
qed

lemma openNames_drop:
  assumes "openNames (ids sts) n cl" "set (ids sts) \<union> set cl = {1..n}"
  shows "openNames (ids (filter (\<lambda>(k, st). \<not> P st) sts)) n (rev (ids (filter (\<lambda>(k, st). P st) sts)) @ cl)"
    "set (ids (filter (\<lambda>(k, st). \<not> P st) sts)) \<union> (set (ids (filter (\<lambda>(k, st). P st) sts)) \<union> set cl) = {1..n}"
proof -
  have n: "(\<lambda>x. \<not> (case x of (k, st) \<Rightarrow> P st)) = (\<lambda>(k, st). \<not> P st)" by auto
  have d: "distinct (ids sts)" using assms by (simp add: openNames_def)
  note dr = dropped_ids[OF d, of "\<lambda>(k, st). P st", unfolded n]
  have d': "distinct (ids (filter (\<lambda>(k, st). \<not> P st) sts))"
    using dropped_ids(1)[OF d, of "\<lambda>(k, st). \<not> P st"] .
  show "set (ids (filter (\<lambda>(k, st). \<not> P st) sts)) \<union> (set (ids (filter (\<lambda>(k, st). P st) sts)) \<union> set cl) = {1..n}"
    using dr(3) assms(2) by blast
  show "openNames (ids (filter (\<lambda>(k, st). \<not> P st) sts)) n (rev (ids (filter (\<lambda>(k, st). P st) sts)) @ cl)"
    using dr d' assms unfolding openNames_def set_append set_rev by blast
qed

text \<open>Detaching: the sessions of the dropped states end, the dropped handles are closed.\<close>

lemma smInv_drop:
  fixes P :: "StreamState \<Rightarrow> bool"
  assumes names: "openNames (ids (states m)) (nextSessionID m) (closedDone m)"
    "set (ids (states m)) \<union> set (closedDone m) = {1..nextSessionID m}"
    "openNames (map handleID (directStreams m)) (nextDirectID m) (closedHandles m)"
    and rest: "distinct (map fst (states m))" "length (states m) \<le> maxStates" "list_all (\<lambda>(k, st). stInv st) (states m)"
    "\<not> panicked m" and shut: "closed m \<Longrightarrow> (\<forall>st. P st) \<and> (\<forall>d. Q d)"
  shows "smInv (closeDirectHandles (filter Q (directStreams m)) (dropHandles Q (dropStates P m)))"
proof -
  let ?m = "dropHandles Q (dropStates P m)"
  have eq: "?m = m\<lparr>states := filter (\<lambda>(k, st). \<not> P st) (states m), directStreams := filter (\<lambda>d. \<not> Q d) (directStreams m),
    closedDone := rev (ids (filter (\<lambda>(k, st). P st) (states m))) @ closedDone m\<rparr>"
    by (simp add: dropHandles_def dropStates_eq[OF names(1)])
  have h: "distinct (map handleID (filter Q (directStreams m)))" "handleID ` set (filter Q (directStreams m)) \<inter> set (closedHandles m) = {}"
    using names(3) by (auto simp: openNames_def distinct_map_filter)
  have hs: "openNames (map handleID (filter (\<lambda>d. \<not> Q d) (directStreams m))) (nextDirectID m)
      (rev (map handleID (filter Q (directStreams m))) @ closedHandles m)"
    using names(3) unfolding openNames_def distinct_map inj_on_def by (auto simp: distinct_map_filter)
  have "closeDirectHandles (filter Q (directStreams m)) ?m
      = ?m\<lparr>closedHandles := rev (map handleID (filter Q (directStreams m))) @ closedHandles ?m\<rparr>"
    using h by (subst closeHandles_fold) (simp_all add: eq)
  then show ?thesis
    using openNames_drop[OF names(1,2), of P] rest hs shut
    by (auto simp: smInv_def eq distinct_map_filter list_all_iff intro: le_trans[OF length_filter_le])
qed

lemma smInv_closeStreams: "smInv m \<Longrightarrow> smInv (closeStreamsForTorrent g m)"
proof (cases "closed m")
  case True
  assume "smInv m"
  with True show ?thesis
    by (auto simp: closeStreamsForTorrent_def detachStreamsForTorrentLocked_def smInv_def dropHandles_def dropStates_def
        closeDirectHandles_def)
next
  case False
  assume "smInv m"
  with False show ?thesis
    unfolding closeStreamsForTorrent_def detachStreamsForTorrentLocked_def prod.case
    by (intro smInv_drop) (simp_all add: smInv_def)
qed

lemma smInv_closeAll: "smInv m \<Longrightarrow> smInv (CloseAllStreams m)"
  using smInv_drop[of "m\<lparr>closed := True\<rparr>" "\<lambda>_. True" "\<lambda>_. True"] by (simp add: CloseAllStreams_def smInv_def)

lemma smInv_registerHandle: "smInv m \<Longrightarrow> \<not> closed m \<Longrightarrow> smInv (registerHandle mt m)"
  using openNames_new[of "map handleID (directStreams m)" "nextDirectID m" "closedHandles m"]
  by (simp add: smInv_def registerHandle_def)

lemma smInv_unregister: "smInv m \<Longrightarrow> smInv (unregister i m)"
  using openNames_less[of "map handleID (directStreams m)" "nextDirectID m" "closedHandles m"
      "map handleID (filter (\<lambda>d. handleID d \<noteq> i) (directStreams m))"]
  by (auto simp: smInv_def unregister_def openNames_def distinct_map_filter)

lemma ensureState_spec:
  assumes inv: "smInv m" and "\<not> closed m" and e: "ensureState key g m = Inr (st, m')"
  shows "smInv m'" "map_of (states m') key = Some st" "nextSessionID m' = nextSessionID m" "closed m' = closed m"
proof -
  have *: "smInv m' \<and> map_of (states m') key = Some st \<and> nextSessionID m' = nextSessionID m \<and> closed m' = closed m"
  proof (cases "map_of (states m) key")
    case None
    then have "key \<notin> fst ` set (states m)" by (simp add: map_of_eq_None_iff)
    moreover have "stInv (freshState a g)" for a by (simp add: stInv_def freshState_def)
    ultimately show ?thesis
      using assms None by (auto simp: ensureState_def smInv_def freshState_def split: if_splits)
  qed (use assms in \<open>simp add: ensureState_def\<close>)
  then show "smInv m'" "map_of (states m') key = Some st" "nextSessionID m' = nextSessionID m" "closed m' = closed m" by auto
qed

lemma openNames_insert:
  assumes "openNames (xs @ used @ ys) n cl" "set (xs @ used @ ys) \<union> set cl = {1..n}"
  shows "openNames (xs @ ((n + 1) # used) @ ys) (n + 1) cl" "set (xs @ ((n + 1) # used) @ ys) \<union> set cl = {1..n + 1}"
proof -
  have "{1..n + 1} = insert (n + 1) {1..n}" using assms(1) by (auto simp: openNames_def)
  with assms show "set (xs @ ((n + 1) # used) @ ys) \<union> set cl = {1..n + 1}" by auto
  show "openNames (xs @ ((n + 1) # used) @ ys) (n + 1) cl"
    using assms(1) by (auto simp: openNames_def ball_Un)
qed

lemma smInv_attach:
  assumes inv: "smInv m" and a: "attachSession key g opts preload m = Inr (i, m')"
  shows "smInv m'"
proof -
  have c: "\<not> closed m" using a by (auto simp: attachSession_def split: if_splits)
  then obtain st m1 where e: "ensureState key g m = Inr (st, m1)"
    using a by (auto simp: attachSession_def split: sum.splits)
  note es = ensureState_spec[OF inv c e]
  let ?st = "joinSession (nextSessionID m1 + 1) opts preload st"
  let ?m2 = "m1\<lparr>nextSessionID := nextSessionID m1 + 1\<rparr>"
  have m': "m' = putState key ?st ?m2" using a c e by (auto simp: attachSession_def)
  obtain xs ys where sp': "states m1 = xs @ (key, st) # ys" "key \<notin> fst ` set xs" "key \<notin> fst ` set ys"
    by (rule split_state[OF es(1,2)])
  have "states m' = xs @ (key, ?st) # ys" unfolding m' by (rule states_split(1)[OF sp'(2,3)]) (simp add: sp'(1))
  note sp = sp'(1) this
  have names: "openNames (ids xs @ map sessionID (Sessions st) @ ids ys) (nextSessionID m1) (closedDone m1)"
    "set (ids xs @ map sessionID (Sessions st) @ ids ys) \<union> set (closedDone m1) = {1..nextSessionID m1}"
    using es(1) sp by (simp_all add: smInv_def)
  have j: "map sessionID (Sessions ?st) = (nextSessionID m1 + 1) # map sessionID (Sessions st)"
    by (simp add: joinSession_def)
  have f: "nextSessionID m' = nextSessionID m1 + 1" "closedDone m' = closedDone m1" "directStreams m' = directStreams m1"
    "nextDirectID m' = nextDirectID m1" "closedHandles m' = closedHandles m1" "closed m' = closed m1" "panicked m' = panicked m1"
    by (simp_all add: m')
  have "stInv ?st" using smInv_state[OF es(1,2)] by (auto simp: stInv_def joinSession_def)
  moreover have "ids (states m') = ids xs @ ((nextSessionID m1 + 1) # map sessionID (Sessions st)) @ ids ys"
    using j by (simp add: sp(2))
  moreover have "map fst (states m') = map fst (states m1)" "length (states m') = length (states m1)" by (simp_all add: sp)
  ultimately show ?thesis
    using es(1) openNames_insert[OF names] c es(4) unfolding smInv_def f by (simp add: sp)
qed

lemma refreshState_fields [simp]:
  "Sessions (refreshState env mt i st) = Sessions st" "Torrent (refreshState env mt i st) = Torrent st"
  "ActiveStreams (refreshState env mt i st) = ActiveStreams st" "ActivePreloads (refreshState env mt i st) = ActivePreloads st"
  "DebounceTimer (refreshState env mt i st) = DebounceTimer st"
  by (simp_all add: refreshState_def Let_def)

lemma refreshEntry_fields [simp]:
  "fst (refreshEntry env mt x) = fst x" "Sessions (snd (refreshEntry env mt x)) = Sessions (snd x)"
  "Torrent (snd (refreshEntry env mt x)) = Torrent (snd x)" "stInv (snd (refreshEntry env mt x)) = stInv (snd x)"
  by (simp_all add: refreshEntry_def stInv_def)

lemma smInv_refreshed: "smInv m \<Longrightarrow> smInv (m\<lparr>states := map (refreshEntry env mt) (states m)\<rparr>)"
proof -
  assume inv: "smInv m"
  have "ids (map (refreshEntry env mt) sts) = ids sts" for sts by (induction sts) simp_all
  moreover have "fst \<circ> refreshEntry env mt = fst" by (rule ext) simp
  moreover have "list_all (\<lambda>(k, st). stInv st) (map (refreshEntry env mt) sts) = list_all (\<lambda>(k, st). stInv st) sts" for sts
    by (induction sts) (simp_all add: case_prod_beta)
  ultimately show ?thesis using inv unfolding smInv_def by simp
qed

section \<open>Ownership\<close>

definition live :: "engine \<Rightarrow> nat set" where
  "live e = generation ` set (managedTorrents e)"

definition owned :: "nat set \<Rightarrow> StreamManager \<Rightarrow> bool" where
  "owned L m \<longleftrightarrow> (\<forall>x\<in>set (states m). Torrent (snd x) \<in> L) \<and> (\<forall>d\<in>set (directStreams m). handleTorrent d \<in> L)"

lemma owned_mono: "owned L m \<Longrightarrow> L \<subseteq> L' \<Longrightarrow> owned L' m"
  by (auto simp: owned_def)

lemma owned_putState: "owned L m \<Longrightarrow> Torrent st \<in> L \<Longrightarrow> owned L (putState key st m)"
  by (auto simp: owned_def putState_def split: if_splits)

lemma owned_deleteState: "owned L m \<Longrightarrow> owned L (deleteState key m)"
  by (auto simp: owned_def deleteState_def)

lemma owned_state: "owned L m \<Longrightarrow> map_of (states m) key = Some st \<Longrightarrow> Torrent st \<in> L"
  by (auto simp: owned_def dest!: map_of_SomeD)

lemma owned_closeDone [simp]: "owned L (closeDone i m) = owned L m"
  by (simp add: owned_def closeDone_def)

lemma owned_endSession: "owned L m \<Longrightarrow> findSession key i m = Some (st, x) \<Longrightarrow> owned L (endSession key st x m)"
  using findSessionD[of key i m st x] owned_state[of L m key st]
  by (simp add: endSession_def owned_putState takeSession_def)

lemma owned_rollback: "owned L m \<Longrightarrow> owned L (rollbackSessionLocked key i m)"
  by (auto simp: rollbackSessionLocked_def Let_def owned_endSession owned_deleteState split: option.split)

lemma owned_schedule: "owned L m \<Longrightarrow> owned L (scheduleDebounceLocked key m)"
  by (auto simp: scheduleDebounceLocked_def owned_putState owned_state split: option.split)

lemma closeHandles_same [simp]:
  "states (closeDirectHandles ds m) = states m" "directStreams (closeDirectHandles ds m) = directStreams m"
proof -
  have "states (fold closeHandle ds m) = states m \<and> directStreams (fold closeHandle ds m) = directStreams m"
    by (induction ds arbitrary: m) (simp_all add: closeHandle_def)
  then show "states (closeDirectHandles ds m) = states m" "directStreams (closeDirectHandles ds m) = directStreams m"
    by (simp_all add: closeDirectHandles_def)
qed

lemma dropStates_same [simp]:
  "states (dropStates P m) = filter (\<lambda>(k, st). \<not> P st) (states m)" "directStreams (dropStates P m) = directStreams m"
proof -
  have "directStreams (fold closeDone xs m) = directStreams m" for xs
    by (induction xs arbitrary: m) (simp_all add: closeDone_def)
  then show "states (dropStates P m) = filter (\<lambda>(k, st). \<not> P st) (states m)" "directStreams (dropStates P m) = directStreams m"
    by (simp_all add: dropStates_def)
qed

lemma owned_closeStreams: "owned L m \<Longrightarrow> owned (L - {g}) (closeStreamsForTorrent g m)"
  by (auto simp: owned_def closeStreamsForTorrent_def detachStreamsForTorrentLocked_def dropHandles_def)

lemma owned_closeAll: "owned L (CloseAllStreams m)"
  by (simp add: owned_def CloseAllStreams_def dropHandles_def)

lemma owned_refreshed: "owned L m \<Longrightarrow> owned L (m\<lparr>states := map (refreshEntry env mt) (states m)\<rparr>)"
  by (auto simp: owned_def)

lemma owned_attach:
  assumes "owned L m" "g \<in> L" "attachSession key g opts preload m = Inr (i, m')"
  shows "owned L m'"
proof -
  obtain st m1 where e: "ensureState key g m = Inr (st, m1)"
    and m': "m' = putState key (joinSession i opts preload st) (m1\<lparr>nextSessionID := i\<rparr>)"
    using assms by (auto simp: attachSession_def split: sum.splits if_splits)
  have "owned L m1 \<and> Torrent st \<in> L"
    using e assms owned_state by (auto simp: ensureState_def owned_def freshState_def split: option.splits if_splits)
  then show ?thesis unfolding m' by (intro owned_putState) (simp_all add: owned_def joinSession_def)
qed

text \<open>A session that could not be published leaves no state behind that was not there before.\<close>

lemma owned_attach_rollback:
  assumes "owned L m" "attachSession key g opts preload m = Inr (i, m')"
  shows "owned L (rollbackSessionLocked key i m')"
proof (cases "map_of (states m) key")
  case (Some st)
  then have "m' = putState key (joinSession i opts preload st) (m\<lparr>nextSessionID := i\<rparr>)"
    using assms by (auto simp: attachSession_def ensureState_def split: if_splits)
  moreover have "owned L (m\<lparr>nextSessionID := i\<rparr>)" using assms by (simp add: owned_def)
  ultimately have "owned L m'" using owned_state[OF assms(1) Some] by (simp add: owned_putState joinSession_def)
  then show ?thesis by (rule owned_rollback)
next
  case None
  let ?st = "joinSession i opts preload (freshState (nextAddr m) g)"
  have "key \<notin> fst ` set (states m)" using None by (simp add: map_of_eq_None_iff)
  then have m': "states m' = (key, ?st) # states m" "directStreams m' = directStreams m"
    using assms None states_split(1)[of key "[]" "states m"]
    by (auto simp: attachSession_def ensureState_def split: if_splits)
  have "idle (takeSession x ?st)" "AppliedRanges ?st = []" "find (\<lambda>x. sessionID x = i) (Sessions ?st) = Some x"
    if "x = \<lparr>sessionID = i, Options = opts, Preload = preload, sessionAccountingOnly = AccountingOnly opts\<rparr>" for x
    using that by (simp_all add: idle_def takeSession_def joinSession_def freshState_def)
  then have "set (states (rollbackSessionLocked key i m')) \<subseteq> set (states m)"
    by (auto simp: rollbackSessionLocked_def findSession_def m' deleteState_def endSession_def putState_def closeDone_def split: if_splits)
  moreover have "directStreams (rollbackSessionLocked key i m') = directStreams m"
    by (auto simp: rollbackSessionLocked_def Let_def endSession_def closeDone_def m' split: option.split)
  ultimately show ?thesis using assms(1) by (auto simp: owned_def)
qed

section \<open>The engine keeps its generations\<close>

lemma live_putGen [simp]: "live (putGen mt e) = live e"
proof -
  have "live (putGen mt e) = generation ` (\<lambda>m. if generation m = generation mt then mt else m) ` set (managedTorrents e)"
    by (simp add: live_def putGen_def)
  also have "\<dots> = live e" unfolding image_image live_def by (rule image_cong) simp_all
  finally show ?thesis .
qed

lemma live_counters [simp]: "live (e\<lparr>nextTicket := n\<rparr>) = live e" "live (e\<lparr>nextRecheckID := r\<rparr>) = live e"
  "live (e\<lparr>ctxDone := c\<rparr>) = live e" "live (e\<lparr>registering := ms\<rparr>) = live e" "live (e\<lparr>detaching := ms\<rparr>) = live e"
  "live (e\<lparr>nextGeneration := g\<rparr>) = live e"
  by (simp_all add: live_def)

lemma live_with [simp]: "live (snd (withHash e h f)) = live e" "live (snd (withCurrent e g f)) = live e"
  by (auto simp: withHash_def withCurrent_def split: option.split prod.split)

lemma live_admission [simp]:
  "live (snd (AdmitBegin g e)) = live e" "live (snd (AdmitFinish save safety tk probeErr metadataOk e)) = live e"
  "live (restoreBasePriorities save h e) = live e"
  by (auto simp: AdmitBegin_def AdmitFinish_def restoreBasePriorities_def split: option.split prod.split sum.split)

lemma live_AdmitBegin: "AdmitBegin g e = (r, e') \<Longrightarrow> live e' = live e"
  using live_admission(1)[of g e] by simp

lemma live_AdmitFinish: "AdmitFinish save safety tk probeErr metadataOk e = (r, e') \<Longrightarrow> live e' = live e"
  using live_admission(2)[of save safety tk probeErr metadataOk e] by simp

lemma current_live: "currentTorrent e g = Some mt \<Longrightarrow> g \<in> live e"
  using current_set[of e g mt] by (auto simp: live_def)

lemma lookup_live: "lookup e h = Some mt \<Longrightarrow> generation mt \<in> live e"
  using lookup_set[of e h mt] by (auto simp: live_def)

lemma live_delete:
  "live (snd (deleteBegin h e)) = live e
    - (case (fst (deleteBegin h e), lookup e h) of (None, Some mt) \<Rightarrow> {generation mt} | _ \<Rightarrow> {})"
  by (auto simp: deleteBegin_def live_def split: option.split)

lemma live_commands:
  "live (snd (Pause h e)) = live e" "live (snd (ReconcilePausedIntent saved e)) = live e"
  "live (snd (stageExistingRestore saved e)) = live e" "live (snd (setFilePriority safety h i p e)) = live e"
  "live (snd (setTorrentFilesPriority safety h p e)) = live e" "live (snd (setFilePriorities safety h ps e)) = live e"
  "live (SetQueuePosition h position e) = live e" "live (snd (restoreVerificationBlock h e)) = live e"
  "live (snd (VerifyInactive save save' h e)) = live e" "live (snd (ResumeFinish save safety rtk probeErr e)) = live e"
  "live (snd (CheckPayloadAdmission h e)) = live e" "live (snd (DetectMissingFinish safety dtk absent e)) = live e"
  "live (snd (ManageAdmit save safety streaming stk probeErr metadataOk e)) = live e" "live (BeginShutdown e) = live e"
  "live (snd (BindRuntime save saveBlocks expected fence applied e)) = live e" "live (snd (failIntentApply expected v code e)) = live e"
  by (simp_all add: Pause_def ReconcilePausedIntent_def stageExistingRestore_def setFilePriority_def checkCtx_def
      setTorrentFilesPriority_def setFilePriorities_def SetQueuePosition_def restoreVerificationBlock_def
      VerifyInactive_def ResumeFinish_def CheckPayloadAdmission_def DetectMissingFinish_def ManageAdmit_def
      BeginShutdown_def BindRuntime_def failIntentApply_def Let_def split: prod.split option.split)

lemma live_grantSlot: "grantSlot g e = (ok, e') \<Longrightarrow> live e' = live e"
  by (auto simp: grantSlot_def Let_def split: option.splits sum.splits prod.splits if_splits)

lemma live_prepareSlot: "live (snd (prepareSlot streaming g e)) = live e"
proof (cases "currentTorrent e g")
  case (Some mt)
  obtain r e' where a: "AdmitBegin g (putGen (mt\<lparr>downloadAllStarted := True\<rparr>) e) = (r, e')"
    by (rule prod.exhaust)
  have "live e' = live e" using live_AdmitBegin[OF a] by simp
  then show ?thesis by (simp add: prepareSlot_def Some a split: sum.split prod.split)
qed (simp add: prepareSlot_def)

lemma live_abandon: "live (onGeneration g (abandonVerification attempt) e) = live e"
proof -
  define at where "at = (\<lambda>m. if generation m = g then abandonVerification attempt m else m)"
  have "generation (at m) = generation m" for m by (simp add: at_def abandonVerification_def split: option.split)
  then show ?thesis unfolding onGeneration_def at_def [symmetric] by (simp add: live_def Let_def image_image)
qed

lemma live_ops:
  "live (snd (finishVerification save g attempt err e)) = live e" "live (startVerificationTask save g attempt e) = live e"
  "live (snd (ResumeBegin h e)) = live e" "live (snd (FinishRestoreProbe safety metadataOk tk e)) = live e"
  "live (snd (captureObservation h g e)) = live e" "live (PayloadWriteError save g werr e) = live e"
  "live (RefreshPeerDiscovery safety downloadAll g e) = live e" "live (RememberExpectedPayload g i ready e) = live e"
  "live (snd (ManageProbe g e)) = live e" "live (snd (FinishRestoreActivate safety metadataOk mergeOk ftk e)) = live e"
  "live (snd (FinishRestoreManual save safety probeErr mergeOk mtk e)) = live e"
  "live (snd (StartRecheck save save' active admitted h e)) = live e"
  by (auto simp: finishVerification_def live_abandon startVerificationTask_def ResumeBegin_def FinishRestoreProbe_def
      captureObservation_def PayloadWriteError_def RefreshPeerDiscovery_def RememberExpectedPayload_def ManageProbe_def
      FinishRestoreActivate_def FinishRestoreManual_def StartRecheck_def Let_def split: option.split sum.split prod.split)

lemma live_ManageFinish: "live (snd (ManageFinish save runs streaming tk probeErr e)) = live e"
proof -
  have "live (snd (case grantSlot g (putGen mt e) of (False, e') \<Rightarrow> (None, e') | (True, e') \<Rightarrow> prepareSlot streaming g e')) = live e"
    for g mt
  proof -
    obtain ok e' where a: "grantSlot g (putGen mt e) = (ok, e')" by (rule prod.exhaust)
    have "live e' = live e" using live_grantSlot[OF a] by simp
    then show ?thesis by (simp add: a live_prepareSlot split: bool.split)
  qed
  then show ?thesis by (simp add: ManageFinish_def Let_def split: option.split prod.split)
qed

lemma live_register: "live (snd (registerBegin rq e)) = live e" "live e \<subseteq> live (snd (registerFinish g persistOk e))"
proof -
  show "live (snd (registerBegin rq e)) = live e"
    by (simp add: registerBegin_def Let_def split: option.split prod.split sum.split)
  show "live e \<subseteq> live (snd (registerFinish g persistOk e))"
    by (auto simp: registerFinish_def live_def Let_def split: option.split)
qed

lemma live_close: "live (closeTorrents e) = live e" "live (detachFinish g e) = live e" "live (libraryStep g f e) = live e"
proof -
  have "generation (stopGeneration stateClosed m) = generation m" for m
    using sameGen_stop[of stateClosed m] by (simp add: sameGen_def)
  then show "live (closeTorrents e) = live e" by (simp add: closeTorrents_def BeginShutdown_def live_def image_image)
  have "generation (if generation m = g then onLib f m else m) = generation m" for m by (simp add: onLib_def)
  then show "live (libraryStep g f e) = live e" by (simp add: libraryStep_def live_def image_image del: if_image_distrib)
qed (simp add: detachFinish_def)

lemma live_step:
  assumes "estep e e'"
  shows "live e \<subseteq> live e' \<or> (\<exists>h. e' = snd (deleteBegin h e))"
  using assms
proof cases
  case (delete1 h)
  then show ?thesis by blast
qed (simp_all add: live_commands live_ops live_ManageFinish live_register live_close)

section \<open>The invariant of the system\<close>

definition sysInv :: "streamSystem \<Rightarrow> bool" where
  "sysInv s \<longleftrightarrow> smInv (mgr s) \<and> owned (live (eng s)) (mgr s)"

lemma refresh_spec:
  assumes "refreshTorrentOverlayLocked env g s = (r, s')" "smInv (mgr s)"
  shows "eng s' = eng s" "smInv (mgr s')" "owned L (mgr s) \<Longrightarrow> owned L (mgr s')"
    "r \<noteq> None \<Longrightarrow> s' = s" "r = None \<Longrightarrow> g \<in> live (eng s)"
  using assms smInv_refreshed[of "mgr s"] owned_refreshed[of L "mgr s"] current_live[of "eng s" g]
  by (auto simp: refreshTorrentOverlayLocked_def Let_def split: option.splits if_splits)

lemma sysInv_refresh: "sysInv s \<Longrightarrow> sysInv (snd (refreshTorrentOverlayLocked env g s))"
proof -
  assume inv: "sysInv s"
  obtain r s' where r: "refreshTorrentOverlayLocked env g s = (r, s')" by (rule prod.exhaust)
  have "smInv (mgr s)" using inv by (simp add: sysInv_def)
  from refresh_spec(1,2,3)[OF r this] inv show ?thesis by (simp add: r sysInv_def)
qed

lemma sysInv_clear:
  assumes "sysInv s"
  shows "sysInv (clearStreamOverlayLocked env save key s)"
proof (cases "map_of (states (mgr s)) key")
  case (Some st)
  have inv: "smInv (mgr s)" using assms by (simp add: sysInv_def)
  show ?thesis
  proof (cases "idle st")
    case True
    then have "Sessions st = []" using stInv_idle[OF smInv_state[OF inv Some]] by simp
    then have "sysInv (s\<lparr>mgr := deleteState key (mgr s)\<rparr>)"
      using assms smInv_deleteState[OF inv Some] by (simp add: sysInv_def owned_deleteState)
    then show ?thesis
      using True by (auto simp: clearStreamOverlayLocked_def Some Let_def sysInv_def applyOverlayDiff_def split: sum.split)
  qed (simp add: clearStreamOverlayLocked_def Some assms)
qed (simp add: clearStreamOverlayLocked_def assms)

lemma sysInv_schedule: "sysInv s \<Longrightarrow> sysInv (s\<lparr>mgr := scheduleDebounceLocked key (mgr s)\<rparr>)"
  by (simp add: sysInv_def smInv_schedule owned_schedule)

lemma sysInv_remove:
  assumes "sysInv s"
  shows "sysInv (removeSessionLocked env save key i debounce s)"
proof (cases "findSession key i (mgr s)")
  case (Some p)
  obtain st x where p: "p = (st, x)" by (rule prod.exhaust)
  note f = Some[unfolded p]
  have "sysInv (s\<lparr>mgr := endSession key st x (mgr s)\<rparr>)"
    using assms smInv_endSession[OF _ f] owned_endSession[OF _ f] by (simp add: sysInv_def)
  note ops = sysInv_refresh[OF this] sysInv_schedule[OF this] sysInv_clear[OF this]
  show ?thesis using ops by (simp add: removeSessionLocked_def f Let_def)
qed (simp add: removeSessionLocked_def assms)

lemma sysInv_RemoveStream:
  assumes "sysInv s"
  shows "sysInv (RemoveStream env save choice key s)"
proof (cases "map_of (states (mgr s)) key")
  case (Some st)
  have "ActiveStreams st = 0" if "Sessions st = []"
    using that smInv_state[OF _ Some] assms by (simp add: sysInv_def stInv_def)
  then show ?thesis using assms by (auto simp: RemoveStream_def Some Let_def sysInv_remove)
qed (simp add: RemoveStream_def assms)

lemma sysInv_expire: "sysInv s \<Longrightarrow> sysInv (expireDebounce env save key addr version s)"
  by (simp add: expireDebounce_def sysInv_clear split: option.split)

lemma sysInv_follow: "sysInv s \<Longrightarrow> sysInv (snd (followSession env save started key r s))"
  by (simp add: followSession_def sysInv_remove split: sum.split)

lemma sysInv_addLocked:
  assumes "sysInv s"
  shows "sysInv (snd (addSessionLocked env key g opts preload s))"
proof (cases "attachSession key g opts preload (mgr s)")
  case (Inr p)
  obtain i m where p: "p = (i, m)" by (rule prod.exhaust)
  note a = Inr[unfolded p]
  have inv: "smInv m" using assms smInv_attach[OF _ a] by (simp add: sysInv_def)
  obtain r s' where r: "refreshTorrentOverlayLocked env g (s\<lparr>mgr := m\<rparr>) = (r, s')" by (rule prod.exhaust)
  have inv': "smInv (mgr (s\<lparr>mgr := m\<rparr>))" using inv by simp
  note rs = refresh_spec[OF r inv']
  show ?thesis
  proof (cases r)
    case None
    have "owned (live (eng s)) m" using assms owned_attach[OF _ _ a] rs(5)[OF None] by (simp add: sysInv_def)
    then show ?thesis using rs None by (simp add: addSessionLocked_def a r sysInv_def)
  next
    case (Some x)
    have "owned (live (eng s)) (rollbackSessionLocked key i m)"
      using assms owned_attach_rollback[OF _ a] by (simp add: sysInv_def)
    then show ?thesis using rs(4) Some smInv_rollback[OF inv] by (simp add: addSessionLocked_def a r sysInv_def)
  qed
qed (simp add: addSessionLocked_def assms)

lemma sysInv_eng: "sysInv s \<Longrightarrow> live (eng s) \<subseteq> live e \<Longrightarrow> sysInv (s\<lparr>eng := e\<rparr>)"
  using owned_mono by (auto simp: sysInv_def)

lemma sysInv_addFinish:
  assumes "sysInv s"
  shows "sysInv (snd (addSessionFinish env save safety probeErr metadataOk tk key opts preload s))"
proof (cases "snd tk")
  case (Some t)
  obtain r e where a: "AdmitFinish save safety t probeErr metadataOk (eng s) = (r, e)" by (rule prod.exhaust)
  have "sysInv (s\<lparr>eng := e\<rparr>)" using sysInv_eng[OF assms] live_AdmitFinish[OF a] by simp
  then show ?thesis by (simp add: addSessionFinish_def Some a sysInv_addLocked split: option.split)
qed (simp add: addSessionFinish_def sysInv_addLocked assms)

lemma sysInv_addBegin:
  assumes "sysInv s"
  shows "sysInv (snd (addSessionBegin ready h j opts s))"
proof -
  have "sysInv (snd (case AdmitBegin g (eng s) of
      (Inl x, e) \<Rightarrow> (Inl x, s\<lparr>eng := e\<rparr>) | (Inr tk, e) \<Rightarrow> (Inr (g, Some tk), s\<lparr>eng := e\<rparr>)))" for g
  proof -
    obtain r e where a: "AdmitBegin g (eng s) = (r, e)" by (rule prod.exhaust)
    have "sysInv (s\<lparr>eng := e\<rparr>)" using sysInv_eng[OF assms] live_AdmitBegin[OF a] by simp
    then show ?thesis by (simp add: a split: sum.split)
  qed
  then show ?thesis using assms by (simp add: addSessionBegin_def split: sum.split)
qed

lemma sysInv_delete:
  assumes "sysInv s"
  shows "sysInv (snd (deleteTorrent h s))"
proof -
  obtain r e where d: "deleteBegin h (eng s) = (r, e)" by (rule prod.exhaust)
  have l: "live e = live (eng s) - (case (r, lookup (eng s) h) of (None, Some mt) \<Rightarrow> {generation mt} | _ \<Rightarrow> {})"
    using live_delete[of h "eng s"] by (simp add: d)
  have "smInv (mgr s)" "owned (live (eng s)) (mgr s)" using assms by (simp_all add: sysInv_def)
  then show ?thesis
    using smInv_closeStreams owned_closeStreams l
    by (simp add: deleteTorrent_def d sysInv_def split: option.split option.splits)
qed

lemma sysInv_manager:
  assumes "sysInv s"
  shows "sysInv (CloseStreamsForTorrent g s)" "sysInv (s\<lparr>mgr := CloseAllStreams (mgr s)\<rparr>)"
    "sysInv (snd (RegisterDirectStream h g s))" "sysInv (s\<lparr>mgr := unregister i (mgr s)\<rparr>)"
    "sysInv (snd (refreshStreamOverlay env h j s))"
proof -
  have inv: "smInv (mgr s)" "owned (live (eng s)) (mgr s)" using assms by (simp_all add: sysInv_def)
  have "owned (live (eng s)) (closeStreamsForTorrent g (mgr s))"
    by (rule owned_mono[OF owned_closeStreams[OF inv(2)]]) blast
  then show "sysInv (CloseStreamsForTorrent g s)"
    using inv by (simp add: CloseStreamsForTorrent_def sysInv_def smInv_closeStreams)
  show "sysInv (s\<lparr>mgr := CloseAllStreams (mgr s)\<rparr>)" using inv by (simp add: sysInv_def smInv_closeAll owned_closeAll)
  have "owned (live (eng s)) (registerHandle mt (mgr s))" if "lookup (eng s) h = Some mt" for mt
    using inv(2) lookup_live[OF that] by (simp add: owned_def registerHandle_def)
  then show "sysInv (snd (RegisterDirectStream h g s))"
    using inv by (simp add: RegisterDirectStream_def sysInv_def smInv_registerHandle split: option.split)
  show "sysInv (s\<lparr>mgr := unregister i (mgr s)\<rparr>)"
    using inv smInv_unregister[OF inv(1)] by (auto simp: sysInv_def owned_def unregister_def)
  show "sysInv (snd (refreshStreamOverlay env h j s))"
    using assms by (simp add: refreshStreamOverlay_def sysInv_refresh split: sum.split)
qed

lemma sysInv_step: "sstep s s' \<Longrightarrow> sysInv s \<Longrightarrow> sysInv s'"
  by (induction rule: sstep.induct)
    (simp_all add: sysInv_manager sysInv_delete sysInv_addBegin sysInv_addFinish sysInv_follow sysInv_remove
      sysInv_RemoveStream sysInv_expire sysInv_eng live_def)

lemma sysInv_reachable: "sreachable maxActive noUpload s \<Longrightarrow> sysInv s"
proof (induction rule: sreachable.induct)
  case start
  show ?case using smInv_new by (simp add: sysInv_def newSystem_def owned_def NewStreamManager_def)
qed (rule sysInv_step)

text \<open>Streaming takes the engine only through its own steps.\<close>

lemma refresh_eng: "eng (snd (refreshTorrentOverlayLocked env g s)) = eng s"
  by (simp add: refreshTorrentOverlayLocked_def Let_def split: option.split)

lemma clear_eng: "eng (clearStreamOverlayLocked env save key s) = eng s
    \<or> eng (clearStreamOverlayLocked env save key s) = restoreBasePriorities save (fst key) (eng s)"
  by (auto simp: clearStreamOverlayLocked_def Let_def applyOverlayDiff_def split: option.split sum.split)

lemma clear_estep: "rtranclp estep (eng s) (eng (clearStreamOverlayLocked env save key s))"
  using clear_eng[of env save key s] basePrio[of "eng s" save "fst key"] by auto

lemma remove_estep: "rtranclp estep (eng s) (eng (removeSessionLocked env save key i debounce s))"
proof (cases "findSession key i (mgr s)")
  case (Some p)
  obtain st x where p: "p = (st, x)" by (rule prod.exhaust)
  show ?thesis
    using clear_estep[of "s\<lparr>mgr := endSession key st x (mgr s)\<rparr>" env save key]
    by (simp add: removeSessionLocked_def Some p Let_def refresh_eng)
qed (simp add: removeSessionLocked_def)

lemma addLocked_eng: "eng (snd (addSessionLocked env key g opts preload s)) = eng s"
proof (cases "attachSession key g opts preload (mgr s)")
  case (Inr p)
  obtain i m where p: "p = (i, m)" by (rule prod.exhaust)
  obtain r s' where r: "refreshTorrentOverlayLocked env g (s\<lparr>mgr := m\<rparr>) = (r, s')" by (rule prod.exhaust)
  have "eng s' = eng s" using refresh_eng[of env g "s\<lparr>mgr := m\<rparr>"] by (simp add: r)
  then show ?thesis by (simp add: addSessionLocked_def Inr p r split: option.split)
qed (simp add: addSessionLocked_def)

lemma add_estep:
  "rtranclp estep (eng s) (eng (snd (addSessionFinish env save safety probeErr metadataOk tk key opts preload s)))"
  "rtranclp estep (eng s) (eng (snd (addSessionBegin ready h j opts s)))"
proof -
  show "rtranclp estep (eng s) (eng (snd (addSessionFinish env save safety probeErr metadataOk tk key opts preload s)))"
  proof (cases "snd tk")
    case (Some t)
    obtain r e where a: "AdmitFinish save safety t probeErr metadataOk (eng s) = (r, e)" by (rule prod.exhaust)
    have "estep (eng s) e" using admit2[of "eng s" save safety t probeErr metadataOk] by (simp add: a)
    then show ?thesis by (simp add: addSessionFinish_def Some a addLocked_eng r_into_rtranclp split: option.split)
  qed (simp add: addSessionFinish_def addLocked_eng)
  have "rtranclp estep (eng s) (eng (snd (case AdmitBegin g (eng s) of
      (Inl x, e) \<Rightarrow> (Inl x, s\<lparr>eng := e\<rparr>) | (Inr tk, e) \<Rightarrow> (Inr (g, Some tk), s\<lparr>eng := e\<rparr>))))" for g
  proof -
    obtain r e where a: "AdmitBegin g (eng s) = (r, e)" by (rule prod.exhaust)
    have "estep (eng s) e" using admit1[of "eng s" g] by (simp add: a)
    then show ?thesis by (simp add: a r_into_rtranclp split: sum.split)
  qed
  then show "rtranclp estep (eng s) (eng (snd (addSessionBegin ready h j opts s)))"
    by (simp add: addSessionBegin_def split: sum.split)
qed

lemma sstep_estep: "sstep s s' \<Longrightarrow> rtranclp estep (eng s) (eng s')"
proof (induction rule: sstep.induct)
  case (deleteStep s h)
  show ?case using delete1[of "eng s" h] by (cases "deleteBegin h (eng s)") (simp add: deleteTorrent_def r_into_rtranclp)
next
  case (registerStep s h g)
  show ?case by (simp add: RegisterDirectStream_def split: option.split)
next
  case (followStep s env save started key r)
  show ?case using remove_estep by (simp add: followSession_def split: sum.split)
next
  case (removeAny s env save choice key)
  show ?case using remove_estep by (simp add: RemoveStream_def Let_def split: option.split)
next
  case (expireStep s env save key addr version)
  show ?case using clear_estep by (simp add: expireDebounce_def split: option.split)
next
  case (refreshStep s env h j)
  show ?case by (simp add: refreshStreamOverlay_def refresh_eng split: sum.split)
qed (simp_all add: CloseStreamsForTorrent_def remove_estep add_estep r_into_rtranclp)

lemma reachable_rtranclp: "rtranclp estep e e' \<Longrightarrow> reachable maxActive noUpload e \<Longrightarrow> reachable maxActive noUpload e'"
  by (induction rule: rtranclp_induct) (auto intro: reachable.step)

lemma sreachable_engine: "sreachable maxActive noUpload s \<Longrightarrow> reachable maxActive noUpload (eng s)"
proof (induction rule: sreachable.induct)
  case start
  show ?case by (simp add: newSystem_def reachable.start)
qed (blast intro: reachable_rtranclp sstep_estep)

section \<open>The overlay a refresh publishes\<close>

lemma fold_SetPriority: "fold (SetPriority g v) ps f g' p = (if g' = g \<and> p \<in> set ps then v else f g' p)"
  by (induction ps arbitrary: f) (auto simp: SetPriority_def)

lemma rangePieces_set: "p \<in> set (rangePieces rs) \<longleftrightarrow> streamRangesContainPiece rs p"
  by (auto simp: rangePieces_def contains_iff inRange_def)

lemma publishRanges_spec:
  "publishRanges g old new f g' p =
     (if g' \<noteq> g then f g' p else if streamRangesContainPiece new p then PiecePriorityHigh
      else if streamRangesContainPiece old p then PiecePriorityNone else f g p)"
  by (simp add: publishRanges_def fold_SetPriority rangePieces_set)

lemma contains_concat: "streamRangesContainPiece (concat rss) p = (\<exists>rs\<in>set rss. streamRangesContainPiece rs p)"
  by (auto simp: contains_iff)

lemma rangesOf_contains:
  "streamRangesContainPiece (rangesOf mt sts) p
    \<longleftrightarrow> (\<exists>x\<in>set sts. belongsTo mt x \<and> streamRangesContainPiece (AppliedRanges (snd x)) p)"
  unfolding rangesOf_def merge_spec(1) contains_concat set_map set_filter bex_simps by blast

text \<open>The pieces the sessions of one file ask for.\<close>

definition wantsPiece :: "streamEnv \<Rightarrow> ManagedTorrent \<Rightarrow> FileKey \<times> StreamState \<Rightarrow> int \<Rightarrow> bool" where
  "wantsPiece env mt x p \<longleftrightarrow>
     (let i = snd (fst x); st = snd x; f = filesOf mt ! nat i in
      payloadEligible (policy mt) \<and> 0 \<le> i \<and> i < int (length (filesOf mt)) \<and> bytesCompleted env i \<noteq> f_length f
      \<and> (Sessions st = [] \<and> DebounceTimer st \<and> streamRangesContainPiece (AppliedRanges st) p
         \<or> (\<exists>y\<in>set (Sessions st). \<not> sessionAccountingOnly y
               \<and> streamRangesContainPiece (computeStreamPieceRanges env mt i f (Options y)) p)))"

lemma refreshState_contains:
  "streamRangesContainPiece (AppliedRanges (refreshState env mt i st)) p = wantsPiece env mt ((h, i), st) p"
  by (auto simp: refreshState_def wantsPiece_def wantedRanges_def Let_def merge_spec(1) contains_concat)

lemma refresh_published:
  assumes "refreshTorrentOverlayLocked env g s = (None, s')" "currentTorrent (eng s) g = Some mt" "InfoKnown mt"
  shows "pieces s' g' p =
    (if g' \<noteq> g then pieces s g' p
     else if \<exists>x\<in>set (states (mgr s)). belongsTo mt x \<and> wantsPiece env mt x p then PiecePriorityHigh
     else if \<exists>x\<in>set (states (mgr s)). belongsTo mt x \<and> streamRangesContainPiece (AppliedRanges (snd x)) p then PiecePriorityNone
     else pieces s g p)"
proof -
  have r: "streamRangesContainPiece (AppliedRanges (snd (refreshEntry env mt x))) p = wantsPiece env mt x p" if "belongsTo mt x" for x
    using that refreshState_contains[of env mt "snd (fst x)" "snd x" p "fst (fst x)"] by (simp add: refreshEntry_def)
  have b: "belongsTo mt (refreshEntry env mt x) = belongsTo mt x" for x by (simp add: belongsTo_def)
  have new: "streamRangesContainPiece (rangesOf mt (map (refreshEntry env mt) (states (mgr s)))) p
      = (\<exists>x\<in>set (states (mgr s)). belongsTo mt x \<and> wantsPiece env mt x p)"
    unfolding rangesOf_contains using r b by auto
  have pub: "pieces s' = publishRanges g (rangesOf mt (states (mgr s)))
      (rangesOf mt (map (refreshEntry env mt) (states (mgr s)))) (pieces s)"
    using assms by (auto simp: refreshTorrentOverlayLocked_def Let_def split: if_splits)
  show ?thesis unfolding pub publishRanges_spec new unfolding rangesOf_contains by (rule refl)
qed

section \<open>Properties\<close>

text \<open>C25: the reference counts of streams are exact. In every reachable state the manager has at
  most 256 file states, one per file; each counts exactly its sessions, streams and preloads apart;
  and a debounce is only pending while the file has no session.\<close>

theorem stream_references_exact:
  assumes "sreachable maxActive noUpload s"
  shows "distinct (map fst (states (mgr s))) \<and> length (states (mgr s)) \<le> 256
    \<and> (\<forall>(key, st)\<in>set (states (mgr s)).
        ActiveStreams st = int (length (filter (\<lambda>x. \<not> Preload x) (Sessions st)))
        \<and> ActivePreloads st = int (length (filter Preload (Sessions st))) \<and> (DebounceTimer st \<longrightarrow> Sessions st = []))"
  using sysInv_reachable[OF assms] by (auto simp: sysInv_def smInv_def maxStates_def stInv_def list_all_iff)

text \<open>C27: every session's channel is closed exactly once. No run closes a channel twice, and the
  sessions ever issued are those still attached and those whose channel was closed, and no session
  is both.\<close>

theorem sessions_closed_once:
  assumes "sreachable maxActive noUpload s"
  shows "\<not> panicked (mgr s)
    \<and> {1..nextSessionID (mgr s)} = (\<Union>x\<in>set (states (mgr s)). sessionID ` set (Sessions (snd x))) \<union> set (closedDone (mgr s))
    \<and> (\<Union>x\<in>set (states (mgr s)). sessionID ` set (Sessions (snd x))) \<inter> set (closedDone (mgr s)) = {}"
proof -
  have "set (ids sts) = (\<Union>x\<in>set sts. sessionID ` set (Sessions (snd x)))" for sts by (induction sts) auto
  then show ?thesis using sysInv_reachable[OF assms] by (auto simp: sysInv_def smInv_def openNames_def)
qed

text \<open>C19: no stream outlives its torrent. Every file state and every direct handle belongs to a
  generation that is still registered, and a closed manager has neither.\<close>

theorem streams_follow_generation:
  assumes "sreachable maxActive noUpload s"
  shows "(\<forall>(k, st)\<in>set (states (mgr s)). \<exists>mt\<in>set (managedTorrents (eng s)). generation mt = Torrent st)
    \<and> (\<forall>d\<in>set (directStreams (mgr s)). \<exists>mt\<in>set (managedTorrents (eng s)). generation mt = handleTorrent d)
    \<and> (closed (mgr s) \<longrightarrow> states (mgr s) = [] \<and> directStreams (mgr s) = [])"
  using sysInv_reachable[OF assms] by (fastforce simp: sysInv_def smInv_def owned_def live_def)

text \<open>C31: a refresh publishes exactly the wishes of the sessions. Afterwards a piece of the torrent
  has high priority when some file state of the torrent wants it, none when one had it before and
  none wants it any more, and its former priority otherwise; other torrents are untouched.\<close>

theorem overlay_refresh_exact:
  assumes "refreshTorrentOverlayLocked env g s = (None, s')" "currentTorrent (eng s) g = Some mt" "InfoKnown mt"
  shows "pieces s' g' p =
    (if g' \<noteq> g then pieces s g' p
     else if \<exists>x\<in>set (states (mgr s)). belongsTo mt x \<and> wantsPiece env mt x p then PiecePriorityHigh
     else if \<exists>x\<in>set (states (mgr s)). belongsTo mt x \<and> streamRangesContainPiece (AppliedRanges (snd x)) p then PiecePriorityNone
     else pieces s g p)"
  by (rule refresh_published[OF assms])

section \<open>A concrete run\<close>

lemma sreachable_eng:
  "sreachable maxActive noUpload s \<Longrightarrow> estep (eng s) e \<Longrightarrow> live (eng s) \<subseteq> live e \<Longrightarrow> sreachable maxActive noUpload (s\<lparr>eng := e\<rparr>)"
  by (rule sreachable.more, assumption, rule engineStep) (simp_all add: live_def)

lemma sreachable_exSystem: "sreachable 1 False exSystem"
proof -
  let ?s = "newSystem 1 False"
  have "sreachable 1 False (?s\<lparr>eng := snd (registerBegin exRequest (newEngine 1 False))\<rparr>)"
    by (rule sreachable_eng[OF sreachable.start])
      (auto simp: newSystem_def live_register freshLib_def exRequest_def exLib_def intro!: register1)
  from sreachable_eng[OF this, of exRegistered] have "sreachable 1 False (?s\<lparr>eng := exRegistered\<rparr>)"
    by (simp add: exRegistered_def register2 live_register(2))
  from sreachable_eng[OF this, of exProbed] have "sreachable 1 False (?s\<lparr>eng := exProbed\<rparr>)"
    by (simp add: exProbed_def probe1 live_ops)
  from sreachable_eng[OF this, of exPrepared] have "sreachable 1 False (?s\<lparr>eng := exPrepared\<rparr>)"
    by (simp add: exPrepared_def probe2 live_ManageFinish)
  from sreachable_eng[OF this, of exOpen] show ?thesis
    by (simp add: exSystem_def exOpen_def scheduled live_commands)
qed

lemma sreachable_exStreaming: "sreachable 1 False exStreaming"
  unfolding exStreaming_def by (rule sreachable.more[OF sreachable_exSystem addFinish])

lemma exStreaming_state: "map (\<lambda>x. (fst x, ActiveStreams (snd x), map sessionID (Sessions (snd x)))) (states (mgr exStreaming))
    = [((''aa'', 0), 1, [1])]"
  by code_simp

theorem stream_references_exact_witness:
  "\<exists>st. states (mgr exStreaming) = [((''aa'', 0), st)] \<and> 1 = int (length (filter (\<lambda>x. \<not> Preload x) (Sessions st)))"
proof -
  obtain st where st: "states (mgr exStreaming) = [((''aa'', 0), st)]" "ActiveStreams st = 1"
    using exStreaming_state by auto
  with stream_references_exact[OF sreachable_exStreaming] show ?thesis by simp
qed

theorem sessions_closed_once_witness:
  "\<not> panicked (mgr exStreaming) \<and> {1..nextSessionID (mgr exStreaming)} = {1}"
proof -
  have "set (closedDone (mgr exStreaming)) = {}" by code_simp
  moreover obtain st where "states (mgr exStreaming) = [((''aa'', 0), st)]" "map sessionID (Sessions st) = [1]"
    using exStreaming_state by auto
  moreover from this(2) have "sessionID ` set (Sessions st) = {1}" by (metis list.set(1,2) set_map)
  ultimately show ?thesis using sessions_closed_once[OF sreachable_exStreaming] by simp
qed

theorem streams_follow_generation_witness:
  "\<exists>st. states (mgr exStreaming) = [((''aa'', 0), st)] \<and> (\<exists>mt\<in>set (managedTorrents (eng exStreaming)). generation mt = Torrent st)"
proof -
  obtain st where st: "states (mgr exStreaming) = [((''aa'', 0), st)]" using exStreaming_state by auto
  with streams_follow_generation[OF sreachable_exStreaming] show ?thesis by simp
qed

theorem overlay_refresh_exact_witness:
  "pieces (snd (refreshTorrentOverlayLocked exEnv 0 exStreaming)) 0 0 = PiecePriorityHigh
   \<and> pieces (snd (refreshTorrentOverlayLocked exEnv 0 exStreaming)) 1 0 = pieces exStreaming 1 0"
proof -
  have ok: "fst (refreshTorrentOverlayLocked exEnv 0 exStreaming) = None"
    "currentTorrent (eng exStreaming) 0 = Some (hd (managedTorrents (eng exStreaming)))"
    "InfoKnown (hd (managedTorrents (eng exStreaming)))"
    "belongsTo (hd (managedTorrents (eng exStreaming))) (hd (states (mgr exStreaming)))"
    "wantsPiece exEnv (hd (managedTorrents (eng exStreaming))) (hd (states (mgr exStreaming))) 0"
    by code_simp+
  have "hd (states (mgr exStreaming)) \<in> set (states (mgr exStreaming))" using exStreaming_state by auto
  with overlay_refresh_exact[OF _ ok(2,3), of exEnv "snd (refreshTorrentOverlayLocked exEnv 0 exStreaming)"] ok
  show ?thesis by (metis prod.collapse zero_neq_one)
qed

end
