(* ===== verification/Coordinator.thy ===== *)
theory Coordinator
  imports Prelude "HOL-Library.Multiset" "HOL-Library.Char_ord" "HOL-Library.List_Lexorder"
begin

text \<open>
  The command coordinator (\<open>internal/usecase/coordinator.go\<close>): a registry of one permit per record
  key, reference counted so that a key's lock is never recreated under a waiter, ordered
  acquisition of several keys, closing, and the drain that takes over after it. Commands run
  concurrently: a command is a process, and the operations of the code are cut where they give up
  the registry's lock or pass a channel.
\<close>

section \<open>Registry\<close>

datatype coordError = Canceled | CoordinatorBusy | StorageConflict | ReadFailed string

text \<open>A permit is a channel of capacity one: \<open>permit\<close> tells whether it holds its token.\<close>

record commandEntry =
  permit :: bool
  refs :: int

record ticket =
  tkKey :: string
  tkEntry :: nat

text \<open>The entries are pointers: \<open>cells\<close> gives what they point to. \<open>stuck\<close> tells that a token was sent
  to a full permit, which would block for ever, and \<open>panicked\<close> that the \<open>drained\<close> channel was closed
  twice. A drain is known by its position, \<open>drainDone\<close> tells whether it was finished.\<close>

record coordinator =
  entries :: "string \<rightharpoonup> nat"
  cells :: "nat \<Rightarrow> commandEntry"
  nextEntry :: nat
  ctxErr :: bool
  closed :: bool
  totalRefs :: int
  drainClosed :: bool
  drainOwner :: bool
  drainDone :: bool
  stuck :: bool
  panicked :: bool

definition newApplicationCoordinator :: coordinator where
  "newApplicationCoordinator = \<lparr>entries = Map.empty, cells = (\<lambda>_. \<lparr>permit = True, refs = 0\<rparr>), nextEntry = 0,
     ctxErr = False, closed = False, totalRefs = 0, drainClosed = False, drainOwner = False, drainDone = False,
     stuck = False, panicked = False\<rparr>"

text \<open>The entry of a key, created with a free permit when there is none.\<close>

definition entryFor :: "string \<Rightarrow> coordinator \<Rightarrow> nat \<times> coordinator" where
  "entryFor key c =
     (case entries c key of
        Some a \<Rightarrow> (a, c)
      | None \<Rightarrow> (nextEntry c, c\<lparr>entries := (entries c)(key \<mapsto> nextEntry c), nextEntry := nextEntry c + 1,
                   cells := (cells c)(nextEntry c := \<lparr>permit = True, refs = 0\<rparr>)\<rparr>))"

definition addRef :: "string \<Rightarrow> coordinator \<Rightarrow> ticket \<times> coordinator" where
  "addRef key c =
     (case entryFor key c of (a, c) \<Rightarrow>
        (\<lparr>tkKey = key, tkEntry = a\<rparr>,
         c\<lparr>cells := (cells c)(a := (cells c a)\<lparr>refs := refs (cells c a) + 1\<rparr>), totalRefs := totalRefs c + 1\<rparr>))"

definition reference :: "string \<Rightarrow> coordinator \<Rightarrow> (coordError, ticket \<times> coordinator) result" where
  "reference key c = (if closed c \<or> ctxErr c then Inl Canceled else Inr (addRef key c))"

definition closeDrained :: "coordinator \<Rightarrow> coordinator" where
  "closeDrained c = (if drainClosed c then c\<lparr>panicked := True\<rparr> else c\<lparr>drainClosed := True\<rparr>)"

definition dropRef :: "ticket \<Rightarrow> coordinator \<Rightarrow> coordinator" where
  "dropRef t c =
     (let e = cells c (tkEntry t);
          e' = e\<lparr>refs := refs e - 1\<rparr>
      in c\<lparr>cells := (cells c)(tkEntry t := e'), totalRefs := totalRefs c - 1,
           entries := (if refs e' = 0 then (entries c)(tkKey t := None) else entries c)\<rparr>)"

definition unreference :: "ticket \<Rightarrow> coordinator \<Rightarrow> coordinator" where
  "unreference t c =
     (let c = dropRef t c
      in if closed c \<and> totalRefs c = 0 \<and> \<not> drainClosed c then closeDrained c else c)"

text \<open>Receiving from and sending to a permit.\<close>

definition setPermit :: "bool \<Rightarrow> ticket \<Rightarrow> coordinator \<Rightarrow> coordinator" where
  "setPermit b t c = c\<lparr>cells := (cells c)(tkEntry t := (cells c (tkEntry t))\<lparr>permit := b\<rparr>)\<rparr>"

definition permitFree :: "ticket \<Rightarrow> coordinator \<Rightarrow> bool" where
  "permitFree t c = permit (cells c (tkEntry t))"

definition takePermit :: "ticket \<Rightarrow> coordinator \<Rightarrow> coordinator option" where
  "takePermit t c = (if permitFree t c then Some (setPermit False t c) else None)"

definition putPermit :: "ticket \<Rightarrow> coordinator \<Rightarrow> coordinator" where
  "putPermit t c = (if permitFree t c then c\<lparr>stuck := True\<rparr> else setPermit True t c)"

section \<open>Closing and draining\<close>

definition closeAdmission :: "coordinator \<Rightarrow> coordinator" where
  "closeAdmission c =
     (if closed c then c
      else (let c = c\<lparr>closed := True, ctxErr := True\<rparr>
            in if totalRefs c = 0 \<and> \<not> drainClosed c then closeDrained c else c))"

text \<open>\<open>beginDrain\<close> after \<open>close\<close> returned: the caller has waited for \<open>drained\<close>.\<close>

definition beginDrain :: "coordinator \<Rightarrow> (coordError, coordinator) result" where
  "beginDrain c =
     (if \<not> drainClosed c then Inl Canceled
      else if drainOwner c then Inl CoordinatorBusy
      else Inr (c\<lparr>drainOwner := True\<rparr>))"

definition drainReference :: "string \<Rightarrow> coordinator \<Rightarrow> (coordError, ticket \<times> coordinator) result" where
  "drainReference key c = (if drainDone c \<or> \<not> drainOwner c then Inl Canceled else Inr (addRef key c))"

definition drainFinish :: "coordinator \<Rightarrow> (coordError, coordinator) result" where
  "drainFinish c = (if totalRefs c \<noteq> 0 then Inl CoordinatorBusy else Inr (c\<lparr>drainDone := True\<rparr>))"

section \<open>Commands\<close>

datatype phase = Acquiring | Running | Releasing

text \<open>A command acquires its keys in order. \<open>held\<close> has the last reservation first, \<open>want\<close> is the
  reference that waits for its permit, \<open>leaving\<close> the one whose permit is back but that is not
  unreferenced yet.\<close>

record process =
  viaDrain :: bool
  phaseOf :: phase
  held :: "ticket list"
  want :: "ticket option"
  todo :: "string list"
  leaving :: "ticket option"

definition acquireKeys :: "bool \<Rightarrow> string list \<Rightarrow> process" where
  "acquireKeys drain keys = \<lparr>viaDrain = drain, phaseOf = Acquiring, held = [], want = None,
     todo = remdups_adj (sort keys), leaving = None\<rparr>"

definition referenceFor :: "process \<Rightarrow> string \<Rightarrow> coordinator \<Rightarrow> (coordError, ticket \<times> coordinator) result" where
  "referenceFor p key c = (if viaDrain p then drainReference key c else reference key c)"

text \<open>The next key: the command's context may be done already (\<open>cancelled\<close>).\<close>

definition stepReference :: "bool \<Rightarrow> process \<Rightarrow> coordinator \<Rightarrow> (process \<times> coordinator) option" where
  "stepReference cancelled p c =
     (case (phaseOf p, want p, todo p) of
        (Acquiring, None, key # rest) \<Rightarrow>
          if cancelled then Some (p\<lparr>phaseOf := Releasing\<rparr>, c)
          else (case referenceFor p key c of
                  Inl _ \<Rightarrow> Some (p\<lparr>phaseOf := Releasing\<rparr>, c)
                | Inr (t, c) \<Rightarrow> Some (p\<lparr>want := Some t, todo := rest\<rparr>, c))
      | _ \<Rightarrow> None)"

text \<open>The permit arrived. A cancellation that raced with it (\<open>cancelled\<close>, or the coordinator's own
  for an ordinary command) gives the reservation back first.\<close>

definition stepPermit :: "bool \<Rightarrow> process \<Rightarrow> coordinator \<Rightarrow> (process \<times> coordinator) option" where
  "stepPermit cancelled p c =
     (case want p of
        None \<Rightarrow> None
      | Some t \<Rightarrow>
         (case takePermit t c of
            None \<Rightarrow> None
          | Some c \<Rightarrow>
             Some (p\<lparr>want := None, held := t # held p,
                     phaseOf := (if cancelled \<or> (if viaDrain p then drainDone c \<or> \<not> drainOwner c else ctxErr c)
                                 then Releasing else phaseOf p)\<rparr>, c)))"

text \<open>The wait is given up: the context is done, or the permit is busy for \<open>tryAcquire\<close>.\<close>

definition stepCancel :: "process \<Rightarrow> coordinator \<Rightarrow> (process \<times> coordinator) option" where
  "stepCancel p c =
     (case want p of
        None \<Rightarrow> None
      | Some t \<Rightarrow> Some (p\<lparr>want := None, phaseOf := Releasing\<rparr>, unreference t c))"

definition stepAcquired :: "process \<Rightarrow> process option" where
  "stepAcquired p = (if phaseOf p = Acquiring \<and> want p = None \<and> todo p = [] then Some (p\<lparr>phaseOf := Running\<rparr>) else None)"

definition stepFinish :: "process \<Rightarrow> process option" where
  "stepFinish p = (if phaseOf p = Running then Some (p\<lparr>phaseOf := Releasing\<rparr>) else None)"

text \<open>\<open>release\<close> puts the token back and then drops the reference.\<close>

definition stepRelease :: "process \<Rightarrow> coordinator \<Rightarrow> (process \<times> coordinator) option" where
  "stepRelease p c =
     (case (phaseOf p, leaving p, held p) of
        (Releasing, None, t # rest) \<Rightarrow> Some (p\<lparr>held := rest, leaving := Some t\<rparr>, putPermit t c)
      | _ \<Rightarrow> None)"

definition stepUnreference :: "process \<Rightarrow> coordinator \<Rightarrow> (process \<times> coordinator) option" where
  "stepUnreference p c =
     (case leaving p of
        None \<Rightarrow> None
      | Some t \<Rightarrow> Some (p\<lparr>leaving := None\<rparr>, unreference t c))"

inductive cstep :: "coordinator \<times> process list \<Rightarrow> coordinator \<times> process list \<Rightarrow> bool" where
  arrive: "cstep (c, ps) (c, acquireKeys drain keys # ps)"
| referenced: "stepReference cancelled p c = Some (p', c') \<Longrightarrow> cstep (c, xs @ p # ys) (c', xs @ p' # ys)"
| permitted: "stepPermit cancelled p c = Some (p', c') \<Longrightarrow> cstep (c, xs @ p # ys) (c', xs @ p' # ys)"
| cancelled: "stepCancel p c = Some (p', c') \<Longrightarrow> cstep (c, xs @ p # ys) (c', xs @ p' # ys)"
| acquired: "stepAcquired p = Some p' \<Longrightarrow> cstep (c, xs @ p # ys) (c, xs @ p' # ys)"
| finished: "stepFinish p = Some p' \<Longrightarrow> cstep (c, xs @ p # ys) (c, xs @ p' # ys)"
| released: "stepRelease p c = Some (p', c') \<Longrightarrow> cstep (c, xs @ p # ys) (c', xs @ p' # ys)"
| unreferenced: "stepUnreference p c = Some (p', c') \<Longrightarrow> cstep (c, xs @ p # ys) (c', xs @ p' # ys)"
| parentDone: "cstep (c, ps) (c\<lparr>ctxErr := True\<rparr>, ps)"
| closeStep: "cstep (c, ps) (closeAdmission c, ps)"
| drainStep: "beginDrain c = Inr c' \<Longrightarrow> cstep (c, ps) (c', ps)"
| drainEnd: "drainOwner c \<Longrightarrow> drainFinish c = Inr c' \<Longrightarrow> cstep (c, ps) (c', ps)"

inductive creachable :: "coordinator \<times> process list \<Rightarrow> bool" where
  start: "creachable (newApplicationCoordinator, [])"
| step: "creachable s \<Longrightarrow> cstep s s' \<Longrightarrow> creachable s'"

section \<open>Locking records (\<open>command_coordination.go\<close>)\<close>

text \<open>What a command reads of a record while it locks: its storage mapping and the identity of its
  intent. A read may fail.\<close>

record StorageMapping =
  StorageID :: string
  Root :: string

type_synonym mappingView = "string \<Rightarrow> (coordError, StorageMapping option) result"
type_synonym identityView = "string \<Rightarrow> (coordError, string option) result"

definition keysOf :: "string \<Rightarrow> StorageMapping option \<Rightarrow> string list" where
  "keysOf h m = (''hash/'' @ h) # (case m of
     None \<Rightarrow> []
   | Some m \<Rightarrow> (''storage/'' @ StorageID m) # (if Root m \<noteq> [] then [''root/'' @ Root m] else []))"

fun collectKeys :: "mappingView \<Rightarrow> string list \<Rightarrow> (coordError, string list) result" where
  "collectKeys view [] = Inr []"
| "collectKeys view (h # hs) =
     (case view h of
        Inl e \<Rightarrow> Inl e
      | Inr m \<Rightarrow> (case collectKeys view hs of Inl e \<Rightarrow> Inl e | Inr ks \<Rightarrow> Inr (keysOf h m @ ks)))"

definition commandKeys :: "mappingView \<Rightarrow> string list \<Rightarrow> (coordError, string list) result" where
  "commandKeys view hashes = (case collectKeys view hashes of Inl e \<Rightarrow> Inl e | Inr ks \<Rightarrow> Inr (remdups_adj (sort ks)))"

fun recordIdentities :: "identityView \<Rightarrow> string list \<Rightarrow> (coordError, (string \<times> string) list) result" where
  "recordIdentities view [] = Inr []"
| "recordIdentities view (h # hs) =
     (case view h of
        Inl e \<Rightarrow> Inl e
      | Inr i \<Rightarrow>
         (case recordIdentities view hs of
            Inl e \<Rightarrow> Inl e
          | Inr ids \<Rightarrow> Inr (case i of None \<Rightarrow> ids | Some r \<Rightarrow> (h, r) # ids)))"

fun sameIdentities :: "identityView \<Rightarrow> (string \<times> string) list \<Rightarrow> (coordError, bool) result" where
  "sameIdentities view [] = Inr True"
| "sameIdentities view ((h, r) # ids) =
     (case view h of
        Inl e \<Rightarrow> Inl e
      | Inr i \<Rightarrow> if i = Some r then sameIdentities view ids else Inr False)"

text \<open>One attempt: the mapping when the keys are computed, how the acquisition ended, and the mapping
  and identities read under the locks. A changed mapping releases the locks and is tried once more.\<close>

record lockAttempt =
  unlocked :: mappingView
  acquireErr :: "coordError option"
  lockedMap :: mappingView
  lockedIds :: identityView

fun lockAttempts :: "string list \<Rightarrow> (string \<times> string) list \<Rightarrow> lockAttempt list \<Rightarrow> (coordError, string list) result" where
  "lockAttempts hashes ids [] = Inl StorageConflict"
| "lockAttempts hashes ids (a # as) =
     (case commandKeys (unlocked a) hashes of
        Inl e \<Rightarrow> Inl e
      | Inr keys \<Rightarrow>
         (case acquireErr a of
            Some e \<Rightarrow> Inl e
          | None \<Rightarrow>
             (case commandKeys (lockedMap a) hashes of
                Inl e \<Rightarrow> Inl e
              | Inr current \<Rightarrow>
                 if keys = current then
                   (case sameIdentities (lockedIds a) ids of
                      Inl e \<Rightarrow> Inl e
                    | Inr valid \<Rightarrow> if valid then Inr keys else Inl StorageConflict)
                 else lockAttempts hashes ids as)))"

definition lockRecordsWithAcquirer ::
    "string list \<Rightarrow> (string \<times> string) list \<Rightarrow> lockAttempt \<Rightarrow> lockAttempt \<Rightarrow> (coordError, string list) result" where
  "lockRecordsWithAcquirer hashes ids first second = lockAttempts hashes ids [first, second]"

definition lockRecords ::
    "identityView \<Rightarrow> bool \<Rightarrow> string list \<Rightarrow> lockAttempt \<Rightarrow> lockAttempt \<Rightarrow> (coordError, string list) result" where
  "lockRecords view cancelled hashes first second =
     (if cancelled then Inl Canceled
      else case recordIdentities view hashes of
        Inl e \<Rightarrow> Inl e
      | Inr ids \<Rightarrow> lockRecordsWithAcquirer hashes ids first second)"

section \<open>Invariant\<close>

definition tickets :: "process \<Rightarrow> ticket multiset" where
  "tickets p = mset (held p) + mset (case want p of None \<Rightarrow> [] | Some t \<Rightarrow> [t])
     + mset (case leaving p of None \<Rightarrow> [] | Some t \<Rightarrow> [t])"

text \<open>All references, and the reservations among them.\<close>

definition allRefs :: "process list \<Rightarrow> ticket multiset" where
  "allRefs ps = sum_list (map tickets ps)"

definition allHeld :: "process list \<Rightarrow> ticket multiset" where
  "allHeld ps = sum_list (map (\<lambda>p. mset (held p)) ps)"

definition ofKey :: "string \<Rightarrow> ticket multiset \<Rightarrow> nat" where
  "ofKey k T = size (filter_mset (\<lambda>t. tkKey t = k) T)"

text \<open>Every reference points to the entry of its key; an entry counts its references, and its permit
  is free unless one of them is a reservation.\<close>

definition regInv :: "coordinator \<Rightarrow> ticket multiset \<Rightarrow> ticket multiset \<Rightarrow> bool" where
  "regInv c T H \<longleftrightarrow>
     (\<forall>t\<in>#T. entries c (tkKey t) = Some (tkEntry t))
     \<and> (\<forall>k a. entries c k = Some a \<longrightarrow> a < nextEntry c \<and> refs (cells c a) = int (ofKey k T) \<and> 0 < ofKey k T
           \<and> ofKey k H = (if permit (cells c a) then 0 else 1))
     \<and> inj_on (\<lambda>k. entries c k) (dom (entries c))
     \<and> H \<subseteq># T \<and> totalRefs c = int (size T) \<and> \<not> stuck c \<and> \<not> panicked c"

lemma ofKey_simps [simp]:
  "ofKey k {#} = 0" "ofKey k (T + T') = ofKey k T + ofKey k T'"
  "ofKey k (add_mset t T) = ofKey k T + (if tkKey t = k then 1 else 0)"
  by (simp_all add: ofKey_def)

lemma ofKey_diff: "t \<in># T \<Longrightarrow> ofKey k (T - {#t#}) = ofKey k T - (if tkKey t = k then 1 else 0)"
  by (auto simp: ofKey_def size_Diff_singleton filter_diff_mset)

lemma ofKey_pos: "0 < ofKey k T \<longleftrightarrow> (\<exists>t\<in>#T. tkKey t = k)"
  by (auto simp: ofKey_def nonempty_has_size[symmetric] filter_mset_eq_conv multiset_eq_iff count_eq_zero_iff)

lemma ofKey_mono: "H \<subseteq># T \<Longrightarrow> ofKey k H \<le> ofKey k T"
  by (simp add: ofKey_def size_mset_mono multiset_filter_mono)

lemma regInvD:
  assumes "regInv c T H"
  shows "t \<in># T \<Longrightarrow> entries c (tkKey t) = Some (tkEntry t)"
    "entries c k = Some a \<Longrightarrow> a < nextEntry c" "entries c k = Some a \<Longrightarrow> refs (cells c a) = int (ofKey k T)"
    "entries c k = Some a \<Longrightarrow> 0 < ofKey k T"
    "entries c k = Some a \<Longrightarrow> ofKey k H = (if permit (cells c a) then 0 else 1)"
    "entries c k = Some a \<Longrightarrow> entries c k' = Some a \<Longrightarrow> k = k'"
    "H \<subseteq># T" "totalRefs c = int (size T)" "\<not> stuck c" "\<not> panicked c"
  using assms unfolding regInv_def inj_on_def by (auto simp: dom_def)

lemma regInvI:
  assumes "\<And>t. t \<in># T \<Longrightarrow> entries c (tkKey t) = Some (tkEntry t)"
    "\<And>k a. entries c k = Some a \<Longrightarrow> a < nextEntry c \<and> refs (cells c a) = int (ofKey k T) \<and> 0 < ofKey k T
       \<and> ofKey k H = (if permit (cells c a) then 0 else 1)"
    "\<And>k k' a. entries c k = Some a \<Longrightarrow> entries c k' = Some a \<Longrightarrow> k = k'"
    "H \<subseteq># T" "totalRefs c = int (size T)" "\<not> stuck c" "\<not> panicked c"
  shows "regInv c T H"
  using assms unfolding regInv_def inj_on_def by auto

text \<open>The reservations of a key without an entry: none.\<close>

lemma regInv_none: "regInv c T H \<Longrightarrow> entries c k = None \<Longrightarrow> ofKey k T = 0 \<and> ofKey k H = 0"
proof -
  assume inv: "regInv c T H" and n: "entries c k = None"
  have "\<not> 0 < ofKey k T" using regInvD(1)[OF inv] n by (auto simp: ofKey_pos)
  then show ?thesis using ofKey_mono[OF regInvD(7)[OF inv], of k] by simp
qed

text \<open>A change of one entry: what has to be checked for it, the other entries being as before.\<close>

lemma regInv_update:
  assumes inv: "regInv c T H" and key: "entries c key = Some x"
    and e: "entries c' = entries c" "nextEntry c' = nextEntry c" "cells c' = (cells c)(x := e)" "\<not> stuck c'" "\<not> panicked c'"
    and T': "\<And>t. t \<in># T' \<Longrightarrow> t \<in># T \<or> t = \<lparr>tkKey = key, tkEntry = x\<rparr>" "H' \<subseteq># T'" "totalRefs c' = int (size T')"
    and others: "\<And>k. k \<noteq> key \<Longrightarrow> ofKey k T' = ofKey k T \<and> ofKey k H' = ofKey k H"
    and now: "refs e = int (ofKey key T')" "0 < ofKey key T'" "ofKey key H' = (if permit e then 0 else 1)"
  shows "regInv c' T' H'"
proof (rule regInvI)
  note d = regInvD[OF inv]
  show "entries c' (tkKey t) = Some (tkEntry t)" if "t \<in># T'" for t
    using T'(1)[OF that] d(1) key e(1) by auto
  show "k = k'" if "entries c' k = Some a" "entries c' k' = Some a" for k k' a using that d(6) e(1) by metis
  show "a < nextEntry c' \<and> refs (cells c' a) = int (ofKey k T') \<and> 0 < ofKey k T'
      \<and> ofKey k H' = (if permit (cells c' a) then 0 else 1)" if "entries c' k = Some a" for k a
  proof (cases "k = key")
    case True
    then have "a = x" using that key e(1) by simp
    then show ?thesis using True now d(2)[OF key] e by simp
  next
    case False
    have "entries c k = Some a" using that e(1) by simp
    then show ?thesis using False others[OF False] d(2-5)[of k a] d(6)[OF key, of k] e by auto
  qed
qed (use assms in auto)

lemma subset_add: "H \<subseteq># T \<Longrightarrow> H \<subseteq># add_mset t T"
  by (metis add_mset_add_single mset_subset_eq_add_left subset_mset.order_trans)

lemma regInv_addRef:
  assumes inv: "regInv c T H" and a: "addRef key c = (t, c')"
  shows "regInv c' (add_mset t T) H"
proof (cases "entries c key")
  case (Some x)
  have t: "t = \<lparr>tkKey = key, tkEntry = x\<rparr>" using a Some by (auto simp: addRef_def entryFor_def)
  show ?thesis
    using a Some regInvD(3-5)[OF inv Some] regInvD(7-10)[OF inv]
    by (intro regInv_update[OF inv Some, where e = "(cells c x)\<lparr>refs := refs (cells c x) + 1\<rparr>"])
      (auto simp: addRef_def entryFor_def subset_add)
next
  case None
  note d = regInvD[OF inv] and n = regInv_none[OF inv None]
  let ?x = "nextEntry c"
  have t: "t = \<lparr>tkKey = key, tkEntry = ?x\<rparr>" using a None by (auto simp: addRef_def entryFor_def)
  have c': "entries c' = (entries c)(key \<mapsto> ?x)" "nextEntry c' = ?x + 1" "cells c' = (cells c)(?x := \<lparr>permit = True, refs = 1\<rparr>)"
    "totalRefs c' = totalRefs c + 1" "stuck c' = stuck c" "panicked c' = panicked c"
    using a None by (auto simp: addRef_def entryFor_def)
  have other: "x < ?x" if "entries c k = Some x" for k x using that by (rule d(2))
  have noKey: "tkKey u \<noteq> key" if "u \<in># T" for u using d(1)[OF that] None by auto
  show ?thesis
  proof (rule regInvI)
    show "entries c' (tkKey u) = Some (tkEntry u)" if "u \<in># add_mset t T" for u
      using that d(1)[of u] noKey[of u] by (auto simp: c' t)
    show "k = k'" if "entries c' k = Some x" "entries c' k' = Some x" for k k' x
      using that d(6)[of k x k'] other[of k x] other[of k' x] by (auto simp: c' split: if_splits)
    show "x < nextEntry c' \<and> refs (cells c' x) = int (ofKey k (add_mset t T)) \<and> 0 < ofKey k (add_mset t T)
        \<and> ofKey k H = (if permit (cells c' x) then 0 else 1)" if "entries c' k = Some x" for k x
      using that n d(2-5)[of k x] by (auto simp: c' t split: if_splits)
  qed (use d(7-10) in \<open>simp_all add: subset_add c'\<close>)
qed

lemma addRef_same:
  "addRef key c = (t, c') \<Longrightarrow> tkKey t = key \<and> drainClosed c' = drainClosed c \<and> closed c' = closed c
    \<and> drainOwner c' = drainOwner c"
  by (auto simp: addRef_def entryFor_def split: option.splits)

lemma regInv_take:
  assumes inv: "regInv c T H" and t: "add_mset t H \<subseteq># T" and c': "takePermit t c = Some c'"
  shows "regInv c' T (add_mset t H)"
proof -
  have e: "entries c (tkKey t) = Some (tkEntry t)" using regInvD(1)[OF inv, of t] t by (meson mset_subset_eqD union_single_eq_member)
  show ?thesis
    using c' t regInvD(3-5)[OF inv e] regInvD(8-10)[OF inv]
    by (intro regInv_update[OF inv e, where e = "(cells c (tkEntry t))\<lparr>permit := False\<rparr>"])
      (auto simp: takePermit_def permitFree_def setPermit_def split: if_splits)
qed

lemma regInv_put:
  assumes inv: "regInv c T H" and t: "t \<in># H"
  shows "regInv (putPermit t c) T (H - {#t#})"
proof -
  have "t \<in># T" using t regInvD(7)[OF inv] by (meson mset_subset_eqD)
  then have e: "entries c (tkKey t) = Some (tkEntry t)" by (rule regInvD(1)[OF inv])
  have "0 < ofKey (tkKey t) H" using t by (auto simp: ofKey_pos)
  then have busy: "\<not> permit (cells c (tkEntry t))" "ofKey (tkKey t) H = 1"
    using regInvD(5)[OF inv e] by (auto split: if_splits)
  have sub: "H - {#t#} \<subseteq># T" using regInvD(7)[OF inv] by (meson diff_subset_eq_self subset_mset.order_trans)
  show ?thesis
    using busy sub regInvD(3-5)[OF inv e] regInvD(8-10)[OF inv]
    by (intro regInv_update[OF inv e, where e = "(cells c (tkEntry t))\<lparr>permit := True\<rparr>"])
      (auto simp: putPermit_def permitFree_def setPermit_def ofKey_diff[OF t])
qed

lemma regInv_drop:
  assumes inv: "regInv c T H" and t: "t \<in># T" "H \<subseteq># T - {#t#}"
  shows "regInv (dropRef t c) (T - {#t#}) H"
proof -
  note d = regInvD[OF inv] and e = regInvD(1)[OF inv t(1)]
  have T': "ofKey k (T - {#t#}) = ofKey k T - (if tkKey t = k then 1 else 0)" for k by (rule ofKey_diff[OF t(1)])
  have n: "totalRefs c - 1 = int (size (T - {#t#}))" using multi_member_split[OF t(1)] d(8) by auto
  have sub: "u \<in># T" if "u \<in># T - {#t#}" for u using that by (rule in_diffD)
  show ?thesis
  proof (cases "ofKey (tkKey t) T = 1")
    case False
    then have "1 < ofKey (tkKey t) T" using d(4)[OF e] by linarith
    then show ?thesis
      using d(3-5)[OF e] d(9-10) n t sub
      by (intro regInv_update[OF inv e, where e = "(cells c (tkEntry t))\<lparr>refs := refs (cells c (tkEntry t)) - 1\<rparr>"])
        (auto simp: dropRef_def Let_def T')
  next
    case True
    have c': "entries (dropRef t c) = (entries c)(tkKey t := None)" "nextEntry (dropRef t c) = nextEntry c"
      "\<And>a. a \<noteq> tkEntry t \<Longrightarrow> cells (dropRef t c) a = cells c a" "totalRefs (dropRef t c) = totalRefs c - 1"
      "stuck (dropRef t c) = stuck c" "panicked (dropRef t c) = panicked c"
      using d(3)[OF e] True by (auto simp: dropRef_def Let_def)
    have gone: "tkKey u \<noteq> tkKey t" if "u \<in># T - {#t#}" for u
      using that T'[of "tkKey t"] True ofKey_pos[of "tkKey t" "T - {#t#}"] by auto
    show ?thesis
    proof (rule regInvI)
      show "entries (dropRef t c) (tkKey u) = Some (tkEntry u)" if "u \<in># T - {#t#}" for u
        using d(1)[OF sub[OF that]] gone[OF that] by (simp add: c')
      show "k = k'" if "entries (dropRef t c) k = Some a" "entries (dropRef t c) k' = Some a" for k k' a
        using that d(6)[of k a k'] by (auto simp: c' split: if_splits)
      show "a < nextEntry (dropRef t c) \<and> refs (cells (dropRef t c) a) = int (ofKey k (T - {#t#})) \<and> 0 < ofKey k (T - {#t#})
          \<and> ofKey k H = (if permit (cells (dropRef t c) a) then 0 else 1)" if "entries (dropRef t c) k = Some a" for k a
      proof -
        have k: "entries c k = Some a" "tkKey t \<noteq> k" using that by (auto simp: c' split: if_splits)
        then have "a \<noteq> tkEntry t" using d(6)[OF e, of k] by auto
        then show ?thesis using d(2-5)[OF k(1)] k(2) by (simp add: c' T')
      qed
    qed (use d(9,10) n t in \<open>simp_all add: c'\<close>)
  qed
qed

lemma regInv_cong:
  "regInv c T H \<Longrightarrow> entries c' = entries c \<Longrightarrow> cells c' = cells c \<Longrightarrow> nextEntry c' = nextEntry c \<Longrightarrow> totalRefs c' = totalRefs c
    \<Longrightarrow> stuck c' = stuck c \<Longrightarrow> panicked c' = panicked c \<Longrightarrow> regInv c' T H"
  by (simp add: regInv_def)

lemma regInv_unreference:
  assumes "regInv c T H" "t \<in># T" "H \<subseteq># T - {#t#}"
  shows "regInv (unreference t c) (T - {#t#}) H"
  using regInv_drop[OF assms] by (auto simp: unreference_def Let_def closeDrained_def elim: regInv_cong)

section \<open>Commands keep it\<close>

definition procInv :: "process \<Rightarrow> bool" where
  "procInv p \<longleftrightarrow>
     sorted_wrt (<) (rev (map tkKey (held p)) @ (case want p of None \<Rightarrow> [] | Some t \<Rightarrow> [tkKey t]) @ todo p)
     \<and> (phaseOf p \<noteq> Acquiring \<longrightarrow> want p = None) \<and> (phaseOf p \<noteq> Releasing \<longrightarrow> leaving p = None)"

text \<open>Ordinary commands have no reference once \<open>drained\<close> is closed, drain commands none before.\<close>

definition drainInv :: "coordinator \<Rightarrow> process list \<Rightarrow> bool" where
  "drainInv c ps \<longleftrightarrow> (drainOwner c \<longrightarrow> drainClosed c) \<and> (drainClosed c \<longrightarrow> closed c)
     \<and> (\<forall>p\<in>set ps. viaDrain p \<noteq> drainClosed c \<longrightarrow> tickets p = {#})"

definition cInv :: "coordinator \<times> process list \<Rightarrow> bool" where
  "cInv s \<longleftrightarrow> regInv (fst s) (allRefs (snd s)) (allHeld (snd s)) \<and> (\<forall>p\<in>set (snd s). procInv p) \<and> drainInv (fst s) (snd s)"

lemma all_simps [simp]:
  "allRefs [] = {#}" "allRefs (p # ps) = tickets p + allRefs ps" "allRefs (ps @ qs) = allRefs ps + allRefs qs"
  "allHeld [] = {#}" "allHeld (p # ps) = mset (held p) + allHeld ps" "allHeld (ps @ qs) = allHeld ps + allHeld qs"
  by (simp_all add: allRefs_def allHeld_def)

lemma held_tickets: "mset (held p) \<subseteq># tickets p"
  by (simp add: tickets_def)

lemma held_refs: "allHeld ps \<subseteq># allRefs ps"
  by (induction ps) (auto intro: subset_mset.add_mono held_tickets)

text \<open>Replacing one command: the registry invariant for the new references and reservations is what
  remains to be shown.\<close>

lemma cInv_replace:
  assumes inv: "cInv (c, xs @ p # ys)"
    and reg: "regInv c' (allRefs xs + tickets p' + allRefs ys) (allHeld xs + mset (held p') + allHeld ys)"
    and p': "procInv p'" and d: "drainClosed c' = drainClosed c" "drainOwner c' = drainOwner c" "closed c' = closed c"
    and via: "viaDrain p' = viaDrain p" "viaDrain p \<noteq> drainClosed c \<Longrightarrow> tickets p' = {#}"
  shows "cInv (c', xs @ p' # ys)"
  using assms unfolding cInv_def drainInv_def by (auto simp: ac_simps)

lemma allRefs_empty: "allRefs ps = {#} \<Longrightarrow> p \<in> set ps \<Longrightarrow> tickets p = {#}"
  by (induction ps) auto

lemma cInv_unreference:
  assumes inv: "cInv (c, xs @ p # ys)" and t: "tickets p = add_mset t (tickets p')"
    and p': "procInv p'" "held p' = held p" "viaDrain p' = viaDrain p"
  shows "cInv (unreference t c, xs @ p' # ys)"
proof -
  let ?T = "allRefs xs + tickets p + allRefs ys" and ?T' = "allRefs (xs @ p' # ys)"
  have T: "?T - {#t#} = ?T'" "t \<in># ?T" by (simp_all add: t ac_simps)
  have "regInv c ?T (allHeld (xs @ p' # ys))" using inv p' by (simp add: cInv_def ac_simps)
  from regInv_unreference[OF this T(2)] have reg: "regInv (unreference t c) ?T' (allHeld (xs @ p' # ys))"
    unfolding T(1) using held_refs by blast
  have dr: "drainOwner c \<longrightarrow> drainClosed c" "drainClosed c \<longrightarrow> closed c"
    "\<forall>q\<in>set (xs @ p # ys). viaDrain q \<noteq> drainClosed c \<longrightarrow> tickets q = {#}"
    using inv by (simp_all add: cInv_def drainInv_def)
  have nd: "viaDrain p = drainClosed c" using dr(3) t by auto
  have flags: "drainOwner (unreference t c) = drainOwner c" "closed (unreference t c) = closed c"
    "drainClosed (unreference t c) = (drainClosed c \<or> closed c \<and> totalRefs (unreference t c) = 0)"
    by (auto simp: unreference_def Let_def closeDrained_def dropRef_def)
  have "drainInv (unreference t c) (xs @ p' # ys)"
  proof (cases "drainClosed (unreference t c) = drainClosed c")
    case True
    then show ?thesis using dr nd p'(3) unfolding drainInv_def flags(1,2) True by auto
  next
    case False
    then have "closed c" "totalRefs (unreference t c) = 0" "drainClosed (unreference t c)" using flags(3) by auto
    moreover from this(2) have "?T' = {#}"
      using regInvD(8)[OF reg] by (metis of_nat_eq_0_iff size_eq_0_iff_empty)
    ultimately show ?thesis using allRefs_empty[of "xs @ p' # ys"] unfolding drainInv_def flags(1,2) by blast
  qed
  then show ?thesis using inv reg p'(1) by (auto simp: cInv_def)
qed

lemma cInv_reference:
  assumes inv: "cInv (c, xs @ p # ys)" and s: "stepReference cancelled p c = Some (p', c')"
  shows "cInv (c', xs @ p' # ys)"
proof -
  have pi: "procInv p" "drainInv c (xs @ p # ys)" using inv by (simp_all add: cInv_def)
  obtain key rest where k: "phaseOf p = Acquiring" "want p = None" "todo p = key # rest"
    using s by (auto simp: stepReference_def split: phase.splits option.splits list.splits)
  have release: "cInv (c, xs @ p\<lparr>phaseOf := Releasing\<rparr> # ys)"
    using inv pi by (intro cInv_replace[OF inv]) (auto simp: cInv_def ac_simps tickets_def procInv_def drainInv_def k)
  show ?thesis
  proof (cases "cancelled \<or> (\<exists>e. referenceFor p key c = Inl e)")
    case True
    then show ?thesis using s release by (auto simp: stepReference_def k split: if_splits)
  next
    case False
    then obtain t where r: "referenceFor p key c = Inr (t, c')" "p' = p\<lparr>want := Some t, todo := rest\<rparr>"
      using s by (auto simp: stepReference_def k split: sum.splits prod.splits)
    then have a: "addRef key c = (t, c')" "viaDrain p = drainClosed c"
      using pi(2) by (auto simp: referenceFor_def drainReference_def reference_def drainInv_def split: if_splits)
    note same = addRef_same[OF a(1)]
    have "regInv c' (add_mset t (allRefs (xs @ p # ys))) (allHeld (xs @ p # ys))"
      using regInv_addRef[OF _ a(1)] inv by (simp add: cInv_def)
    then have reg: "regInv c' (allRefs xs + tickets p' + allRefs ys) (allHeld xs + mset (held p') + allHeld ys)"
      by (simp add: r(2) tickets_def k ac_simps)
    have "procInv p'" using pi(1) same by (simp add: r(2) procInv_def k)
    then show ?thesis using same a(2) by (intro cInv_replace[OF inv reg]) (simp_all add: r(2))
  qed
qed

lemma cInv_permit:
  assumes inv: "cInv (c, xs @ p # ys)" and s: "stepPermit cancelled p c = Some (p', c')"
  shows "cInv (c', xs @ p' # ys)"
proof -
  obtain t where t: "want p = Some t" "takePermit t c = Some c'"
    using s by (auto simp: stepPermit_def split: option.splits)
  obtain ph where p': "p' = p\<lparr>want := None, held := t # held p, phaseOf := ph\<rparr>" "ph = Releasing \<or> ph = phaseOf p"
    using s t by (auto simp: stepPermit_def)
  have pi: "procInv p" "drainInv c (xs @ p # ys)" using inv by (simp_all add: cInv_def)
  have "add_mset t (mset (held p)) \<subseteq># tickets p" by (simp add: tickets_def t)
  then have "add_mset t (allHeld (xs @ p # ys)) \<subseteq># allRefs (xs @ p # ys)"
    using subset_mset.add_mono[OF subset_mset.add_mono[OF held_refs[of xs]] held_refs[of ys], of "add_mset t (mset (held p))" "tickets p"]
    by (simp add: ac_simps)
  from regInv_take[OF _ this t(2)] inv
  have "regInv c' (allRefs (xs @ p # ys)) (add_mset t (allHeld (xs @ p # ys)))" by (simp add: cInv_def)
  moreover have T: "tickets p' = tickets p" by (simp add: p' tickets_def t)
  ultimately have reg: "regInv c' (allRefs xs + tickets p' + allRefs ys) (allHeld xs + mset (held p') + allHeld ys)"
    by (simp add: p'(1) ac_simps)
  have "procInv p'" using pi(1) p'(2) by (auto simp: p'(1) procInv_def t)
  moreover have "drainClosed c' = drainClosed c" "drainOwner c' = drainOwner c" "closed c' = closed c"
    using t(2) by (auto simp: takePermit_def setPermit_def split: if_splits)
  moreover have "viaDrain p' = viaDrain p" by (simp add: p')
  ultimately show ?thesis using pi(2) by (intro cInv_replace[OF inv reg]) (auto simp: drainInv_def T)
qed

lemma cInv_release:
  assumes inv: "cInv (c, xs @ p # ys)" and s: "stepRelease p c = Some (p', c')"
  shows "cInv (c', xs @ p' # ys)"
proof -
  obtain t rest where h: "phaseOf p = Releasing" "leaving p = None" "held p = t # rest"
      "p' = p\<lparr>held := rest, leaving := Some t\<rparr>" "c' = putPermit t c"
    using s by (auto simp: stepRelease_def split: phase.splits option.splits list.splits)
  have pi: "procInv p" "drainInv c (xs @ p # ys)" using inv by (simp_all add: cInv_def)
  have "regInv c' (allRefs (xs @ p # ys)) (allHeld (xs @ p # ys) - {#t#})"
    unfolding h(5) using inv by (intro regInv_put) (simp_all add: cInv_def h(3))
  moreover have T: "tickets p' = tickets p" by (simp add: h tickets_def)
  ultimately have reg: "regInv c' (allRefs xs + tickets p' + allRefs ys) (allHeld xs + mset (held p') + allHeld ys)"
    by (simp add: h(3,4) ac_simps)
  have "procInv p'" using pi(1) h by (auto simp: procInv_def sorted_wrt_append)
  moreover have "drainClosed c' = drainClosed c" "drainOwner c' = drainOwner c" "closed c' = closed c"
    by (auto simp: h(5) putPermit_def setPermit_def)
  ultimately show ?thesis using pi(2) by (intro cInv_replace[OF inv reg]) (auto simp: drainInv_def T[unfolded h(4)] h(4))
qed

lemma cInv_phase:
  assumes inv: "cInv (c, xs @ p # ys)" and "want p = None" "leaving p = None"
  shows "cInv (c, xs @ p\<lparr>phaseOf := ph\<rparr> # ys)"
  using assms by (intro cInv_replace[OF inv]) (auto simp: cInv_def ac_simps tickets_def procInv_def drainInv_def)

lemma drainInv_closes:
  assumes "cInv (c, ps)" "totalRefs c = 0"
  shows "\<forall>p\<in>set ps. tickets p = {#}"
proof -
  have "regInv c (allRefs ps) (allHeld ps)" using assms(1) by (simp add: cInv_def)
  from regInvD(8)[OF this] have "allRefs ps = {#}" using assms(2) by (metis of_nat_eq_0_iff size_eq_0_iff_empty)
  then show ?thesis using allRefs_empty by blast
qed

lemma cInv_close: "cInv (c, ps) \<Longrightarrow> cInv (closeAdmission c, ps)"
  using drainInv_closes[of c ps]
  by (auto simp: cInv_def drainInv_def closeAdmission_def closeDrained_def Let_def elim: regInv_cong)

lemma sorted_keys: "sorted keys \<Longrightarrow> sorted_wrt (<) (remdups_adj keys)" for keys :: "string list"
proof (induction keys rule: remdups_adj.induct)
  case (3 x y xs)
  have "x < z" if "x \<noteq> y" "z \<in> set (y # xs)" for z using 3(3) that by (auto simp: order_le_less)
  then show ?case using 3 by (auto simp del: sorted_simps simp: sorted_simps(2)[of x])
qed auto

lemma cInv_step: "cstep s s' \<Longrightarrow> cInv s \<Longrightarrow> cInv s'"
proof (induction rule: cstep.induct)
  case (arrive c ps drain keys)
  have "sorted_wrt (<) (remdups_adj (sort keys))" by (rule sorted_keys) simp
  then show ?case
    using arrive by (auto simp: cInv_def drainInv_def procInv_def acquireKeys_def tickets_def)
next
  case (cancelled p c p' c' xs ys)
  then obtain t where t: "want p = Some t" "p' = p\<lparr>want := None, phaseOf := Releasing\<rparr>" "c' = unreference t c"
    by (auto simp: stepCancel_def split: option.splits)
  have "procInv p" using cancelled by (simp add: cInv_def)
  then have "procInv p'" using t by (auto simp: procInv_def sorted_wrt_append)
  then show ?case unfolding t(3) by (intro cInv_unreference[OF cancelled(2)]) (simp_all add: t(1,2) tickets_def)
next
  case (unreferenced p c p' c' xs ys)
  then obtain t where t: "leaving p = Some t" "p' = p\<lparr>leaving := None\<rparr>" "c' = unreference t c"
    by (auto simp: stepUnreference_def split: option.splits)
  have "procInv p" using unreferenced by (simp add: cInv_def)
  then have "procInv p'" using t by (auto simp: procInv_def)
  then show ?case unfolding t(3) by (intro cInv_unreference[OF unreferenced(2)]) (simp_all add: t(1,2) tickets_def)
next
  case (acquired p p' c xs ys)
  then show ?case using cInv_phase[OF acquired(2), of Running] by (auto simp: stepAcquired_def cInv_def procInv_def split: if_splits)
next
  case (finished p p' c xs ys)
  then show ?case using cInv_phase[OF finished(2), of Releasing] by (auto simp: stepFinish_def cInv_def procInv_def split: if_splits)
next
  case (parentDone c ps)
  then show ?case by (auto simp: cInv_def drainInv_def elim: regInv_cong)
next
  case (drainStep c c' ps)
  then show ?case by (auto simp: cInv_def drainInv_def beginDrain_def elim: regInv_cong split: if_splits)
next
  case (drainEnd c c' ps)
  then show ?case by (auto simp: cInv_def drainInv_def drainFinish_def elim: regInv_cong split: if_splits)
qed (auto intro: cInv_reference cInv_permit cInv_release cInv_close)

lemma cInv_reachable: "creachable s \<Longrightarrow> cInv s"
proof (induction rule: creachable.induct)
  case start
  show ?case by (simp add: cInv_def drainInv_def newApplicationCoordinator_def regInv_def)
qed (rule cInv_step)

section \<open>Properties\<close>

lemma held_mset: "mset (concat (map held ps)) = allHeld ps"
  by (induction ps) simp_all

lemma count_key: "count (image_mset tkKey H) k = ofKey k H"
  by (induction H) auto

lemma one_reservation:
  assumes "cInv (c, ps)"
  shows "distinct (map tkKey (concat (map held ps)))"
proof -
  have inv: "regInv c (allRefs ps) (allHeld ps)" using assms by (simp add: cInv_def)
  have "ofKey k (allHeld ps) \<le> 1" for k
    using regInvD(5)[OF inv, of k] regInv_none[OF inv, of k] by (cases "entries c k") auto
  then have "count (mset (map tkKey (concat (map held ps)))) k \<le> 1" for k
    by (simp only: mset_map held_mset count_key)
  then show ?thesis
    by (metis (no_types, lifting) One_nat_def count_greater_zero_iff count_inI distinct_count_atmost_1 le_antisym
        less_one not_less set_mset_mset Suc_leI)
qed

text \<open>The holder of a busy permit.\<close>

lemma busy_holder:
  assumes inv: "cInv (c, ps)" and p: "p \<in> set ps" "want p = Some t" "\<not> permitFree t c"
  shows "\<exists>q\<in>set ps. \<exists>u\<in>set (held q). tkKey u = tkKey t"
proof -
  have reg: "regInv c (allRefs ps) (allHeld ps)" using inv by (simp add: cInv_def)
  have "t \<in># tickets p" using p(2) by (simp add: tickets_def)
  then have "t \<in># allRefs ps" using p(1) by (induction ps) auto
  note e = regInvD(1)[OF reg this]
  have "0 < ofKey (tkKey t) (allHeld ps)" using regInvD(5)[OF reg e] p(3) by (simp add: permitFree_def)
  then obtain u where u: "u \<in># allHeld ps" "tkKey u = tkKey t" by (auto simp: ofKey_pos)
  have "u \<in> set (concat (map held ps))" using u(1) held_mset[of ps] by (metis set_mset_mset)
  then show ?thesis using u(2) by auto
qed

definition blocked :: "coordinator \<Rightarrow> process \<Rightarrow> bool" where
  "blocked c p \<longleftrightarrow> (\<exists>t. want p = Some t \<and> \<not> permitFree t c)"

lemma some_unblocked_holder:
  assumes inv: "cInv (c, ps)" and p: "p \<in> set ps" "blocked c p"
  shows "\<exists>q\<in>set ps. held q \<noteq> [] \<and> \<not> blocked c q"
proof -
  let ?keys = "(\<lambda>q. tkKey (the (want q))) ` {q \<in> set ps. blocked c q}"
  have "finite ?keys" "?keys \<noteq> {}" using p by auto
  from Max_in[OF this] Max_ge[OF this(1)] obtain b where b: "b \<in> set ps" "blocked c b"
      "\<And>q. q \<in> set ps \<Longrightarrow> blocked c q \<Longrightarrow> tkKey (the (want q)) \<le> tkKey (the (want b))"
    by (auto simp del: Max_in Max_ge)
  then obtain t where t: "want b = Some t" "\<not> permitFree t c" by (auto simp: blocked_def)
  from busy_holder[OF inv b(1) t] obtain q u where q: "q \<in> set ps" "u \<in> set (held q)" "tkKey u = tkKey t" by blast
  have "\<not> blocked c q"
  proof
    assume bq: "blocked c q"
    then obtain v where v: "want q = Some v" by (auto simp: blocked_def)
    have "procInv q" using inv q(1) by (simp add: cInv_def)
    then have "tkKey u < tkKey v" using q(2) v by (auto simp: procInv_def sorted_wrt_append)
    then show False using b(3)[OF q(1) bq] t v q(3) by simp
  qed
  then show ?thesis using q by (metis list.set_cases neq_Nil_conv)
qed

text \<open>A command can go on without being cancelled.\<close>

definition canMove :: "coordinator \<Rightarrow> process \<Rightarrow> bool" where
  "canMove c p \<longleftrightarrow> stepReference False p c \<noteq> None \<or> stepPermit False p c \<noteq> None \<or> stepAcquired p \<noteq> None
     \<or> stepFinish p \<noteq> None \<or> stepRelease p c \<noteq> None \<or> stepUnreference p c \<noteq> None"

lemma unblocked_moves: "held p \<noteq> [] \<Longrightarrow> \<not> blocked c p \<Longrightarrow> canMove c p"
  by (cases "want p"; cases "phaseOf p"; cases "todo p"; cases "leaving p"; cases "held p")
    (auto simp: canMove_def blocked_def stepReference_def stepPermit_def stepAcquired_def stepFinish_def stepRelease_def
      stepUnreference_def takePermit_def split: sum.split)

text \<open>C7: commands on the same record exclude each other. In every interleaving of commands, of
  cancellations and of closing, a key is reserved at most once, its token is never returned twice,
  and once the coordinator has drained no ordinary command has a reservation or waits for one.\<close>

theorem commands_exclude:
  assumes "creachable (c, ps)"
  shows "distinct (map tkKey (concat (map held ps))) \<and> \<not> stuck c \<and> \<not> panicked c
    \<and> (drainClosed c \<longrightarrow> (\<forall>p\<in>set ps. \<not> viaDrain p \<longrightarrow> held p = [] \<and> want p = None))"
proof -
  have inv: "cInv (c, ps)" by (rule cInv_reachable[OF assms])
  have "held p = [] \<and> want p = None" if "tickets p = {#}" for p
    using that by (auto simp: tickets_def split: option.splits)
  then show ?thesis using inv one_reservation[OF inv] by (auto simp: cInv_def drainInv_def dest: regInvD(9,10))
qed

text \<open>C22: ordered acquisition cannot deadlock. Whenever a command waits for a permit that another has,
  some command that has a reservation can go on without any cancellation.\<close>

theorem acquisition_makes_progress:
  assumes "creachable (c, ps)" "p \<in> set ps" "want p = Some t" "\<not> permitFree t c"
  shows "\<exists>q\<in>set ps. held q \<noteq> [] \<and> canMove c q"
proof -
  have "blocked c p" using assms by (simp add: blocked_def)
  from some_unblocked_holder[OF cInv_reachable[OF assms(1)] assms(2) this] show ?thesis
    using unblocked_moves by blast
qed

text \<open>A granted lock was checked under the lock: its keys are those of the mapping read while holding
  them, and every record still has the identity it had before.\<close>

lemma sameIdentities_holds: "sameIdentities view ids = Inr True \<Longrightarrow> (h, r) \<in> set ids \<Longrightarrow> view h = Inr (Some r)"
  by (induction ids) (auto split: sum.splits if_splits)

lemma granted_lock_checked:
  assumes "lockRecordsWithAcquirer hashes ids first second = Inr keys"
  shows "\<exists>a\<in>{first, second}. acquireErr a = None \<and> commandKeys (unlocked a) hashes = Inr keys
    \<and> commandKeys (lockedMap a) hashes = Inr keys \<and> (\<forall>(h, r)\<in>set ids. lockedIds a h = Inr (Some r))"
  using assms sameIdentities_holds
  by (fastforce simp: lockRecordsWithAcquirer_def split: sum.splits option.splits if_splits)

section \<open>A concrete run\<close>

text \<open>One command has the key \<open>a\<close>, another waits for it on its way to \<open>b\<close>.\<close>

definition exFirst :: "process \<times> coordinator" where
  "exFirst = the (stepReference False (acquireKeys False [''a'']) newApplicationCoordinator)"

definition exHolder :: "process \<times> coordinator" where
  "exHolder = the (stepPermit False (fst exFirst) (snd exFirst))"

definition exWaiter :: "process \<times> coordinator" where
  "exWaiter = the (stepReference False (acquireKeys False [''b'', ''a'', ''b'']) (snd exHolder))"

lemmas run_defs = exFirst_def exHolder_def exWaiter_def stepReference_def stepPermit_def acquireKeys_def newApplicationCoordinator_def
  referenceFor_def reference_def addRef_def entryFor_def takePermit_def permitFree_def setPermit_def

lemma head_step:
  "creachable (c, p # ps) \<Longrightarrow> stepReference False p c = Some (p', c') \<Longrightarrow> creachable (c', p' # ps)"
  "creachable (c, p # ps) \<Longrightarrow> stepPermit False p c = Some (p', c') \<Longrightarrow> creachable (c', p' # ps)"
  using creachable.step[OF _ cstep.referenced[of False p c p' c' "[]" ps]]
    creachable.step[OF _ cstep.permitted[of False p c p' c' "[]" ps]] by auto

lemma reachable_exWaiter: "creachable (snd exWaiter, [fst exWaiter, fst exHolder])"
proof -
  have "creachable (newApplicationCoordinator, [acquireKeys False [''a'']])"
    by (rule creachable.step[OF creachable.start cstep.arrive])
  then have "creachable (snd exFirst, [fst exFirst])" by (rule head_step(1)) (simp add: run_defs)
  then have "creachable (snd exHolder, [fst exHolder])" by (rule head_step(2)) (simp add: run_defs)
  then have "creachable (snd exHolder, [acquireKeys False [''b'', ''a'', ''b''], fst exHolder])"
    by (rule creachable.step[OF _ cstep.arrive])
  then show ?thesis by (rule head_step(1)) (simp add: run_defs)
qed

theorem commands_exclude_witness: "distinct (map tkKey (concat (map held [fst exWaiter, fst exHolder]))) \<and> held (fst exHolder) \<noteq> []"
  using commands_exclude[OF reachable_exWaiter] by (simp add: run_defs)

theorem acquisition_makes_progress_witness: "\<exists>q\<in>{fst exWaiter, fst exHolder}. held q \<noteq> [] \<and> canMove (snd exWaiter) q"
proof -
  have "want (fst exWaiter) = Some \<lparr>tkKey = ''a'', tkEntry = 0\<rparr>" "\<not> permitFree \<lparr>tkKey = ''a'', tkEntry = 0\<rparr> (snd exWaiter)"
    by (simp_all add: run_defs)
  from acquisition_makes_progress[OF reachable_exWaiter _ this] show ?thesis by simp
qed

end
