(* ===== verification/IntentStore.thy ===== *)
theory IntentStore
  imports Models "HOL-Library.Char_ord" "HOL-Library.List_Lexorder"
begin

text \<open>
  The durable intent store (\<open>internal/repository/intent.go\<close>): run intents with their revisions,
  the attachment of a runtime to a record, its observations, and the activation blocks. A write
  transaction is a function from the database to a result and a database; it returns the database
  unchanged with every error. The columns of a table are the fields of its rows, the primary keys
  the arguments of a map. The triggers that number versions of the read model are left out.
\<close>

section \<open>Tables\<close>

datatype storeError =
    InvalidCommand
  | InvalidObservation
  | InvalidBlock
  | StateConflict
  | StaleObservation
  | IncompleteCatalog
  | ExceedsCatalog
  | FileNotFound
  | DatabaseError string

record torrentRow =
  deletionMode :: string
  rowState :: TorrentState
  rowError :: ErrorReason
  rowSize :: int
  rowDownloaded :: int
  rowSource :: string
  rowObservedAt :: int

record intentRow =
  recordID :: string
  revision :: int
  runIntent :: RunIntent
  attachment :: string
  observationSeq :: int
  appliedRevision :: int
  observedState :: TorrentState
  observedError :: ErrorReason

record fileRow =
  fileSize :: int
  fileDownloaded :: int
  filePath :: string

record storageRow =
  storageState :: string
  storageRevision :: int

record inventoryRow =
  invRecord :: string
  invMapping :: int
  invPath :: string
  invSize :: int
  invExpected :: bool
  invPresence :: string
  invReason :: string
  invObservedAt :: int

text \<open>The rows of \<open>files\<close> of a torrent are listed by their index, the activation blocks of a record by
  their kind.\<close>

record db =
  torrents :: "string \<rightharpoonup> torrentRow"
  intents :: "string \<rightharpoonup> intentRow"
  storages :: "string \<rightharpoonup> storageRow"
  files :: "string \<Rightarrow> (int \<times> fileRow) list"
  inventory :: "string \<times> int \<rightharpoonup> inventoryRow"
  blocks :: "string \<Rightarrow> (ActivationBlockKind \<times> string) list"

record FileObservation =
  obsIndex :: int
  obsBytes :: int

record RuntimeObservation =
  Fence :: RuntimeFence
  Sequence :: int
  ObsApplied :: int
  ObsState :: TorrentState
  ObsError :: ErrorReason
  ProgressSource :: string
  ObservedAt :: int
  VerifiedBytes :: int
  ObsFiles :: "FileObservation list"

section \<open>Conditions of the statements\<close>

text \<open>The torrent exists and is neither being deleted nor moved.\<close>

definition undisturbed :: "string \<Rightarrow> db \<Rightarrow> bool" where
  "undisturbed h d \<longleftrightarrow>
     (case torrents d h of None \<Rightarrow> False | Some t \<Rightarrow> deletionMode t = [])
     \<and> (case storages d h of None \<Rightarrow> True | Some s \<Rightarrow> storageState s \<noteq> ''moving'')"

definition atVersion :: "'a IntentVersion_scheme \<Rightarrow> db \<Rightarrow> intentRow option" where
  "atVersion v d =
     (case intents d (iv_hash v) of
        None \<Rightarrow> None
      | Some r \<Rightarrow> if recordID r = iv_record v \<and> revision r = iv_revision v then Some r else None)"

definition atFence :: "RuntimeFence \<Rightarrow> db \<Rightarrow> intentRow option" where
  "atFence f d =
     (case atVersion f d of None \<Rightarrow> None | Some r \<Rightarrow> if attachment r = rf_attachment f then Some r else None)"

section \<open>Run intents\<close>

definition GetIntent :: "string \<Rightarrow> db \<Rightarrow> (IntentVersion \<times> RunIntent) option" where
  "GetIntent h d =
     map_option (\<lambda>r. (\<lparr>iv_hash = h, iv_record = recordID r, iv_revision = revision r\<rparr>, runIntent r)) (intents d h)"

definition retryBlocks :: "string \<Rightarrow> db \<Rightarrow> db" where
  "retryBlocks rid d = d\<lparr>blocks := (blocks d)(rid := filter (\<lambda>(k, _). \<not> ResumeRetryable k) (blocks d rid))\<rparr>"

text \<open>\<open>io\<close> is the failure of one of the statements or of the commit, if there is one.\<close>

definition commitRunIntent ::
    "string option \<Rightarrow> IntentVersion \<Rightarrow> RunIntent \<Rightarrow> bool \<Rightarrow> db \<Rightarrow> (storeError, IntentVersion) result \<times> db" where
  "commitRunIntent io v run retry d =
     (if \<not> RunIntent_Valid run \<or> iv_hash v = [] \<or> iv_record v = [] \<or> iv_revision v < 1 \<or> iv_revision v = MaxInt64
      then (Inl InvalidCommand, d)
      else case io of
        Some e \<Rightarrow> (Inl (DatabaseError e), d)
      | None \<Rightarrow>
         (let d' = (if retry then retryBlocks (iv_record v) d else d)
          in case atVersion v d' of
            None \<Rightarrow> (Inl StateConflict, d)
          | Some r \<Rightarrow>
             if \<not> undisturbed (iv_hash v) d' \<or> run \<noteq> RunPaused \<and> blocks d' (recordID r) \<noteq> [] then (Inl StateConflict, d)
             else (Inr (v\<lparr>iv_revision := iv_revision v + 1\<rparr>),
                   d'\<lparr>intents := (intents d')(iv_hash v \<mapsto> r\<lparr>runIntent := run, revision := revision r + 1\<rparr>),
                      torrents := (torrents d')(iv_hash v := map_option (\<lambda>t. t\<lparr>
                         rowState := (if run = RunPaused then StatePaused else StateQueued), rowError := []\<rparr>)
                         (torrents d' (iv_hash v)))\<rparr>)))"

definition CommitRunIntent where
  "CommitRunIntent io v run d = commitRunIntent io v run False d"

definition CommitResumeRetry where
  "CommitResumeRetry io v d = commitRunIntent io v RunEnabled True d"

text \<open>\<open>token\<close> is the hexadecimal text of the random bytes, if they could be read.\<close>

definition AttachRuntime ::
    "string option \<Rightarrow> string option \<Rightarrow> IntentVersion \<Rightarrow> db \<Rightarrow> (storeError, RuntimeFence) result \<times> db" where
  "AttachRuntime token io v d =
     (case token of
        None \<Rightarrow> (Inl (DatabaseError ''random''), d)
      | Some token \<Rightarrow>
         (case io of
            Some e \<Rightarrow> (Inl (DatabaseError e), d)
          | None \<Rightarrow>
             (case atVersion v d of
                None \<Rightarrow> (Inl StateConflict, d)
              | Some r \<Rightarrow>
                 if revision r \<le> 0 \<or> \<not> undisturbed (iv_hash v) d then (Inl StateConflict, d)
                 else (Inr \<lparr>iv_hash = iv_hash v, iv_record = iv_record v, iv_revision = iv_revision v, rf_attachment = token\<rparr>,
                       d\<lparr>intents := (intents d)(iv_hash v \<mapsto>
                          r\<lparr>attachment := token, observationSeq := 0, appliedRevision := 0\<rparr>)\<rparr>))))"

section \<open>Observations\<close>

definition verified :: "RuntimeObservation \<Rightarrow> bool" where
  "verified obs \<longleftrightarrow> ProgressSource obs = ''verified''"

fun checkFileBytes :: "int list \<Rightarrow> int \<Rightarrow> FileObservation list \<Rightarrow> int option" where
  "checkFileBytes seen bytes [] = Some bytes"
| "checkFileBytes seen bytes (f # fs) =
     (if obsIndex f < 0 \<or> obsBytes f < 0 \<or> obsIndex f \<in> set seen \<or> obsBytes f > MaxInt64 - bytes then None
      else checkFileBytes (obsIndex f # seen) (bytes + obsBytes f) fs)"

definition checkObservation :: "RuntimeObservation \<Rightarrow> int option" where
  "checkObservation obs =
     (let f = Fence obs in
      if iv_hash f = [] \<or> iv_record f = [] \<or> rf_attachment f = [] \<or> iv_revision f < 1 \<or> Sequence obs < 1
         \<or> ObsApplied obs < 0 \<or> ObsApplied obs > iv_revision f \<or> VerifiedBytes obs < 0 then None
      else if ProgressSource obs \<noteq> ''unknown'' \<and> ProgressSource obs \<noteq> ''checking'' \<and> \<not> verified obs
              \<or> verified obs \<and> ObservedAt obs \<le> 0 then None
      else checkFileBytes [] 0 (ObsFiles obs))"

definition acceptSequence :: "RuntimeObservation \<Rightarrow> db \<Rightarrow> db option" where
  "acceptSequence obs d =
     (case atFence (Fence obs) d of
        None \<Rightarrow> None
      | Some r \<Rightarrow>
         if observationSeq r \<ge> Sequence obs \<or> \<not> undisturbed (iv_hash (Fence obs)) d then None
         else Some (d\<lparr>intents := (intents d)(iv_hash (Fence obs) \<mapsto> r\<lparr>
                observationSeq := Sequence obs, appliedRevision := ObsApplied obs,
                observedState := ObsState obs, observedError := ObsError obs\<rparr>)\<rparr>))"

definition storeProgress :: "int \<Rightarrow> RuntimeObservation \<Rightarrow> db \<Rightarrow> (storeError, db) result" where
  "storeProgress bytes obs d =
     (let h = iv_hash (Fence obs) in
      if \<not> verified obs then Inr d
      else if length (files d h) \<noteq> length (ObsFiles obs) \<or> bytes \<noteq> VerifiedBytes obs then Inl IncompleteCatalog
      else case torrents d h of
        None \<Rightarrow> Inl ExceedsCatalog
      | Some t \<Rightarrow>
         if VerifiedBytes obs < 0 \<or> VerifiedBytes obs > rowSize t then Inl ExceedsCatalog
         else Inr (d\<lparr>torrents := (torrents d)(h \<mapsto> t\<lparr>rowDownloaded := VerifiedBytes obs, rowSource := ''verified'',
                  rowObservedAt := ObservedAt obs\<rparr>)\<rparr>))"

text \<open>A verified file with bytes becomes expected, if its mapping is ready; an unchanged expectation
  is not written.\<close>

definition expectFile :: "RuntimeObservation \<Rightarrow> int \<Rightarrow> fileRow \<Rightarrow> db \<Rightarrow> db" where
  "expectFile obs i f d =
     (let h = iv_hash (Fence obs) in
      case storages d h of
        None \<Rightarrow> d
      | Some s \<Rightarrow>
         if storageState s \<noteq> ''ready'' then d
         else
           (let new = \<lparr>invRecord = iv_record (Fence obs), invMapping = storageRevision s, invPath = filePath f,
                       invSize = fileSize f, invExpected = True, invPresence = ''present'', invReason = [],
                       invObservedAt = ObservedAt obs sdiv 1000000\<rparr>
            in case inventory d (h, i) of
              None \<Rightarrow> d\<lparr>inventory := (inventory d)((h, i) \<mapsto> new)\<rparr>
            | Some old \<Rightarrow>
               if \<not> invExpected old \<or> invRecord old \<noteq> invRecord new \<or> invMapping old \<noteq> invMapping new
                  \<or> invPath old \<noteq> invPath new \<or> invSize old \<noteq> invSize new
               then d\<lparr>inventory := (inventory d)((h, i) \<mapsto> new)\<rparr> else d))"

definition setDownloaded :: "string \<Rightarrow> int \<Rightarrow> int \<Rightarrow> db \<Rightarrow> db" where
  "setDownloaded h i n d = d\<lparr>files := (files d)(h :=
     map (\<lambda>(j, f). (j, if j = i then f\<lparr>fileDownloaded := n\<rparr> else f)) (files d h))\<rparr>"

text \<open>The catalog is read once, before the rows are written.\<close>

fun storeFiles :: "RuntimeObservation \<Rightarrow> (int \<times> fileRow) list \<Rightarrow> FileObservation list \<Rightarrow> db \<Rightarrow> (storeError, db) result" where
  "storeFiles obs catalog [] d = Inr d"
| "storeFiles obs catalog (o' # os) d =
     (case map_of catalog (obsIndex o') of
        None \<Rightarrow> Inl FileNotFound
      | Some f \<Rightarrow>
         if obsBytes o' > fileSize f then Inl FileNotFound
         else
           (let d = (if verified obs \<and> obsBytes o' \<noteq> fileDownloaded f
                     then setDownloaded (iv_hash (Fence obs)) (obsIndex o') (obsBytes o') d else d);
                d = (if verified obs \<and> obsBytes o' > 0 then expectFile obs (obsIndex o') f d else d)
            in storeFiles obs catalog os d))"

definition SaveRuntimeObservation :: "string option \<Rightarrow> RuntimeObservation \<Rightarrow> db \<Rightarrow> storeError option \<times> db" where
  "SaveRuntimeObservation io obs d =
     (case checkObservation obs of
        None \<Rightarrow> (Some InvalidObservation, d)
      | Some bytes \<Rightarrow>
         (case io of
            Some e \<Rightarrow> (Some (DatabaseError e), d)
          | None \<Rightarrow>
             (case acceptSequence obs d of
                None \<Rightarrow> (Some StaleObservation, d)
              | Some d1 \<Rightarrow>
                 (case storeProgress bytes obs d1 of
                    Inl e \<Rightarrow> (Some e, d)
                  | Inr d2 \<Rightarrow>
                     (case storeFiles obs (files d2 (iv_hash (Fence obs))) (ObsFiles obs) d2 of
                        Inl e \<Rightarrow> (Some e, d)
                      | Inr d3 \<Rightarrow> (None, d3))))))"

section \<open>Activation blocks\<close>

definition putBlock :: "string \<Rightarrow> ActivationBlockKind \<Rightarrow> string \<Rightarrow> db \<Rightarrow> db" where
  "putBlock rid kind reason d = d\<lparr>blocks := (blocks d)(rid := (kind, reason) # filter (\<lambda>(k, _). k \<noteq> kind) (blocks d rid))\<rparr>"

definition PutActivationBlock ::
    "string option \<Rightarrow> RuntimeFence \<Rightarrow> ActivationBlockKind \<Rightarrow> string \<Rightarrow> db \<Rightarrow> storeError option \<times> db" where
  "PutActivationBlock io f kind reason d =
     (if \<not> BlockKind_Valid kind \<or> reason = [] \<or> rf_attachment f = [] then (Some InvalidBlock, d)
      else case io of
        Some e \<Rightarrow> (Some (DatabaseError e), d)
      | None \<Rightarrow>
         (case atFence f d of
            None \<Rightarrow> (Some StateConflict, d)
          | Some r \<Rightarrow> (None, putBlock (recordID r) kind reason d)))"

definition PutRuntimeSafetyBlock ::
    "string option \<Rightarrow> RuntimeFence \<Rightarrow> ActivationBlockKind \<Rightarrow> string \<Rightarrow> db \<Rightarrow> storeError option \<times> db" where
  "PutRuntimeSafetyBlock io f kind reason d =
     (if kind \<noteq> BlockMetadataPersistence \<and> kind \<noteq> BlockInvalidSelection \<and> kind \<noteq> BlockMissingFiles
         \<or> reason = [] \<or> rf_attachment f = [] \<or> iv_revision f < 1 then (Some InvalidBlock, d)
      else case io of
        Some e \<Rightarrow> (Some (DatabaseError e), d)
      | None \<Rightarrow>
         (case intents d (iv_hash f) of
            None \<Rightarrow> (Some StateConflict, d)
          | Some r \<Rightarrow>
             if recordID r = iv_record f \<and> revision r \<ge> iv_revision f \<and> attachment r = rf_attachment f
             then (None, putBlock (recordID r) kind reason d)
             else (Some StateConflict, d)))"

definition ClearActivationBlock ::
    "string option \<Rightarrow> RuntimeFence \<Rightarrow> ActivationBlockKind \<Rightarrow> db \<Rightarrow> storeError option \<times> db" where
  "ClearActivationBlock io f kind d =
     (if \<not> BlockKind_Valid kind \<or> rf_attachment f = [] then (Some InvalidBlock, d)
      else case io of
        Some e \<Rightarrow> (Some (DatabaseError e), d)
      | None \<Rightarrow>
         (case atFence f d of
            None \<Rightarrow> (Some StateConflict, d)
          | Some r \<Rightarrow> (None, d\<lparr>blocks := (blocks d)(iv_record f := filter (\<lambda>(k, _). k \<noteq> kind) (blocks d (iv_record f)))\<rparr>)))"

text \<open>The text a kind is stored as, which orders the rows of a query.\<close>

fun kindText :: "ActivationBlockKind \<Rightarrow> string" where
  "kindText BlockVerification = ''verification''"
| "kindText BlockMissingFiles = ''missing_files''"
| "kindText BlockLegacyError = ''legacy_error''"
| "kindText BlockMetadataPersistence = ''metadata_persistence''"
| "kindText BlockInvalidSelection = ''invalid_selection''"
| "kindText (OtherBlock s) = s"

definition ActivationBlocks :: "IntentVersion \<Rightarrow> db \<Rightarrow> (ActivationBlockKind \<times> string) list" where
  "ActivationBlocks v d =
     (case atVersion v d of None \<Rightarrow> [] | Some r \<Rightarrow> sort_key (\<lambda>(k, _). kindText k) (blocks d (recordID r)))"

section \<open>Histories\<close>

text \<open>The operations of the store in any order, and the creation and deletion of a record by the
  catalog, which gives it a row of its own.\<close>

datatype storeOp =
    OpCommit "string option" IntentVersion RunIntent bool
  | OpAttach "string option" "string option" IntentVersion
  | OpObserve "string option" RuntimeObservation
  | OpPut "string option" RuntimeFence ActivationBlockKind string
  | OpPutSafety "string option" RuntimeFence ActivationBlockKind string
  | OpClear "string option" RuntimeFence ActivationBlockKind
  | OpRecord string "intentRow option"

fun storeStep :: "storeOp \<Rightarrow> db \<Rightarrow> db" where
  "storeStep (OpCommit io v run retry) d = snd (commitRunIntent io v run retry d)"
| "storeStep (OpAttach token io v) d = snd (AttachRuntime token io v d)"
| "storeStep (OpObserve io obs) d = snd (SaveRuntimeObservation io obs d)"
| "storeStep (OpPut io f kind reason) d = snd (PutActivationBlock io f kind reason d)"
| "storeStep (OpPutSafety io f kind reason) d = snd (PutRuntimeSafetyBlock io f kind reason d)"
| "storeStep (OpClear io f kind) d = snd (ClearActivationBlock io f kind d)"
| "storeStep (OpRecord h row) d = d\<lparr>intents := (intents d)(h := row)\<rparr>"

section \<open>Rows only move forward\<close>

lemma expectFile_intents [simp]: "intents (expectFile obs i f d) = intents d"
  by (simp add: expectFile_def Let_def split: option.split)

lemma storeFiles_intents: "storeFiles obs catalog os d = Inr d' \<Longrightarrow> intents d' = intents d"
proof (induction os arbitrary: d)
  case (Cons o' os)
  obtain f where f: "map_of catalog (obsIndex o') = Some f" "\<not> obsBytes o' > fileSize f"
    using Cons.prems by (auto split: option.splits if_splits)
  from Cons.IH[of "if verified obs \<and> obsBytes o' > 0 then expectFile obs (obsIndex o') f
      (if verified obs \<and> obsBytes o' \<noteq> fileDownloaded f then setDownloaded (iv_hash (Fence obs)) (obsIndex o') (obsBytes o') d else d)
      else (if verified obs \<and> obsBytes o' \<noteq> fileDownloaded f then setDownloaded (iv_hash (Fence obs)) (obsIndex o') (obsBytes o') d else d)"]
  show ?case using Cons.prems f by (simp add: Let_def setDownloaded_def split: if_splits)
qed simp

lemma storeProgress_intents: "storeProgress bytes obs d = Inr d' \<Longrightarrow> intents d' = intents d"
  by (auto simp: storeProgress_def Let_def split: if_splits option.splits)

text \<open>An observation writes the row of its fence, if it writes at all.\<close>

lemma observe_cases:
  obtains "snd (SaveRuntimeObservation io obs d) = d" "fst (SaveRuntimeObservation io obs d) \<noteq> None"
  | r r' where "fst (SaveRuntimeObservation io obs d) = None" "atFence (Fence obs) d = Some r"
      "recordID r' = recordID r" "revision r' = revision r" "attachment r' = attachment r"
      "observationSeq r < Sequence obs" "observationSeq r' = Sequence obs"
      "intents (snd (SaveRuntimeObservation io obs d)) = (intents d)(iv_hash (Fence obs) \<mapsto> r')"
proof (cases "fst (SaveRuntimeObservation io obs d)")
  case (Some e)
  then show ?thesis
    using that(1) by (auto simp: SaveRuntimeObservation_def split: option.splits sum.splits)
next
  case None
  then obtain bytes d1 d2 d3 where s: "acceptSequence obs d = Some d1" "storeProgress bytes obs d1 = Inr d2"
      "storeFiles obs (files d2 (iv_hash (Fence obs))) (ObsFiles obs) d2 = Inr d3" "snd (SaveRuntimeObservation io obs d) = d3"
    by (auto simp: SaveRuntimeObservation_def split: option.splits sum.splits)
  then have i: "intents d3 = intents d1" using storeFiles_intents storeProgress_intents by metis
  obtain r where r: "atFence (Fence obs) d = Some r" "observationSeq r < Sequence obs"
      "intents d1 = (intents d)(iv_hash (Fence obs) \<mapsto> r\<lparr>observationSeq := Sequence obs, appliedRevision := ObsApplied obs,
         observedState := ObsState obs, observedError := ObsError obs\<rparr>)"
    using s(1) by (auto simp: acceptSequence_def split: option.splits if_splits)
  show ?thesis by (rule that(2)[OF None r(1) _ _ _ r(2)]) (simp_all add: s(4) i r(3))
qed

lemma atFenceD: "atFence f d = Some r \<Longrightarrow> intents d (iv_hash f) = Some r \<and> recordID r = iv_record f
    \<and> revision r = iv_revision f \<and> attachment r = rf_attachment f"
  by (auto simp: atFence_def atVersion_def split: option.splits if_splits)

lemma atVersionD: "atVersion v d = Some r \<Longrightarrow> intents d (iv_hash v) = Some r \<and> recordID r = iv_record v \<and> revision r = iv_revision v"
  by (auto simp: atVersion_def split: option.splits if_splits)

lemma commit_cases:
  obtains e where "commitRunIntent io v run retry d = (Inl e, d)"
  | r d' where "commitRunIntent io v run retry d = (Inr (v\<lparr>iv_revision := iv_revision v + 1\<rparr>), d')" "atVersion v d = Some r"
      "intents d' = (intents d)(iv_hash v \<mapsto> r\<lparr>runIntent := run, revision := revision r + 1\<rparr>)"
      "1 \<le> iv_revision v" "iv_revision v \<noteq> MaxInt64"
      "blocks d' = blocks (if retry then retryBlocks (iv_record v) d else d)"
      "run = RunPaused \<or> blocks d' (iv_record v) = []"
proof -
  have same: "atVersion v (retryBlocks rid d) = atVersion v d" "intents (retryBlocks rid d) = intents d" for rid
    by (simp_all add: atVersion_def retryBlocks_def)
  have "(\<exists>e. commitRunIntent io v run retry d = (Inl e, d))
    \<or> (\<exists>r d'. commitRunIntent io v run retry d = (Inr (v\<lparr>iv_revision := iv_revision v + 1\<rparr>), d') \<and> atVersion v d = Some r
      \<and> intents d' = (intents d)(iv_hash v \<mapsto> r\<lparr>runIntent := run, revision := revision r + 1\<rparr>)
      \<and> 1 \<le> iv_revision v \<and> iv_revision v \<noteq> MaxInt64
      \<and> blocks d' = blocks (if retry then retryBlocks (iv_record v) d else d) \<and> (run = RunPaused \<or> blocks d' (iv_record v) = []))"
    unfolding commitRunIntent_def Let_def
    by (auto simp: same split: option.splits dest: atVersionD)
  then show ?thesis using that by blast
qed

lemma attach_cases:
  obtains e where "AttachRuntime token io v d = (Inl e, d)"
  | r tok where "token = Some tok" "atVersion v d = Some r"
      "AttachRuntime token io v d = (Inr \<lparr>iv_hash = iv_hash v, iv_record = iv_record v, iv_revision = iv_revision v, rf_attachment = tok\<rparr>,
         d\<lparr>intents := (intents d)(iv_hash v \<mapsto> r\<lparr>attachment := tok, observationSeq := 0, appliedRevision := 0\<rparr>)\<rparr>)"
proof -
  have "(\<exists>e. AttachRuntime token io v d = (Inl e, d))
    \<or> (\<exists>r tok. token = Some tok \<and> atVersion v d = Some r
      \<and> AttachRuntime token io v d = (Inr \<lparr>iv_hash = iv_hash v, iv_record = iv_record v, iv_revision = iv_revision v, rf_attachment = tok\<rparr>,
         d\<lparr>intents := (intents d)(iv_hash v \<mapsto> r\<lparr>attachment := tok, observationSeq := 0, appliedRevision := 0\<rparr>)\<rparr>))"
    unfolding AttachRuntime_def by (auto split: option.split)
  then show ?thesis using that by blast
qed

lemma blocks_ops_intents [simp]:
  "intents (snd (PutActivationBlock io f kind reason d)) = intents d"
  "intents (snd (PutRuntimeSafetyBlock io f kind reason d)) = intents d"
  "intents (snd (ClearActivationBlock io f kind d)) = intents d"
  by (simp_all add: PutActivationBlock_def PutRuntimeSafetyBlock_def ClearActivationBlock_def putBlock_def split: option.split)

text \<open>Record identities and attachment tokens are random: what the operations of a history may not
  issue again.\<close>

fun newRecords :: "string \<Rightarrow> storeOp \<Rightarrow> bool" where
  "newRecords rid (OpRecord h (Some row)) = (recordID row \<noteq> rid)"
| "newRecords rid _ = True"

fun newTokens :: "string \<Rightarrow> storeOp \<Rightarrow> bool" where
  "newTokens a (OpAttach (Some tok) io v) = (tok \<noteq> a)"
| "newTokens a _ = True"

text \<open>A version that is over, an attachment that was replaced.\<close>

definition deadVersion :: "'a IntentVersion_scheme \<Rightarrow> db \<Rightarrow> bool" where
  "deadVersion v d \<longleftrightarrow> (\<forall>r. intents d (iv_hash v) = Some r \<longrightarrow> recordID r = iv_record v \<longrightarrow> revision r > iv_revision v)"

definition deadFence :: "RuntimeFence \<Rightarrow> db \<Rightarrow> bool" where
  "deadFence f d \<longleftrightarrow> (\<forall>r. intents d (iv_hash f) = Some r \<longrightarrow> recordID r = iv_record f \<longrightarrow> attachment r \<noteq> rf_attachment f)"

lemma deadVersion_step:
  assumes "deadVersion v d" "newRecords (iv_record v) op"
  shows "deadVersion v (storeStep op d)"
proof (cases op)
  case (OpCommit io v' run retry)
  then show ?thesis
    using assms by (cases rule: commit_cases[of io v' run retry d]) (auto simp: deadVersion_def dest!: atVersionD)
next
  case (OpAttach token io v')
  then show ?thesis
    using assms by (cases rule: attach_cases[of token io v' d]) (auto simp: deadVersion_def dest!: atVersionD)
next
  case (OpObserve io obs)
  then show ?thesis
    using assms by (cases rule: observe_cases[of io obs d]) (auto simp: deadVersion_def dest!: atFenceD)
next
  case (OpRecord h row)
  then show ?thesis using assms by (cases row) (auto simp: deadVersion_def)
qed (use assms in \<open>simp_all add: deadVersion_def\<close>)

lemma deadFence_step:
  assumes "deadFence f d" "newRecords (iv_record f) op" "newTokens (rf_attachment f) op"
  shows "deadFence f (storeStep op d)"
proof (cases op)
  case (OpCommit io v' run retry)
  then show ?thesis
    using assms by (cases rule: commit_cases[of io v' run retry d]) (auto simp: deadFence_def dest!: atVersionD)
next
  case (OpAttach token io v')
  then show ?thesis
    using assms by (cases rule: attach_cases[of token io v' d]) (auto simp: deadFence_def dest!: atVersionD)
next
  case (OpObserve io obs)
  then show ?thesis
    using assms by (cases rule: observe_cases[of io obs d]) (auto simp: deadFence_def dest!: atFenceD)
next
  case (OpRecord h row)
  then show ?thesis using assms by (cases row) (auto simp: deadFence_def)
qed (use assms in \<open>simp_all add: deadFence_def\<close>)

lemma deadVersion_history:
  "deadVersion v d \<Longrightarrow> list_all (newRecords (iv_record v)) ops \<Longrightarrow> deadVersion v (fold storeStep ops d)"
  by (induction ops arbitrary: d) (auto simp: deadVersion_step)

lemma deadFence_history:
  "deadFence f d \<Longrightarrow> list_all (newRecords (iv_record f)) ops \<Longrightarrow> list_all (newTokens (rf_attachment f)) ops
    \<Longrightarrow> deadFence f (fold storeStep ops d)"
  by (induction ops arbitrary: d) (auto simp: deadFence_step)

lemma deadVersion_commit: "deadVersion v d \<Longrightarrow> \<exists>e. commitRunIntent io v run retry d = (Inl e, d)"
  by (cases rule: commit_cases[of io v run retry d]) (auto simp: deadVersion_def dest!: atVersionD)

lemma dead_atFence: "deadFence f d \<Longrightarrow> atFence f d = None"
  by (cases "atFence f d") (auto simp: deadFence_def dest: atFenceD)

text \<open>Every writer that carries a dead fence is turned away and changes nothing.\<close>

definition rejected :: "storeError option \<times> db \<Rightarrow> db \<Rightarrow> bool" where
  "rejected res d \<longleftrightarrow> fst res \<noteq> None \<and> snd res = d"

lemma deadFence_rejected:
  assumes "deadFence f d"
  shows "Fence obs = f \<Longrightarrow> rejected (SaveRuntimeObservation io obs d) d" "rejected (PutActivationBlock io f kind reason d) d"
    "rejected (PutRuntimeSafetyBlock io f kind reason d) d" "rejected (ClearActivationBlock io f kind d) d"
proof -
  note dead = dead_atFence[OF assms]
  show "rejected (SaveRuntimeObservation io obs d) d" if "Fence obs = f"
    using dead that by (cases rule: observe_cases[of io obs d]) (auto simp: rejected_def)
  show "rejected (PutActivationBlock io f kind reason d) d" "rejected (ClearActivationBlock io f kind d) d"
    by (simp_all add: rejected_def PutActivationBlock_def ClearActivationBlock_def dead split: option.split)
  show "rejected (PutRuntimeSafetyBlock io f kind reason d) d"
    using assms by (auto simp: rejected_def PutRuntimeSafetyBlock_def deadFence_def split: option.split)
qed

section \<open>Properties\<close>

text \<open>C13: a command on a run intent is a compare and swap. When it succeeds the intent was at the
  command's version and is at the next one; enabling leaves no activation block, and only a retry
  removed blocks, none but the retryable ones. No later history can accept a command on the old
  version again, as long as record identities are not reissued.\<close>

theorem intent_commit_once:
  assumes "commitRunIntent io v run retry d = (Inr v', d')" "list_all (newRecords (iv_record v)) ops"
  shows "(\<exists>run0. GetIntent (iv_hash v) d = Some (v, run0)) \<and> GetIntent (iv_hash v) d' = Some (v', run) \<and> v' = v\<lparr>iv_revision := iv_revision v + 1\<rparr> \<and> iv_revision v' \<noteq> iv_revision v
    \<and> (run = RunEnabled \<longrightarrow> blocks d' (iv_record v) = [])
    \<and> (\<forall>b\<in>set (blocks d (iv_record v)). b \<in> set (blocks d' (iv_record v)) \<or> retry \<and> ResumeRetryable (fst b))
    \<and> (\<exists>e. commitRunIntent io' v run' retry' (fold storeStep ops d') = (Inl e, fold storeStep ops d'))"
  using commit_cases[of io v run retry d]
proof cases
  case (2 r d'')
  note v = atVersionD[OF 2(2)]
  have d': "d'' = d'" "v' = v\<lparr>iv_revision := iv_revision v + 1\<rparr>" using assms(1) 2(1) by simp_all
  have "deadVersion v d'" using 2(3) v by (auto simp: deadVersion_def d'(1))
  from deadVersion_commit[OF deadVersion_history[OF this assms(2)]] show ?thesis
    using 2(3,6,7) v d' by (auto simp: GetIntent_def retryBlocks_def)
qed (use assms in simp)

text \<open>C17: a replaced runtime cannot write. Once another attachment was issued for a record, every
  write that carries the old fence is refused and changes nothing, in every later history that
  reissues neither the token nor the record's identity.\<close>

theorem stale_runtime_cannot_write:
  assumes "AttachRuntime (Some token) io v d = (Inr f', d')" "token \<noteq> rf_attachment f"
    "iv_hash f = iv_hash v" "iv_record f = iv_record v"
    "list_all (newRecords (iv_record f)) ops" "list_all (newTokens (rf_attachment f)) ops"
  shows "let later = fold storeStep ops d' in
    (Fence obs = f \<longrightarrow> rejected (SaveRuntimeObservation io' obs later) later) \<and> rejected (PutActivationBlock io' f kind reason later) later
    \<and> rejected (PutRuntimeSafetyBlock io' f kind reason later) later \<and> rejected (ClearActivationBlock io' f kind later) later"
proof -
  have "deadFence f d'"
    using attach_cases[of "Some token" io v d] assms(1-4) by cases (auto simp: deadFence_def)
  from deadFence_rejected[OF deadFence_history[OF this assms(5,6)]] show ?thesis by (simp add: Let_def)
qed

section \<open>A concrete database\<close>

definition exVersion :: IntentVersion where
  "exVersion = \<lparr>iv_hash = ''aa'', iv_record = ''r1'', iv_revision = 1\<rparr>"

definition exRow :: intentRow where
  "exRow = \<lparr>recordID = ''r1'', revision = 1, runIntent = RunPaused, attachment = ''t0'', observationSeq = 4,
     appliedRevision = 1, observedState = StatePaused, observedError = []\<rparr>"

definition exDb :: db where
  "exDb = \<lparr>torrents = [''aa'' \<mapsto> \<lparr>deletionMode = [], rowState = StatePaused, rowError = [], rowSize = 5, rowDownloaded = 0,
       rowSource = ''unknown'', rowObservedAt = 0\<rparr>],
     intents = [''aa'' \<mapsto> exRow], storages = Map.empty, files = (\<lambda>_. []), inventory = Map.empty,
     blocks = (\<lambda>_. []) (''r1'' := [(BlockMissingFiles, ''gone'')])\<rparr>"

definition exOld :: RuntimeFence where
  "exOld = \<lparr>iv_hash = ''aa'', iv_record = ''r1'', iv_revision = 1, rf_attachment = ''t0''\<rparr>"

lemmas db_defs = exVersion_def exRow_def exDb_def exOld_def atVersion_def undisturbed_def retryBlocks_def

theorem intent_commit_once_witness:
  "GetIntent ''aa'' (snd (commitRunIntent None exVersion RunEnabled True exDb)) = Some (exVersion\<lparr>iv_revision := 2\<rparr>, RunEnabled)
   \<and> (\<exists>e. commitRunIntent None exVersion RunPaused False (snd (commitRunIntent None exVersion RunEnabled True exDb))
        = (Inl e, snd (commitRunIntent None exVersion RunEnabled True exDb)))"
proof -
  have c: "commitRunIntent None exVersion RunEnabled True exDb
      = (Inr (exVersion\<lparr>iv_revision := 2\<rparr>), snd (commitRunIntent None exVersion RunEnabled True exDb))"
    by (simp add: commitRunIntent_def Let_def db_defs)
  from intent_commit_once[OF c, of "[]" None RunPaused False] show ?thesis by (simp add: db_defs)
qed

theorem stale_runtime_cannot_write_witness:
  "rejected (PutActivationBlock None exOld BlockVerification ''bad'' (snd (AttachRuntime (Some ''t1'') None exVersion exDb)))
     (snd (AttachRuntime (Some ''t1'') None exVersion exDb))"
proof -
  have a: "AttachRuntime (Some ''t1'') None exVersion exDb
      = (Inr (exOld\<lparr>rf_attachment := ''t1''\<rparr>), snd (AttachRuntime (Some ''t1'') None exVersion exDb))"
    by (simp add: AttachRuntime_def db_defs)
  from stale_runtime_cannot_write[OF a, of exOld "[]"] show ?thesis by (simp add: exOld_def exVersion_def Let_def)
qed

end
