(* ===== verification/GoText.thy ===== *)
theory GoText
  imports Prelude "HOL-Library.Sublist"
begin

text \<open>
  The UTF-8 part of the Go packages \<open>unicode/utf8\<close> and \<open>strings\<close> that folder naming uses: rune
  decoding from both ends, replacement of invalid bytes, mapping over runes and trimming. The lemmas on
  valid text show that mapping yields valid UTF-8 and that trimming and truncating keep whole runes.
\<close>

section \<open>Decoding\<close>

abbreviation codeOf :: "char \<Rightarrow> nat" where "codeOf c \<equiv> of_char c"

definition RuneError :: nat where "RuneError = 65533"

definition cont :: "char \<Rightarrow> bool" where "cont c = (128 \<le> codeOf c \<and> codeOf c \<le> 191)"

text \<open>The range of the second byte a leading byte accepts.\<close>

definition second :: "nat \<Rightarrow> char \<Rightarrow> bool" where
  "second lead c =
     (let n = codeOf c in
      if lead = 224 then 160 \<le> n \<and> n \<le> 191
      else if lead = 237 then 128 \<le> n \<and> n \<le> 159
      else if lead = 240 then 144 \<le> n \<and> n \<le> 191
      else if lead = 244 then 128 \<le> n \<and> n \<le> 143
      else 128 \<le> n \<and> n \<le> 191)"

definition low6 :: "char \<Rightarrow> nat" where "low6 c = codeOf c mod 64"

text \<open>The number of continuation bytes a leading byte asks for; 0 for a byte that starts no
  rune of more than one byte.\<close>

definition tailBytes :: "nat \<Rightarrow> nat" where
  "tailBytes b = (if 194 \<le> b \<and> b \<le> 223 then 1 else if 224 \<le> b \<and> b \<le> 239 then 2
     else if 240 \<le> b \<and> b \<le> 244 then 3 else 0)"

definition validTail :: "nat \<Rightarrow> string \<Rightarrow> bool" where
  "validTail b t =
     (let k = tailBytes b in
      0 < k \<and> k \<le> length t \<and> second b (hd t) \<and> list_all cont (take k t))"

definition DecodeRuneInString :: "string \<Rightarrow> nat \<times> nat" where
  "DecodeRuneInString s =
     (case s of
        [] \<Rightarrow> (RuneError, 0)
      | c # t \<Rightarrow>
         (let b = codeOf c; k = tailBytes b in
          if b < 128 then (b, 1)
          else if validTail b t
          then (fold (\<lambda>d acc. acc * 64 + low6 d) (take k t) (b mod 2 ^ (6 - k)), Suc k)
          else (RuneError, 1)))"

definition RuneStart :: "char \<Rightarrow> bool" where "RuneStart c = (\<not> cont c)"

text \<open>The backward scan of \<open>DecodeLastRuneInString\<close>: from index \<open>start\<close> down, at most \<open>k\<close> steps,
  to the first byte that can start a rune.\<close>

fun scanStart :: "string \<Rightarrow> nat \<Rightarrow> nat \<Rightarrow> nat" where
  "scanStart s 0 start = start"
| "scanStart s (Suc k) start =
     (if start < length s \<and> RuneStart (s ! start) then start
      else if start = 0 then 0 else scanStart s k (start - 1))"

definition lastRuneWidth :: "string \<Rightarrow> nat" where
  "lastRuneWidth s =
     (if s = [] then 0
      else if codeOf (last s) < 128 \<or> length s = 1 then 1
      else let start = scanStart s 3 (length s - 2);
               size = snd (DecodeRuneInString (drop start s))
           in if start + size \<noteq> length s then 1 else size)"

lemma decode_width:
  "s \<noteq> [] \<Longrightarrow> 1 \<le> snd (DecodeRuneInString s) \<and> snd (DecodeRuneInString s) \<le> length s
    \<and> snd (DecodeRuneInString s) \<le> 4"
  by (cases s) (auto simp: DecodeRuneInString_def Let_def validTail_def tailBytes_def)

lemma lastRuneWidth_bounds:
  assumes "s \<noteq> []"
  shows "1 \<le> lastRuneWidth s \<and> lastRuneWidth s \<le> 4 \<and> lastRuneWidth s \<le> length s"
proof -
  have sz: "start + snd (DecodeRuneInString (drop start s)) = length s \<Longrightarrow> start < length s \<Longrightarrow>
     1 \<le> snd (DecodeRuneInString (drop start s)) \<and> snd (DecodeRuneInString (drop start s)) \<le> 4
     \<and> snd (DecodeRuneInString (drop start s)) \<le> length s" for start
    using decode_width [of "drop start s"] by auto
  have le: "scanStart s k start \<le> start" for k start
    by (induction s k start rule: scanStart.induct) auto
  have "length s \<noteq> 1 \<Longrightarrow> scanStart s 3 (length s - 2) < length s"
    using le [of 3 "length s - 2"] assms by (cases s) auto
  moreover have "1 \<le> length s" using assms by (cases s) auto
  ultimately show ?thesis using sz assms by (auto simp: lastRuneWidth_def Let_def)
qed

section \<open>Runs over a string\<close>

text \<open>The runes of a string with the bytes each one was decoded from.\<close>

function runes :: "string \<Rightarrow> (nat \<times> string) list" where
  "runes s = (if s = [] then []
     else let w = snd (DecodeRuneInString s)
          in (fst (DecodeRuneInString s), take w s) # runes (drop w s))"
  by pat_completeness auto
termination
  by (relation "measure length") (use decode_width in \<open>fastforce simp: Suc_le_eq\<close>)+

declare runes.simps [simp del]

text \<open>\<open>strings.Map\<close> with a mapping that keeps a rune or replaces it by one ASCII character; an
  invalid byte that is kept is written as the replacement character.\<close>

definition mapRunes :: "(nat \<Rightarrow> char option) \<Rightarrow> string \<Rightarrow> string" where
  "mapRunes f s = concat (map (\<lambda>(r, bs).
     case f r of Some c \<Rightarrow> [c]
     | None \<Rightarrow> if r = RuneError \<and> length bs = 1
               then [char_of (239 :: nat), char_of (191 :: nat), char_of (189 :: nat)] else bs) (runes s))"

text \<open>\<open>strings.ToValidUTF8\<close>: each run of invalid bytes becomes one replacement.\<close>

fun validSegments :: "string \<Rightarrow> bool \<Rightarrow> (nat \<times> string) list \<Rightarrow> string" where
  "validSegments rep invalid [] = []"
| "validSegments rep invalid ((r, bs) # rs) =
     (if r = RuneError \<and> length bs = 1
      then (if invalid then [] else rep) @ validSegments rep True rs
      else bs @ validSegments rep False rs)"

definition ToValidUTF8 :: "string \<Rightarrow> string \<Rightarrow> string" where
  "ToValidUTF8 s rep = validSegments rep False (runes s)"

definition TrimRight :: "string \<Rightarrow> string \<Rightarrow> string" where
  "TrimRight s cutset = rev (dropWhile (\<lambda>c. c \<in> set cutset) (rev s))"

definition Trim :: "string \<Rightarrow> string \<Rightarrow> string" where
  "Trim s cutset = TrimRight (dropWhile (\<lambda>c. c \<in> set cutset) s) cutset"

text \<open>\<open>%d\<close> of a non-negative integer.\<close>

fun decimal :: "nat \<Rightarrow> string" where
  "decimal n = (if n < 10 then [char_of (48 + n)] else decimal (n div 10) @ [char_of (48 + n mod 10)])"

declare decimal.simps [simp del]

lemma runes_concat: "concat (map snd (runes s)) = s"
proof (induction s rule: runes.induct)
  case (1 s)
  then show ?case by (subst runes.simps) (simp add: Let_def)
qed

lemma TrimRight_prefix: "prefix (TrimRight s cset) s"
proof -
  have "rev s = takeWhile (\<lambda>c. c \<in> set cset) (rev s) @ dropWhile (\<lambda>c. c \<in> set cset) (rev s)" by simp
  then have "s = rev (dropWhile (\<lambda>c. c \<in> set cset) (rev s)) @ rev (takeWhile (\<lambda>c. c \<in> set cset) (rev s))"
    by (metis rev_append rev_rev_ident)
  then show ?thesis unfolding TrimRight_def prefix_def by blast
qed

lemma prefix_hd: "prefix p s \<Longrightarrow> p \<noteq> [] \<Longrightarrow> hd p = hd s"
  by (auto simp: prefix_def)

lemma TrimRight_hd:
  assumes "s \<noteq> []" "hd s \<notin> set cset"
  shows "TrimRight s cset \<noteq> []" "hd (TrimRight s cset) = hd s"
proof -
  have "\<exists>x \<in> set (rev s). x \<notin> set cset" using assms by (cases s) auto
  then show ne: "TrimRight s cset \<noteq> []" by (auto simp: TrimRight_def dropWhile_eq_Nil_conv)
  show "hd (TrimRight s cset) = hd s" by (rule prefix_hd [OF TrimRight_prefix ne])
qed

lemma TrimRight_last:
  "TrimRight s cset \<noteq> [] \<Longrightarrow> last (TrimRight s cset) \<notin> set cset"
  unfolding TrimRight_def last_rev by (rule hd_dropWhile) simp

lemma Trim_hd: "Trim s cset \<noteq> [] \<Longrightarrow> hd (Trim s cset) \<notin> set cset"
proof -
  let ?t = "dropWhile (\<lambda>c. c \<in> set cset) s"
  assume ne: "Trim s cset \<noteq> []"
  then have "?t \<noteq> []" unfolding Trim_def TrimRight_def by (metis dropWhile.simps(1) rev.simps(1))
  moreover from this have "hd ?t \<notin> set cset" by (rule hd_dropWhile)
  ultimately show ?thesis using TrimRight_hd(2) by (simp add: Trim_def)
qed

lemma set_TrimRight: "set (TrimRight s cset) \<subseteq> set s"
  unfolding TrimRight_def by (auto dest: set_dropWhileD)

lemma set_Trim: "set (Trim s cset) \<subseteq> set s"
  using set_TrimRight unfolding Trim_def by (fastforce dest: set_dropWhileD)

text \<open>An ASCII byte is decoded alone: in the bytes of a longer rune every byte is at least 128.\<close>

lemma decode_ascii:
  assumes "d \<in> set (take (snd (DecodeRuneInString t)) t)" "codeOf d < 128"
  shows "fst (DecodeRuneInString t) = codeOf d"
proof -
  obtain c0 u where t: "t = c0 # u" using assms(1) by (cases t) auto
  show ?thesis
  proof (cases "codeOf c0 < 128")
    case True
    then show ?thesis using assms(1) by (simp add: t DecodeRuneInString_def Let_def)
  next
    case False
    then have "d \<in> set (take (snd (DecodeRuneInString t) - 1) u)"
      using assms by (cases "snd (DecodeRuneInString t)") (auto simp: t)
    then have "cont d"
      using False by (auto simp: t DecodeRuneInString_def Let_def validTail_def list_all_iff split: if_splits)
    then show ?thesis using assms(2) by (simp add: cont_def)
  qed
qed

lemma runes_ascii:
  "(r, bs) \<in> set (runes t) \<Longrightarrow> d \<in> set bs \<Longrightarrow> codeOf d < 128 \<Longrightarrow> r = codeOf d \<and> d \<in> set t"
proof (induction t rule: runes.induct)
  case (1 t)
  show ?case
  proof (cases "t = []")
    case True
    then show ?thesis using "1.prems" by (simp add: runes.simps)
  next
    case False
    consider "r = fst (DecodeRuneInString t)" "bs = take (snd (DecodeRuneInString t)) t"
      | "(r, bs) \<in> set (runes (drop (snd (DecodeRuneInString t)) t))"
      using "1.prems"(1) False by (subst (asm) runes.simps) (auto simp: Let_def)
    then show ?thesis
    proof cases
      case 1
      then show ?thesis using "1.prems"(2,3) decode_ascii by (auto dest: in_set_takeD)
    next
      case 2
      then show ?thesis using "1.IH" [OF False refl] "1.prems"(2,3) by (auto dest: in_set_dropD)
    qed
  qed
qed

text \<open>An ASCII byte of a mapped string is a replacement, or a byte the mapping keeps.\<close>

lemma set_mapRunes:
  assumes "c \<in> set (mapRunes f s)" "codeOf c < 128"
  shows "(\<exists>r. f r = Some c) \<or> c \<in> set s \<and> f (codeOf c) = None"
proof -
  obtain r bs where rb: "(r, bs) \<in> set (runes s)"
    and c: "c \<in> set (case f r of Some c \<Rightarrow> [c] | None \<Rightarrow> if r = RuneError \<and> length bs = 1
      then [char_of (239 :: nat), char_of (191 :: nat), char_of (189 :: nat)] else bs)"
    using assms(1) unfolding mapRunes_def by auto
  show ?thesis
  proof (cases "f r")
    case (Some d)
    then show ?thesis using c by auto
  next
    case None
    then have "c \<in> set bs" using c assms(2) by (auto split: if_splits)
    then show ?thesis using runes_ascii [OF rb _ assms(2)] None by auto
  qed
qed

lemma decimal_digits: "c \<in> set (decimal n) \<Longrightarrow> 48 \<le> codeOf c \<and> codeOf c \<le> 57"
proof (induction n rule: decimal.induct)
  case (1 n)
  then show ?case by (subst (asm) decimal.simps) (auto split: if_splits)
qed

section \<open>ASCII strings\<close>

lemma runes_of_ascii:
  "list_all (\<lambda>c. codeOf c < 128) s \<Longrightarrow> runes s = map (\<lambda>c. (codeOf c, [c])) s"
proof (induction s)
  case (Cons a s)
  then show ?case by (subst runes.simps) (simp add: DecodeRuneInString_def)
qed (simp add: runes.simps)

lemma ToValidUTF8_ascii:
  assumes "list_all (\<lambda>c. codeOf c < 128) s"
  shows "ToValidUTF8 s rep = s"
proof -
  have "validSegments rep b (map (\<lambda>c. (codeOf c, [c])) s) = s" for b
    using assms by (induction s arbitrary: b) (auto simp: RuneError_def)
  then show ?thesis by (simp add: ToValidUTF8_def runes_of_ascii [OF assms])
qed

lemma mapRunes_ascii:
  assumes "list_all (\<lambda>c. codeOf c < 128 \<and> f (codeOf c) = None) s"
  shows "mapRunes f s = s"
proof -
  have "list_all (\<lambda>c. codeOf c < 128) s" using assms by (auto simp: list_all_iff)
  then have r: "runes s = map (\<lambda>c. (codeOf c, [c])) s" by (rule runes_of_ascii)
  show ?thesis unfolding mapRunes_def r using assms by (induction s) (auto simp: RuneError_def)
qed

section \<open>Valid UTF-8\<close>

text \<open>A rune with its own encoding; a string is valid UTF-8 when all its runes are such blocks.\<close>

definition runeBlock :: "nat \<times> string \<Rightarrow> bool" where
  "runeBlock x \<longleftrightarrow> snd x \<noteq> [] \<and> DecodeRuneInString (snd x) = (fst x, length (snd x))
     \<and> \<not> (fst x = RuneError \<and> length (snd x) = 1)"

definition textOf :: "(nat \<Rightarrow> bool) \<Rightarrow> string \<Rightarrow> bool" where
  "textOf Q s \<longleftrightarrow> list_all (\<lambda>x. runeBlock x \<and> Q (fst x)) (runes s)"

lemma runeBlock_shape:
  assumes "runeBlock (r, bs)"
  shows "(\<exists>c. bs = [c] \<and> codeOf c < 128 \<and> r = codeOf c)
    \<or> (\<exists>c t. bs = c # t \<and> 194 \<le> codeOf c \<and> t \<noteq> [] \<and> length t \<le> 3 \<and> list_all cont t \<and> validTail (codeOf c) t \<and> tailBytes (codeOf c) = length t)"
proof -
  obtain c t where bs: "bs = c # t" using assms by (cases bs) (auto simp: runeBlock_def)
  show ?thesis
  proof (cases "codeOf c < 128")
    case True
    then show ?thesis using assms by (auto simp: runeBlock_def bs DecodeRuneInString_def)
  next
    case False
    then have v: "validTail (codeOf c) t" "tailBytes (codeOf c) = length t"
      using assms by (auto simp: runeBlock_def bs DecodeRuneInString_def Let_def split: if_splits)
    then have "194 \<le> codeOf c" "length t \<le> 3" "t \<noteq> []" "list_all cont t"
      by (auto simp: validTail_def tailBytes_def Let_def split: if_splits)
    then show ?thesis using v bs by blast
  qed
qed

lemma decode_append:
  assumes "runeBlock (r, bs)"
  shows "DecodeRuneInString (bs @ t) = (r, length bs)"
  using runeBlock_shape[OF assms]
proof (elim disjE exE conjE)
  fix c
  assume "bs = [c]" "codeOf c < 128" "r = codeOf c"
  then show ?thesis by (simp add: DecodeRuneInString_def)
next
  fix c u
  assume u: "bs = c # u" "194 \<le> codeOf c" "validTail (codeOf c) u" "tailBytes (codeOf c) = length u" "u \<noteq> []"
  then have "validTail (codeOf c) (u @ t)" by (simp add: validTail_def Let_def)
  moreover have "DecodeRuneInString (c # u) = (r, length bs)" using assms u(1) by (simp add: runeBlock_def)
  ultimately show ?thesis using u by (simp add: DecodeRuneInString_def Let_def)
qed

lemma runes_block: "runeBlock (r, bs) \<Longrightarrow> runes (bs @ s) = (r, bs) # runes s"
proof -
  assume b: "runeBlock (r, bs)"
  then have "bs @ s \<noteq> []" by (simp add: runeBlock_def)
  then show ?thesis using decode_append[OF b, of s] by (subst runes.simps) simp
qed

lemma runes_blocks: "list_all runeBlock bl \<Longrightarrow> runes (concat (map snd bl)) = bl"
proof (induction bl)
  case (Cons x bl)
  obtain r bs where "x = (r, bs)" by fastforce
  then show ?case using Cons runes_block[of r bs] by simp
qed (simp add: runes.simps)

lemma decode_take:
  assumes "DecodeRuneInString s = (r, w)" "s \<noteq> []" "\<not> (r = RuneError \<and> w = 1)"
  shows "runeBlock (r, take w s)"
proof -
  obtain c t where s: "s = c # t" using assms(2) by (cases s) auto
  have "length (take w s) = w" using decode_width[OF assms(2)] assms(1) by simp
  moreover have "DecodeRuneInString (take w s) = (r, w)"
  proof (cases "codeOf c < 128")
    case True
    then show ?thesis using assms(1) s by (auto simp: DecodeRuneInString_def)
  next
    case False
    then have v: "validTail (codeOf c) t" "w = Suc (tailBytes (codeOf c))"
      using assms(1,3) by (auto simp: s DecodeRuneInString_def Let_def split: if_splits)
    then have "validTail (codeOf c) (take (tailBytes (codeOf c)) t)" by (auto simp: validTail_def Let_def hd_take)
    then show ?thesis using assms(1) False v by (simp add: s DecodeRuneInString_def Let_def)
  qed
  ultimately show ?thesis using assms(2,3) decode_width[OF assms(2)] assms(1) by (auto simp: runeBlock_def)
qed

lemma runes_cases: "x \<in> set (runes s) \<Longrightarrow> runeBlock x \<or> fst x = RuneError \<and> length (snd x) = 1"
proof (induction s rule: runes.induct)
  case (1 s)
  show ?case
  proof (cases "s = []")
    case True
    then show ?thesis using "1.prems" by (simp add: runes.simps)
  next
    case False
    obtain r w where d: "DecodeRuneInString s = (r, w)" by fastforce
    then have "x = (r, take w s) \<or> x \<in> set (runes (drop w s))"
      using "1.prems" False by (subst (asm) runes.simps) (simp add: Let_def)
    moreover have "length (take w s) = w" using decode_width[OF False] d by simp
    moreover have "runeBlock (r, take w s)" if "\<not> (r = RuneError \<and> w = 1)" by (rule decode_take[OF d False that])
    ultimately show ?thesis using "1.IH"[OF False refl] d by fastforce
  qed
qed

lemma textOf_concat: "list_all (\<lambda>x. runeBlock x \<and> Q (fst x)) bl \<Longrightarrow> textOf Q (concat (map snd bl))"
  unfolding textOf_def by (subst runes_blocks) (auto simp: list_all_iff)

lemma textOf_append: "textOf Q s \<Longrightarrow> textOf Q t \<Longrightarrow> textOf Q (s @ t)"
  using textOf_concat[of Q "runes s @ runes t"] by (simp add: runes_concat) (simp add: textOf_def)

lemma textOf_ascii: "list_all (\<lambda>c. codeOf c < 128 \<and> Q (codeOf c)) s \<Longrightarrow> textOf Q s"
proof -
  assume a: "list_all (\<lambda>c. codeOf c < 128 \<and> Q (codeOf c)) s"
  then have "runes s = map (\<lambda>c. (codeOf c, [c])) s" by (intro runes_of_ascii) (auto simp: list_all_iff)
  then show ?thesis using a by (auto simp: textOf_def list_all_iff runeBlock_def DecodeRuneInString_def RuneError_def)
qed

text \<open>Cutting ASCII characters off the ends, and the last rune, keeps whole runes.\<close>

lemma textOf_tl: "textOf Q (c # s) \<Longrightarrow> codeOf c < 128 \<Longrightarrow> textOf Q s"
proof -
  assume t: "textOf Q (c # s)" and c: "codeOf c < 128"
  have "runes (c # s) = (codeOf c, [c]) # runes s" using c by (subst runes.simps) (simp add: DecodeRuneInString_def)
  then show ?thesis using t by (simp add: textOf_def)
qed

lemma textOf_butlast_runes:
  assumes "textOf Q s" "s \<noteq> []"
  obtains p r bs where "s = p @ bs" "runeBlock (r, bs)" "textOf Q p"
proof -
  have r: "concat (map snd (runes s)) = s" "list_all (\<lambda>x. runeBlock x \<and> Q (fst x)) (runes s)"
    using assms(1) by (simp_all add: textOf_def runes_concat)
  obtain bl x where x: "runes s = bl @ [x]" using r(1) assms(2) by (cases "runes s" rule: rev_cases) auto
  have "concat (map snd bl) @ snd x = s" "runeBlock x" "textOf Q (concat (map snd bl))"
    using r textOf_concat[of Q bl] unfolding x by simp_all
  then show ?thesis using that[of "concat (map snd bl)" "snd x" "fst x"] by simp
qed

lemma textOf_snoc:
  assumes "textOf Q (s @ [c])" "codeOf c < 128"
  shows "textOf Q s"
proof -
  obtain p r bs where p: "s @ [c] = p @ bs" "runeBlock (r, bs)" "textOf Q p"
    by (rule textOf_butlast_runes[OF assms(1)]) simp_all
  have "bs \<noteq> []" using p(2) by (simp add: runeBlock_def)
  then obtain bs' where bs': "bs = bs' @ [last bs]" by (metis append_butlast_last_id)
  then have "s @ [c] = (p @ bs') @ [last bs]" using p(1) by simp
  then have "last bs = c" "s = p @ bs'" by simp_all
  moreover have "bs = [c]"
    using runeBlock_shape[OF p(2)]
  proof (elim disjE exE conjE)
    fix d u
    assume "bs = d # u" "u \<noteq> []" "list_all cont u"
    then have "cont c" using \<open>last bs = c\<close> by (auto simp: list_all_iff)
    then show ?thesis using assms(2) by (simp add: cont_def)
  qed (use \<open>last bs = c\<close> in auto)
  ultimately show ?thesis using p(3) bs' by simp
qed

lemma textOf_TrimRight:
  assumes "\<forall>c\<in>set cset. codeOf c < 128"
  shows "textOf Q s \<Longrightarrow> textOf Q (TrimRight s cset)"
proof (induction s rule: rev_induct)
  case (snoc c s)
  then show ?case using assms textOf_snoc[of Q s c] by (auto simp: TrimRight_def)
qed (simp add: TrimRight_def)

lemma textOf_Trim:
  assumes "\<forall>c\<in>set cset. codeOf c < 128" "textOf Q s"
  shows "textOf Q (Trim s cset)"
proof -
  have "textOf Q (dropWhile (\<lambda>c. c \<in> set cset) s)"
    using assms(2)
  proof (induction s)
    case (Cons c s)
    then show ?case using assms(1) textOf_tl[of Q c s] by (cases "c \<in> set cset") simp_all
  qed simp
  then show ?thesis unfolding Trim_def by (rule textOf_TrimRight[OF assms(1)])
qed

lemma scanStart_found:
  "j \<le> start \<Longrightarrow> start < j + k \<Longrightarrow> start < length s \<Longrightarrow> RuneStart (s ! j) \<Longrightarrow> (\<forall>i. j < i \<and> i \<le> start \<longrightarrow> \<not> RuneStart (s ! i))
   \<Longrightarrow> scanStart s k start = j"
proof (induction s k start rule: scanStart.induct)
  case (2 s k start)
  show ?case
  proof (cases "start = j")
    case False
    then have "j \<le> start - 1" "start - 1 < j + k" "\<not> RuneStart (s ! start)" "start \<noteq> 0" using "2.prems" by auto
    moreover have "start - 1 < length s" "\<forall>i. j < i \<and> i \<le> start - 1 \<longrightarrow> \<not> RuneStart (s ! i)" using "2.prems" by auto
    ultimately show ?thesis using "2.IH" "2.prems"(4) by simp
  qed (use "2.prems" in simp)
qed simp

lemma lastRuneWidth_block:
  assumes "runeBlock (r, bs)"
  shows "lastRuneWidth (p @ bs) = length bs"
  using runeBlock_shape[OF assms]
proof (elim disjE exE conjE)
  fix c
  assume "bs = [c]" "codeOf c < 128"
  then show ?thesis by (simp add: lastRuneWidth_def)
next
  fix c t
  assume b: "bs = c # t" "194 \<le> codeOf c" "t \<noteq> []" "length t \<le> 3" "list_all cont t"
  let ?s = "p @ bs"
  have "cont (last ?s)" using b by (auto simp: list_all_iff)
  then have big: "\<not> codeOf (last ?s) < 128" "length ?s \<noteq> 1" using b by (auto simp: cont_def)
  have "\<not> RuneStart (?s ! i)" if "length p < i \<and> i \<le> length ?s - 2" for i
  proof -
    have "?s ! i = t ! (i - length p - 1)" "i - length p - 1 < length t" using that b by (auto simp: nth_append)
    then show ?thesis using b(5) by (simp add: RuneStart_def list_all_length)
  qed
  moreover have "RuneStart (?s ! length p)" using b by (simp add: RuneStart_def cont_def)
  moreover have "length p \<le> length ?s - 2" "length ?s - 2 < length p + 3" "length ?s - 2 < length ?s"
    using b by (cases t; simp)+
  ultimately have "scanStart ?s 3 (length ?s - 2) = length p" by (intro scanStart_found) auto
  moreover have "DecodeRuneInString bs = (r, length bs)" using assms by (simp add: runeBlock_def)
  ultimately show ?thesis using big b(1) by (simp add: lastRuneWidth_def Let_def)
qed

lemma textOf_dropLast:
  assumes "textOf Q s"
  shows "textOf Q (take (length s - lastRuneWidth s) s)"
proof (cases "s = []")
  case False
  then obtain p r bs where "s = p @ bs" "runeBlock (r, bs)" "textOf Q p" by (rule textOf_butlast_runes[OF assms]) simp_all
  then show ?thesis by (simp add: lastRuneWidth_block)
qed (use assms in simp)

text \<open>A mapped string is valid, and its runes are replacements or runes the mapping keeps.\<close>

lemma textOf_mapRunes:
  assumes "\<And>r c. f r = Some c \<Longrightarrow> codeOf c < 128 \<and> Q (codeOf c)" "\<And>r. f r = None \<Longrightarrow> Q r"
  shows "textOf Q (mapRunes f s)"
proof -
  let ?fffd = "[char_of (239 :: nat), char_of (191 :: nat), char_of (189 :: nat)]"
  define g where "g = (\<lambda>(r, bs). case f r of Some c \<Rightarrow> (codeOf c, [c])
    | None \<Rightarrow> if r = RuneError \<and> length bs = 1 then (RuneError, ?fffd) else (r, bs))"
  have e: "runeBlock (RuneError, ?fffd)"
    by (simp add: runeBlock_def DecodeRuneInString_def validTail_def tailBytes_def second_def cont_def low6_def RuneError_def Let_def)
  have "runeBlock (g x) \<and> Q (fst (g x))" if x: "x \<in> set (runes s)" for x
  proof (cases x)
    case (Pair r bs)
    show ?thesis
    proof (cases "f r")
      case None
      then show ?thesis using assms(2)[OF None] e runes_cases[OF x] by (auto simp: g_def Pair)
    next
      case (Some c)
      then show ?thesis using assms(1)[OF Some] by (simp add: g_def Pair runeBlock_def DecodeRuneInString_def RuneError_def)
    qed
  qed
  then have "textOf Q (concat (map snd (map g (runes s))))" by (intro textOf_concat) (auto simp: list_all_iff)
  moreover have "mapRunes f s = concat (map snd (map g (runes s)))"
    unfolding mapRunes_def map_map by (rule arg_cong[where f = concat]) (auto simp: g_def split: option.splits)
  ultimately show ?thesis by simp
qed

end
