(* ===== verification/Payload.thy ===== *)
theory Payload
  imports GoPath GoText
begin

text \<open>
  Package \<open>internal/payload\<close>: the layouts that place a torrent's files under the download root,
  relative path validation, folder naming, the overlap test that ownership rests on, and the
  volume checks. Unicode normalisation (\<open>golang.org/x/text\<close>) and the Unicode case tables are an
  argument, and so are the directory tree and the opened files. The lemmas show that a layout
  keeps every file strictly below its root, that files of layouts with disjoint roots never
  overlap, and that generated folder names are always valid roots.
\<close>

section \<open>Parameters and errors\<close>

record unicodeTables =
  nfc :: "string \<Rightarrow> string"
  lower :: "string \<Rightarrow> string"
  upper :: "string \<Rightarrow> string"

datatype fsError = NotExist | OtherFs string

datatype fileMode = Regular | Directory | Symlink | OtherMode

datatype payloadError =
    ErrNotRegular
  | ErrUnsafePath
  | errRelative
  | errUnsupportedLayout
  | errLegacyRoot
  | errOutsidePrefix
  | ErrVolumeUnavailable
  | ErrVolumeUnregistered
  | fsErr fsError

section \<open>Relative paths (\<open>payload/files.go\<close>)\<close>

definition LayoutVersion :: int where "LayoutVersion = 1"

definition NamedLayoutVersion :: int where "NamedLayoutVersion = 2"

definition ValidateRelative :: "string \<Rightarrow> (payloadError, unit) result" where
  "ValidateRelative name =
     (if \<not> IsLocal name \<or> Clean name = dot then Inl errRelative else Inr ())"

definition Root :: "string \<Rightarrow> string" where
  "Root hash = Join [''payload'', hash]"

definition ValidRoot :: "string \<Rightarrow> bool" where
  "ValidRoot root =
     (let parts = splitOn sep (Clean root) in
      length parts = 2 \<and> parts ! 0 = ''payload'' \<and> length (parts ! 1) = 40 \<and> hexDecodes (parts ! 1))"

definition Overlap :: "string \<Rightarrow> string \<Rightarrow> bool" where
  "Overlap a b =
     (let a = Clean a; b = Clean b in
      a = b \<or> HasPrefix a (b @ [sep]) \<or> HasPrefix b (a @ [sep]))"

text \<open>\<open>metainfo.Info\<close> as the payload code reads it: \<open>BestName\<close> and the \<open>BestPath\<close> of every
  upverted file.\<close>

record metaInfo =
  bestName :: string
  filePaths :: "string list list"

definition Path :: "metaInfo \<Rightarrow> string list \<Rightarrow> string" where
  "Path info file =
     Join ((if bestName info \<noteq> ''-'' \<and> bestName info \<noteq> [] then [bestName info] else []) @ file)"

definition IsolatedPath :: "string \<Rightarrow> metaInfo \<Rightarrow> string list \<Rightarrow> string" where
  "IsolatedPath hash info file = Join [Root hash, Path info file]"

text \<open>\<open>Validate\<close> looks at every leading part of the path with \<open>lstat\<close>.\<close>

fun validateParts ::
    "(string \<Rightarrow> (fsError, fileMode) result) \<Rightarrow> string list \<Rightarrow> string list \<Rightarrow> (payloadError, unit) result" where
  "validateParts lstat done [] = Inr ()"
| "validateParts lstat done (p # ps) =
     (case lstat (Join (done @ [p])) of
        Inl NotExist \<Rightarrow> Inr ()
      | Inl e \<Rightarrow> Inl (fsErr e)
      | Inr mode \<Rightarrow>
          if mode = Symlink then Inl ErrUnsafePath
          else if ps = [] \<and> mode \<noteq> Regular then Inl ErrNotRegular
          else validateParts lstat (done @ [p]) ps)"

definition Validate ::
    "(string \<Rightarrow> (fsError, fileMode) result) \<Rightarrow> string \<Rightarrow> (payloadError, unit) result" where
  "Validate lstat name =
     andThen (ValidateRelative name) (\<lambda>_. validateParts lstat [] (splitOn sep (Clean name)))"

text \<open>\<open>storage.OpenRootFile\<close> is an argument; \<open>None\<close> is its \<open>ErrUnsafeFile\<close>.\<close>

definition Open ::
    "(string \<Rightarrow> (fsError, fileMode) result) \<Rightarrow> (string \<Rightarrow> (fsError option, 'f) result) \<Rightarrow> string
       \<Rightarrow> (payloadError, 'f) result" where
  "Open lstat openRootFile name =
     andThen (Validate lstat name) (\<lambda>_.
       case openRootFile name of
         Inl None \<Rightarrow> Inl ErrNotRegular
       | Inl (Some e) \<Rightarrow> Inl (fsErr e)
       | Inr f \<Rightarrow> Inr f)"

section \<open>Layouts (\<open>payload/layout.go\<close>)\<close>

definition CollisionKey :: "unicodeTables \<Rightarrow> string \<Rightarrow> string" where
  "CollisionKey u path = ToLower (lower u) (nfc u (Clean path))"

record Layout =
  lay_version :: int
  lay_root :: string
  lay_prefix :: string

definition Supported :: "int \<Rightarrow> bool" where
  "Supported version \<longleftrightarrow> version = LayoutVersion \<or> version = NamedLayoutVersion"

definition Layout_Validate :: "unicodeTables \<Rightarrow> Layout \<Rightarrow> (payloadError, unit) result" where
  "Layout_Validate u l =
     (if \<not> Supported (lay_version l) \<or> \<not> isOk (ValidateRelative (lay_root l))
      then Inl errUnsupportedLayout
      else if lay_version l = LayoutVersion then
        (if \<not> ValidRoot (lay_root l) \<or> lay_prefix l \<noteq> [] then Inl errLegacyRoot else Inr ())
      else if CHR 0x5C \<in> set (lay_root l) \<or> Clean (lay_root l) \<noteq> lay_root l then Inl ErrUnsafePath
      else if list_ex (\<lambda>p. HasPrefix (ToLower (lower u) p) ''.tsh-'') (splitOn sep (lay_root l))
      then Inl ErrUnsafePath
      else if lay_prefix l \<noteq> [] \<and> (\<not> isOk (ValidateRelative (lay_prefix l))
                \<or> sep \<in> set (lay_prefix l) \<or> CHR 0x5C \<in> set (lay_prefix l))
      then Inl ErrUnsafePath
      else Inr ())"

definition Layout_Relative :: "unicodeTables \<Rightarrow> Layout \<Rightarrow> string \<Rightarrow> (payloadError, string) result" where
  "Layout_Relative u l metadataPath =
     andThen (Layout_Validate u l) (\<lambda>_.
     andThen (ValidateRelative metadataPath) (\<lambda>_.
       let path = Clean metadataPath in
       if lay_prefix l \<noteq> [] then
         (case CutPrefix path (lay_prefix l @ [sep]) of
            None \<Rightarrow> Inl errOutsidePrefix
          | Some rest \<Rightarrow> if isOk (ValidateRelative rest) then Inr rest else Inl errOutsidePrefix)
       else Inr path))"

definition Layout_Path :: "unicodeTables \<Rightarrow> Layout \<Rightarrow> string \<Rightarrow> (payloadError, string) result" where
  "Layout_Path u l metadataPath =
     andThen (Layout_Relative u l metadataPath) (\<lambda>path. Inr (Join [lay_root l, path]))"

definition Layout_File :: "unicodeTables \<Rightarrow> Layout \<Rightarrow> metaInfo \<Rightarrow> string list \<Rightarrow> (payloadError, string) result" where
  "Layout_File u l info file = Layout_Path u l (Path info file)"

definition MetadataPrefix :: "metaInfo \<Rightarrow> string" where
  "MetadataPrefix info =
     (let name = bestName info in
      if \<not> isOk (ValidateRelative name) \<or> sep \<in> set name \<or> CHR 0x5C \<in> set name then []
      else if filePaths info = [] then []
      else if list_all (\<lambda>f. HasPrefix (Path info f) (name @ [sep])) (filePaths info) then name else [])"

text \<open>Folder names. \<open>forbidden\<close> is the rune test of \<open>FolderName\<close>'s \<open>strings.Map\<close>, \<open>reservedName\<close>
  its test for device names.\<close>

definition forbidden :: "nat \<Rightarrow> char option" where
  "forbidden r =
     (if r < 32 \<or> (127 \<le> r \<and> r \<le> 159) \<or> r \<in> set (map of_char (''<>:/|?*'' @ [CHR 0x22, CHR 0x5C]))
      then Some (CHR ''_'') else None)"

definition reservedName :: "unicodeTables \<Rightarrow> string \<Rightarrow> bool" where
  "reservedName u name =
     (let base = ToUpper (upper u) (takeWhile (\<lambda>c. c \<noteq> CHR ''.'') name) in
      base \<in> {''CON'', ''PRN'', ''AUX'', ''NUL'', ''CONIN$'', ''CONOUT$''}
      \<or> (length base = 4 \<and> (HasPrefix base ''COM'' \<or> HasPrefix base ''LPT'')
          \<and> CHR ''0'' \<le> base ! 3 \<and> base ! 3 \<le> CHR ''9''))"

function truncateName :: "string \<Rightarrow> string" where
  "truncateName name =
     (if 180 < length name then truncateName (take (length name - lastRuneWidth name) name) else name)"
  by pat_completeness auto
termination
proof (relation "measure length")
  fix name :: string
  assume "180 < length name"
  then have "name \<noteq> []" by auto
  then show "(take (length name - lastRuneWidth name) name, name) \<in> measure length"
    using lastRuneWidth_bounds [of name] by simp
qed simp

declare truncateName.simps [simp del]

definition FolderName :: "unicodeTables \<Rightarrow> string \<Rightarrow> string" where
  "FolderName u name =
     (let name = nfc u (ToValidUTF8 name ''_'');
          name = mapRunes forbidden name;
          name = Trim name [CHR '' '', CHR ''.'', CHR 0x09];
          name = (if name = [] then ''Torrent'' else name);
          name = (if reservedName u name \<or> HasPrefix (ToLower (lower u) name) ''.tsh-''
                  then ''Torrent_'' @ name else name)
      in TrimRight (truncateName name) '' .'')"

definition NamedRoot :: "unicodeTables \<Rightarrow> string \<Rightarrow> int \<Rightarrow> string" where
  "NamedRoot u name ordinal =
     (let name = FolderName u name in
      Join [''payload'',
        if 1 < ordinal then name @ '' ('' @ decimal (nat ordinal) @ '')'' else name])"

section \<open>Volumes (\<open>payload/volume.go\<close>)\<close>

record VolumeRegistration =
  vr_root :: string
  vr_token :: string
  vr_state :: string

text \<open>The directory tree: \<open>dirIdentity\<close> opens a directory and asks for its file system identity
  (an error of the second kind does not stop the search for an existing parent).\<close>

record volumeTree =
  lstat :: "string \<Rightarrow> (fsError, fileMode) result"
  openDir :: "string \<Rightarrow> (fsError, (fsError, string) result) result"
  openFile :: "string \<Rightarrow> (fsError option, (fsError, string) result) result"

partial_function (option) nearestDir ::
    "volumeTree \<Rightarrow> string \<Rightarrow> (payloadError, string \<times> string) result option" where
  "nearestDir t path =
     (case openDir t path of
        Inl NotExist \<Rightarrow> nearestDir t (Dir path)
      | Inl (OtherFs e) \<Rightarrow> Some (Inl (fsErr (OtherFs e)))
      | Inr (Inl e) \<Rightarrow> Some (Inl (fsErr e))
      | Inr (Inr device) \<Rightarrow> Some (Inr (path, device)))"

declare nearestDir.simps [code]

fun ascend :: "volumeTree \<Rightarrow> string \<Rightarrow> nat \<Rightarrow> string \<Rightarrow> (payloadError, string) result" where
  "ascend t current budget path =
     (if path = dot then Inr path
      else case budget of
        0 \<Rightarrow> Inl ErrUnsafePath
      | Suc b \<Rightarrow>
         (case openDir t (Dir path) of
            Inl e \<Rightarrow> Inl (fsErr e)
          | Inr (Inl e) \<Rightarrow> Inl (fsErr e)
          | Inr (Inr device) \<Rightarrow>
              if device \<noteq> current then Inr path else ascend t current b (Dir path)))"

declare ascend.simps [simp del]

definition FindVolumeRoot :: "volumeTree \<Rightarrow> string \<Rightarrow> (payloadError, string) result option" where
  "FindVolumeRoot t path =
     (if path \<noteq> dot \<and> (\<not> isOk (ValidateRelative path) \<or> Clean path \<noteq> path)
      then Some (Inl ErrUnsafePath)
      else let start = (if path \<noteq> dot \<and> lstat t path = Inr Regular then Dir path else path) in
        case nearestDir t start of
          None \<Rightarrow> None
        | Some (Inl e) \<Rightarrow> Some (Inl e)
        | Some (Inr (found, device)) \<Rightarrow> Some (ascend t device 128 found))"

fun bestVolume :: "string \<Rightarrow> VolumeRegistration option \<Rightarrow> VolumeRegistration list \<Rightarrow> VolumeRegistration option" where
  "bestVolume path best [] = best"
| "bestVolume path best (v # vs) =
     bestVolume path
       (if (vr_root v = dot \<or> path = vr_root v
              \<or> (Overlap path (vr_root v) \<and> length (vr_root v) < length path))
           \<and> (case best of None \<Rightarrow> True | Some b \<Rightarrow> length (vr_root b) < length (vr_root v))
        then Some v else best) vs"

definition VolumeMarker :: string where "VolumeMarker = ''.tsh-volume''"

definition CheckVolume ::
    "volumeTree \<Rightarrow> string \<Rightarrow> VolumeRegistration list \<Rightarrow> (payloadError, unit) result option" where
  "CheckVolume t path volumes =
     (case bestVolume path None volumes of
        None \<Rightarrow> Some (Inl ErrVolumeUnregistered)
      | Some v \<Rightarrow>
         (if vr_state v \<noteq> ''ready'' then Some (Inl ErrVolumeUnregistered)
          else case Open (lstat t) (openFile t) (Join [vr_root v, VolumeMarker]) of
            Inl e \<Rightarrow> Some (Inl ErrVolumeUnavailable)
          | Inr (Inl e) \<Rightarrow> Some (Inl ErrVolumeUnavailable)
          | Inr (Inr content) \<Rightarrow>
              if take 256 content \<noteq> vr_token v @ [CHR 0x0A] then Some (Inl ErrVolumeUnavailable)
              else case FindVolumeRoot t path of
                None \<Rightarrow> None
              | Some (Inl e) \<Rightarrow> Some (Inl ErrVolumeUnavailable)
              | Some (Inr actual) \<Rightarrow>
                  if actual \<noteq> vr_root v then Some (Inl ErrVolumeUnregistered) else Some (Inr ())))"

section \<open>Specification vocabulary\<close>

text \<open>Case folding by the Unicode tables maps letters only, so it never makes a leading dot. This
  is a hypothesis on the parameter where it matters.\<close>

definition lowerKeepsDot :: "unicodeTables \<Rightarrow> bool" where
  "lowerKeepsDot u \<longleftrightarrow> (\<forall>s. HasPrefix (lower u s) ''.'' \<longrightarrow> HasPrefix s ''.'')"

text \<open>The relative path of a list of components; the empty list is the managed root itself.\<close>

definition relPath :: "string list \<Rightarrow> string" where
  "relPath cs = (if cs = [] then dot else joinWith sep cs)"

text \<open>A registered volume covers a path.\<close>

definition covers :: "string \<Rightarrow> VolumeRegistration \<Rightarrow> bool" where
  "covers path v \<longleftrightarrow> vr_root v = dot \<or> path = vr_root v
     \<or> (Overlap path (vr_root v) \<and> length (vr_root v) < length path)"

text \<open>Tables for concrete instances: ASCII text is its own normal form, and other text is left
  alone.\<close>

definition asciiTables :: unicodeTables where
  "asciiTables = \<lparr>nfc = (\<lambda>s. s), lower = (\<lambda>s. s), upper = (\<lambda>s. s)\<rparr>"

text \<open>A managed root with one directory per volume, for concrete instances.\<close>

definition exTree :: volumeTree where
  "exTree = \<lparr>lstat = (\<lambda>p. if p = ''.tsh-volume'' then Inr Regular else Inl NotExist),
     openDir = (\<lambda>p. if p = ''.'' then Inr (Inr ''dev1'')
       else if p = ''mnt'' then Inr (Inr ''dev2'') else Inl NotExist),
     openFile = (\<lambda>p. if p = ''.tsh-volume'' then Inr (Inr (''token'' @ [CHR 0x0A])) else Inl (Some NotExist))\<rparr>"

text \<open>A long name that hides a device name: the reserved name check runs before the name is cut
  to 180 bytes, and cutting and trimming can leave exactly the device name.\<close>

definition hiddenDevice :: string where
  "hiddenDevice = ''CON'' @ replicate 177 (CHR '' '') @ ''x''"

section \<open>Component view of layouts\<close>

text \<open>For validated paths every operation of the package is an operation on component lists.\<close>

lemma isOk_ValidateRelative:
  "isOk (ValidateRelative p) \<longleftrightarrow> IsLocal p \<and> Clean p \<noteq> dot"
  by (simp add: ValidateRelative_def)

lemma ValidateRelative_Inr:
  "ValidateRelative p = Inr x \<longleftrightarrow> IsLocal p \<and> Clean p \<noteq> dot"
  by (simp add: ValidateRelative_def)

lemma valid_proper:
  assumes "isOk (ValidateRelative p)"
  shows "properComps (cleanComps p)" "Clean p = joinWith sep (cleanComps p)"
  using local_proper assms by (auto simp: isOk_ValidateRelative)

lemma valid_join: "properComps cs \<Longrightarrow> isOk (ValidateRelative (joinWith sep cs))"
  by (simp add: isOk_ValidateRelative local_join)

lemma valid_not_abs: "isOk (ValidateRelative p) \<Longrightarrow> \<not> IsAbs p \<and> p \<noteq> []"
  by (auto simp: isOk_ValidateRelative IsLocal_def split: if_splits)

lemma cleanComps_append:
  assumes "\<not> IsAbs r" "r \<noteq> []" "properComps cs"
  shows "cleanComps (r @ sep # joinWith sep cs) = cleanComps r @ cs"
proof -
  have "\<not> IsAbs (r @ sep # joinWith sep cs)" using assms(1,2) by (cases r) (simp_all add: IsAbs_def)
  then show ?thesis
    using assms(1,3) by (simp add: cleanComps_def splitOn_append fold_clean_proper properComps_def)
qed

lemma Join_root:
  assumes "isOk (ValidateRelative r)" "properComps cs"
  shows "Join [r, joinWith sep cs] = joinWith sep (cleanComps r @ cs)"
    and "properComps (cleanComps r @ cs)"
proof -
  note r = valid_not_abs [OF assms(1)]
  show "properComps (cleanComps r @ cs)"
    using valid_proper(1) [OF assms(1)] assms(2) by (rule properComps_append)
  have "\<not> IsAbs (r @ sep # joinWith sep cs)" using r by (cases r) (simp_all add: IsAbs_def)
  then show "Join [r, joinWith sep cs] = joinWith sep (cleanComps r @ cs)"
    using r assms(2) by (simp add: Join_def Clean_def cleanComps_append properComps_def)
qed

lemma prefix_append_cases: "prefix (a @ c) (b @ d) \<Longrightarrow> prefix a b \<or> prefix b a"
  by (metis append_prefixD prefixI prefix_same_cases)

lemma overlap_components:
  assumes "isOk (ValidateRelative a)" "isOk (ValidateRelative b)"
  shows "Overlap a b \<longleftrightarrow> prefix (cleanComps a) (cleanComps b) \<or> prefix (cleanComps b) (cleanComps a)"
  using valid_proper [OF assms(1)] valid_proper [OF assms(2)]
  by (auto simp: Overlap_def Let_def prefix_join_iff join_proper_inj strict_prefix_def)

lemma layout_root_valid: "Layout_Validate u l = Inr x \<Longrightarrow> isOk (ValidateRelative (lay_root l))"
  by (auto simp: Layout_Validate_def split: if_splits)

text \<open>The relative part of a metadata path: its components without the persisted prefix.\<close>

lemma Layout_Relative_comps:
  assumes "Layout_Relative u l m = Inr path"
  shows "\<exists>cs. properComps cs \<and> path = joinWith sep cs
    \<and> cleanComps m = (if lay_prefix l = [] then cs else splitOn sep (lay_prefix l) @ cs)"
proof -
  have m: "isOk (ValidateRelative m)" using assms
    by (auto simp: Layout_Relative_def isOk_iff)
  note pm = valid_proper [OF m]
  show ?thesis
  proof (cases "lay_prefix l = []")
    case True
    then show ?thesis using assms pm by (auto simp: Layout_Relative_def Let_def)
  next
    case False
    then have rest: "isOk (ValidateRelative path)" and "Clean m = lay_prefix l @ sep # path"
      using assms by (auto simp: Layout_Relative_def Let_def CutPrefix_def prefix_def
          split: option.splits if_splits)
    then have split: "cleanComps m = splitOn sep (lay_prefix l) @ splitOn sep path"
      using pm by (metis splitOn_append splitOn_join_proper)
    have "properComps (splitOn sep path)"
      using split pm(1) by (simp add: properComps_def)
    then show ?thesis using split False by (intro exI [of _ "splitOn sep path"]) simp
  qed
qed

lemma Layout_Path_comps:
  assumes "Layout_Path u l m = Inr p"
  shows "\<exists>cs. properComps cs \<and> p = joinWith sep (cleanComps (lay_root l) @ cs)
    \<and> properComps (cleanComps (lay_root l) @ cs)
    \<and> cleanComps m = (if lay_prefix l = [] then cs else splitOn sep (lay_prefix l) @ cs)"
proof -
  obtain path where path: "Layout_Relative u l m = Inr path" and p: "p = Join [lay_root l, path]"
    using assms by (auto simp: Layout_Path_def)
  obtain cs where cs: "properComps cs" "path = joinWith sep cs"
    "cleanComps m = (if lay_prefix l = [] then cs else splitOn sep (lay_prefix l) @ cs)"
    using Layout_Relative_comps [OF path] by blast
  have "isOk (ValidateRelative (lay_root l))"
    using path layout_root_valid by (auto simp: Layout_Relative_def)
  from Join_root [OF this cs(1)] show ?thesis using cs p by blast
qed

section \<open>Folder names\<close>

lemma dropWhile_replicate_append: "P x \<Longrightarrow> dropWhile P (replicate k x @ ys) = dropWhile P ys"
  by (induction k) auto

lemma truncateName_prefix: "prefix (truncateName name) name"
proof (induction name rule: truncateName.induct)
  case (1 name)
  show ?case
  proof (cases "180 < length name")
    case True
    have "prefix (take (length name - lastRuneWidth name) name) name" by (simp add: take_is_prefix)
    then show ?thesis using "1.IH" [OF True] True
      by (subst truncateName.simps) (auto intro: prefix_order.trans)
  qed (simp add: truncateName.simps)
qed

lemma truncateName_bound: "length (truncateName name) \<le> 180"
proof (induction name rule: truncateName.induct)
  case (1 name)
  then show ?case by (subst truncateName.simps) auto
qed

lemma truncateName_nonempty: "name \<noteq> [] \<Longrightarrow> truncateName name \<noteq> []"
proof (induction name rule: truncateName.induct)
  case (1 name)
  show ?case
  proof (cases "180 < length name")
    case True
    then have "take (length name - lastRuneWidth name) name \<noteq> []"
      using lastRuneWidth_bounds [of name] "1.prems" by auto
    then show ?thesis using "1.IH" [OF True] True by (subst truncateName.simps) simp
  qed (use "1.prems" in \<open>simp add: truncateName.simps\<close>)
qed

lemma forbidden_result: "forbidden r = Some c \<Longrightarrow> c = CHR ''_''"
  by (simp add: forbidden_def split: if_splits)

lemma mapRunes_allowed:
  assumes "c \<in> set (mapRunes forbidden s)"
  shows "c \<noteq> sep \<and> c \<noteq> CHR 0x5C \<and> 32 \<le> codeOf c"
proof (cases "codeOf c < 128")
  case True
  from set_mapRunes [OF assms True] show ?thesis
  proof
    assume "\<exists>r. forbidden r = Some c"
    then show ?thesis using forbidden_result by fastforce
  next
    assume "c \<in> set s \<and> forbidden (codeOf c) = None"
    then show ?thesis by (auto simp: forbidden_def split: if_splits)
  qed
qed auto

lemma FolderName_shape:
  "FolderName u name \<noteq> [] \<and> length (FolderName u name) \<le> 180
   \<and> hd (FolderName u name) \<notin> {CHR '' '', CHR ''.''}
   \<and> last (FolderName u name) \<notin> {CHR '' '', CHR ''.''}
   \<and> sep \<notin> set (FolderName u name) \<and> CHR 0x5C \<notin> set (FolderName u name)
   \<and> (\<forall>c \<in> set (FolderName u name). 32 \<le> codeOf c)"
proof -
  define n1 where "n1 = Trim (mapRunes forbidden (nfc u (ToValidUTF8 name ''_''))) [CHR '' '', CHR ''.'', CHR 0x09]"
  define n2 where "n2 = (if n1 = [] then ''Torrent'' else n1)"
  define n3 where "n3 = (if reservedName u n2 \<or> HasPrefix (ToLower (lower u) n2) ''.tsh-''
                         then ''Torrent_'' @ n2 else n2)"
  have eq: "FolderName u name = TrimRight (truncateName n3) '' .''"
    by (simp add: FolderName_def Let_def n1_def n2_def n3_def)
  have good1: "c \<in> set n1 \<Longrightarrow> c \<noteq> sep \<and> c \<noteq> CHR 0x5C \<and> 32 \<le> codeOf c" for c
    using mapRunes_allowed set_Trim unfolding n1_def by blast
  have "n1 \<noteq> [] \<Longrightarrow> hd n1 \<notin> {CHR '' '', CHR ''.''}"
    using Trim_hd unfolding n1_def by fastforce
  then have n2: "n2 \<noteq> []" "hd n2 \<notin> {CHR '' '', CHR ''.''}"
    and good2: "\<forall>c \<in> set n2. c \<noteq> sep \<and> c \<noteq> CHR 0x5C \<and> 32 \<le> codeOf c"
    using good1 by (auto simp: n2_def)
  have n3: "n3 \<noteq> []" "hd n3 \<notin> {CHR '' '', CHR ''.''}"
    and good3: "\<forall>c \<in> set n3. c \<noteq> sep \<and> c \<noteq> CHR 0x5C \<and> 32 \<le> codeOf c"
    using n2 good2 by (auto simp: n3_def)
  have t: "truncateName n3 \<noteq> []" "hd (truncateName n3) = hd n3"
    using truncateName_nonempty [OF n3(1)] prefix_hd [OF truncateName_prefix] by auto
  have "hd (truncateName n3) \<notin> set '' .''" using n3(2) t(2) by simp
  note tr = TrimRight_hd [OF t(1) this]
  have "set (TrimRight (truncateName n3) '' .'') \<subseteq> set n3"
    using set_TrimRight set_mono_prefix [OF truncateName_prefix] by blast
  moreover have "length (TrimRight (truncateName n3) '' .'') \<le> 180"
    using prefix_length_le [OF TrimRight_prefix] truncateName_bound le_trans by blast
  moreover have "last (TrimRight (truncateName n3) '' .'') \<notin> set '' .''"
    by (rule TrimRight_last [OF tr(1)])
  ultimately show ?thesis using tr t n3(2) good3 unfolding eq by auto
qed

text \<open>The runes a folder name may have: no control character and none of \<open><>:"/\|?*\<close>.\<close>

definition portableRune :: "nat \<Rightarrow> bool" where
  "portableRune r \<longleftrightarrow> 32 \<le> r \<and> (r < 127 \<or> 159 < r) \<and> r \<notin> set (map of_char (''<>:/|?*'' @ [CHR 0x22, CHR 0x5C]))"

lemma textOf_truncateName: "textOf Q name \<Longrightarrow> textOf Q (truncateName name)"
proof (induction name rule: truncateName.induct)
  case (1 name)
  then show ?case using textOf_dropLast by (subst truncateName.simps) auto
qed

lemma FolderName_runes: "textOf portableRune (FolderName u name)"
proof -
  have "textOf portableRune (mapRunes forbidden s)" for s
    by (rule textOf_mapRunes) (auto simp: forbidden_def portableRune_def split: if_splits)
  moreover have "textOf portableRune ''Torrent''" "textOf portableRune ''Torrent_''"
    by (rule textOf_ascii, simp add: portableRune_def)+
  moreover have "textOf portableRune (''Torrent_'' @ s)" if "textOf portableRune s" for s
    by (rule textOf_append) (fact | rule that)+
  ultimately show ?thesis unfolding FolderName_def Let_def
    by (intro textOf_TrimRight textOf_truncateName) (simp_all add: textOf_Trim)
qed

lemma asciiLower_dot: "asciiLower c = CHR ''.'' \<Longrightarrow> c = CHR ''.''"
proof -
  assume d: "asciiLower c = CHR ''.''"
  have "of_char (CHR ''.'') = (46 :: nat)" by simp
  then have n: "(of_char (asciiLower c) :: nat) = 46" using d by simp
  show "c = CHR ''.''"
  proof (cases "65 \<le> codeOf c \<and> codeOf c \<le> 90")
    case True
    then have "(of_char (asciiLower c) :: nat) = codeOf c + 32"
      by (simp add: asciiLower_def Let_def)
    then show ?thesis using n True by simp
  next
    case False
    then show ?thesis using d by (auto simp: asciiLower_def Let_def)
  qed
qed

lemma ToLower_dot:
  assumes "lowerKeepsDot u" "HasPrefix (ToLower (lower u) s) ''.tsh-''"
  shows "s \<noteq> [] \<and> hd s = CHR ''.''"
proof (cases "isASCII s")
  case True
  then have "HasPrefix (map asciiLower s) ''.tsh-''" using assms(2) by (simp add: ToLower_def)
  then show ?thesis using asciiLower_dot [of "hd s"] by (cases s) simp_all
next
  case False
  then have "HasPrefix (lower u s) ''.''" using assms(2)
    by (auto simp: ToLower_def prefix_def)
  then have "HasPrefix s ''.''" using assms(1) by (simp add: lowerKeepsDot_def)
  then show ?thesis by (cases s) auto
qed

lemma NamedRoot_comps:
  "\<exists>n. NamedRoot u name ordinal = joinWith sep [''payload'', n] \<and> properComps [''payload'', n]
     \<and> CHR 0x5C \<notin> set n \<and> hd n \<noteq> CHR ''.''"
proof -
  define n where "n = (if 1 < ordinal then FolderName u name @ '' ('' @ decimal (nat ordinal) @ '')''
    else FolderName u name)"
  note shape = FolderName_shape [of u name]
  have nodigit: "c \<in> set (decimal k) \<Longrightarrow> c \<noteq> sep \<and> c \<noteq> CHR 0x5C" for c k
    using decimal_digits by fastforce
  have n: "n \<noteq> []" "hd n \<noteq> CHR ''.''" "sep \<notin> set n" "CHR 0x5C \<notin> set n"
    using shape nodigit by (auto simp: n_def)
  have "properComp n" using n by (auto simp: properComp_def)
  moreover have pl: "properComps [''payload'']" by (simp add: properComps_def properComp_def)
  ultimately have pc: "properComps [''payload'', n]" "properComps [n]" by (simp_all add: properComps_def)
  have "cleanComps ''payload'' = [''payload'']" using cleanComps_join [OF pl] by simp
  moreover have "isOk (ValidateRelative ''payload'')" using valid_join [OF pl] by simp
  ultimately have "Join [''payload'', joinWith sep [n]] = joinWith sep [''payload'', n]"
    using Join_root(1) [OF _ pc(2)] by simp
  then show ?thesis using pc n by (intro exI [of _ n]) (simp add: NamedRoot_def Let_def n_def)
qed

lemma MetadataPrefix_valid:
  "MetadataPrefix info = [] \<or> isOk (ValidateRelative (MetadataPrefix info))
     \<and> sep \<notin> set (MetadataPrefix info) \<and> CHR 0x5C \<notin> set (MetadataPrefix info)"
  by (auto simp: MetadataPrefix_def Let_def)

section \<open>Volume search\<close>

lemma relPath_dot: "list_all properComp cs \<Longrightarrow> relPath cs = dot \<longleftrightarrow> cs = []"
  using local_join(2) by (auto simp: relPath_def properComps_def)

lemma Dir_relPath:
  assumes "list_all properComp (cs @ [c])"
  shows "Dir (relPath (cs @ [c])) = relPath cs"
proof -
  have c: "sep \<notin> set c" using assms by (simp add: properComp_def)
  have dw: "dropWhile (\<lambda>x. x \<noteq> sep) (rev c @ zs) = dropWhile (\<lambda>x. x \<noteq> sep) zs" for zs
    using c by (subst dropWhile_append2) auto
  show ?thesis
  proof (cases "cs = []")
    case True
    have "Clean [] = dot" by (simp add: Clean_def cleanComps_def IsAbs_def)
    then show ?thesis using True dw [of "[]"] by (simp add: Dir_def relPath_def del: dropWhile_eq_Nil_conv)
  next
    case False
    then have p: "properComps cs" using assms by (simp add: properComps_def)
    have "joinWith sep (cs @ [c]) = joinWith sep cs @ sep # c" using False by (simp add: joinWith_append)
    then have "Dir (joinWith sep (cs @ [c])) = Clean (joinWith sep cs @ [sep])"
      by (simp add: Dir_def dw)
    also have "\<dots> = joinWith sep cs"
    proof -
      have "\<not> IsAbs (joinWith sep cs @ [sep])"
        using join_proper_head [OF p] by (cases "joinWith sep cs") (simp_all add: IsAbs_def)
      moreover have "splitOn sep (joinWith sep cs @ [sep]) = cs @ [[]]"
        using p splitOn_append [of sep "joinWith sep cs" "[]"] by simp
      ultimately show ?thesis using p
        by (simp add: Clean_def cleanComps_def fold_clean_proper properComps_def)
    qed
    finally show ?thesis using False by (simp add: relPath_def)
  qed
qed

lemma nearestDir_returns:
  assumes "list_all properComp cs" "openDir t dot \<noteq> Inl NotExist"
  shows "\<exists>r. nearestDir t (relPath cs) = Some r \<and> (\<forall>p d. r = Inr (p, d) \<longrightarrow>
    (\<exists>k \<le> length cs. p = relPath (take k cs) \<and> openDir t p = Inr (Inr d)))"
  using assms(1)
proof (induction cs rule: rev_induct)
  case Nil
  then show ?case using assms(2)
    by (subst nearestDir.simps) (auto simp: relPath_def split: sum.split fsError.split)
next
  case (snoc c cs)
  show ?case
  proof (cases "openDir t (relPath (cs @ [c])) = Inl NotExist")
    case True
    then have "nearestDir t (relPath (cs @ [c])) = nearestDir t (relPath cs)"
      using snoc.prems by (subst nearestDir.simps) (simp add: Dir_relPath)
    moreover obtain r where r: "nearestDir t (relPath cs) = Some r"
      "\<forall>p d. r = Inr (p, d) \<longrightarrow> (\<exists>k \<le> length cs. p = relPath (take k cs) \<and> openDir t p = Inr (Inr d))"
      using snoc by auto
    moreover have "\<exists>k \<le> length (cs @ [c]). p = relPath (take k (cs @ [c])) \<and> openDir t p = Inr (Inr d)"
      if "r = Inr (p, d)" for p d
    proof -
      obtain k where "k \<le> length cs" "p = relPath (take k cs)" "openDir t p = Inr (Inr d)"
        using r(2) \<open>r = Inr (p, d)\<close> by blast
      then show ?thesis by (intro exI [of _ k]) simp
    qed
    ultimately show ?thesis by auto
  next
    case False
    then show ?thesis
      by (subst nearestDir.simps)
         (auto split: sum.split fsError.split intro!: exI [of _ "length (cs @ [c])"])
  qed
qed

lemma ascend_boundary:
  assumes "list_all properComp cs" "ascend t cur b (relPath cs) = Inr root"
  shows "\<exists>k \<le> length cs. root = relPath (take k cs)
    \<and> (\<forall>j. k \<le> j \<and> j < length cs \<longrightarrow> openDir t (relPath (take j cs)) = Inr (Inr cur))
    \<and> (k = 0 \<or> (\<exists>d. openDir t (relPath (take (k - 1) cs)) = Inr (Inr d) \<and> d \<noteq> cur))"
  using assms
proof (induction cs arbitrary: b rule: rev_induct)
  case Nil
  then show ?case by (simp add: ascend.simps relPath_def)
next
  case (snoc c cs)
  have ne: "relPath (cs @ [c]) \<noteq> dot" using snoc.prems(1) relPath_dot by blast
  obtain b' d where b: "b = Suc b'" and d: "openDir t (relPath cs) = Inr (Inr d)"
    and r: "if d \<noteq> cur then root = relPath (cs @ [c]) else ascend t cur b' (relPath cs) = Inr root"
    using snoc.prems ne
    by (subst (asm) ascend.simps) (auto simp: Dir_relPath split: nat.splits sum.splits if_splits)
  show ?case
  proof (cases "d = cur")
    case False
    then show ?thesis using r d by (intro exI [of _ "Suc (length cs)"]) simp
  next
    case True
    then obtain k where "k \<le> length cs" "root = relPath (take k cs)"
      "\<forall>j. k \<le> j \<and> j < length cs \<longrightarrow> openDir t (relPath (take j cs)) = Inr (Inr cur)"
      "k = 0 \<or> (\<exists>d. openDir t (relPath (take (k - 1) cs)) = Inr (Inr d) \<and> d \<noteq> cur)"
      using snoc.IH [of b'] snoc.prems(1) r by auto
    then show ?thesis using d True
      by (intro exI [of _ k]) (auto simp: less_Suc_eq)
  qed
qed

lemma bestVolume_step:
  "bestVolume path best (v # vs) =
     bestVolume path (if covers path v
       \<and> (case best of None \<Rightarrow> True | Some b \<Rightarrow> length (vr_root b) < length (vr_root v))
       then Some v else best) vs"
  by (simp add: covers_def)

lemma bestVolume_longest:
  assumes "bestVolume path best vs = Some v"
  shows "(v \<in> set vs \<and> covers path v \<or> best = Some v)
    \<and> (\<forall>w \<in> set vs. covers path w \<longrightarrow> length (vr_root w) \<le> length (vr_root v))
    \<and> (\<forall>b. best = Some b \<longrightarrow> length (vr_root b) \<le> length (vr_root v))"
  using assms
proof (induction vs arbitrary: best)
  case (Cons w vs)
  from Cons.IH [OF Cons.prems [unfolded bestVolume_step]] show ?case
    by (cases best) (auto split: if_splits)
qed simp

lemma CheckVolume_ok:
  assumes "CheckVolume t path volumes = Some (Inr ())"
  shows "\<exists>v. bestVolume path None volumes = Some v \<and> vr_state v = ''ready''
    \<and> FindVolumeRoot t path = Some (Inr (vr_root v))"
  using assms
  by (auto simp: CheckVolume_def split: option.splits sum.splits if_splits)

section \<open>Properties\<close>

text \<open>C11: A layout is contained and injective. Whatever metadata path it accepts, the physical
  path is clean, local and strictly below the layout's root; two metadata paths that land on the
  same physical path are the same path.\<close>

theorem layout_path_contained:
  assumes "Layout_Path u l m = Inr p"
  shows "properComps (cleanComps p) \<and> Clean p = p
    \<and> strict_prefix (cleanComps (lay_root l)) (cleanComps p)
    \<and> (\<forall>m'. Layout_Path u l m' = Inr p \<longrightarrow> cleanComps m' = cleanComps m)"
proof -
  obtain cs where cs: "properComps cs" "p = joinWith sep (cleanComps (lay_root l) @ cs)"
    "properComps (cleanComps (lay_root l) @ cs)"
    "cleanComps m = (if lay_prefix l = [] then cs else splitOn sep (lay_prefix l) @ cs)"
    using Layout_Path_comps [OF assms] by blast
  have "cleanComps m' = cleanComps m" if "Layout_Path u l m' = Inr p" for m'
    using Layout_Path_comps [OF that] cs by (auto simp: join_proper_inj)
  then show ?thesis using cs by (auto simp: properComps_def strict_prefix_def)
qed

theorem layout_path_contained_witness:
  "Clean ''payload/Show/a.mkv'' = ''payload/Show/a.mkv''
   \<and> strict_prefix (cleanComps ''payload/Show'') (cleanComps ''payload/Show/a.mkv'')"
proof -
  have "Layout_Path asciiTables \<lparr>lay_version = 2, lay_root = ''payload/Show'', lay_prefix = ''x''\<rparr>
    ''x/./a.mkv'' = Inr ''payload/Show/a.mkv''" by code_simp
  from layout_path_contained [OF this] show ?thesis by simp
qed

text \<open>C15: Layouts with disjoint roots never share a file. If two layouts' roots do not overlap,
  no file placed by one overlaps a file placed by the other, as equal paths or as a directory
  above it.\<close>

theorem layouts_disjoint:
  assumes "\<not> Overlap (lay_root l1) (lay_root l2)"
    and "Layout_Path u l1 m1 = Inr p1" "Layout_Path u l2 m2 = Inr p2"
  shows "\<not> Overlap p1 p2"
proof -
  have root: "isOk (ValidateRelative (lay_root l))" if "Layout_Path u l m = Inr p" for l m p
    using that layout_root_valid by (auto simp: Layout_Path_def Layout_Relative_def)
  obtain c1 where c1: "p1 = joinWith sep (cleanComps (lay_root l1) @ c1)"
    "properComps (cleanComps (lay_root l1) @ c1)"
    using Layout_Path_comps [OF assms(2)] by blast
  obtain c2 where c2: "p2 = joinWith sep (cleanComps (lay_root l2) @ c2)"
    "properComps (cleanComps (lay_root l2) @ c2)"
    using Layout_Path_comps [OF assms(3)] by blast
  have "\<not> (prefix (cleanComps (lay_root l1)) (cleanComps (lay_root l2))
    \<or> prefix (cleanComps (lay_root l2)) (cleanComps (lay_root l1)))"
    using assms(1) overlap_components [OF root [OF assms(2)] root [OF assms(3)]] by simp
  then show ?thesis
    using c1 c2 overlap_components [OF valid_join [OF c1(2)] valid_join [OF c2(2)]]
    by (auto dest: prefix_append_cases)
qed

theorem layouts_disjoint_witness:
  "\<not> Overlap ''payload/A/f'' ''payload/AB/f''"
  using layouts_disjoint [of "\<lparr>lay_version = 2, lay_root = ''payload/A'', lay_prefix = []\<rparr>"
      "\<lparr>lay_version = 2, lay_root = ''payload/AB'', lay_prefix = []\<rparr>" asciiTables "''f''" "''payload/A/f''"
      "''f''" "''payload/AB/f''"]
  by code_simp

text \<open>C32: Every torrent name gives a portable folder name: non-empty, at most 180 bytes, with neither a
  space nor a dot at either end, without separator, backslash or byte below 32, and a valid UTF-8 text
  none of whose runes is a control character (below 32, or from 127 to 159) or one of
  \<open><>:"/\|?*\<close>.\<close>

theorem folder_name_portable:
  "let n = FolderName u name in
     n \<noteq> [] \<and> length n \<le> 180 \<and> hd n \<notin> {CHR '' '', CHR ''.''} \<and> last n \<notin> {CHR '' '', CHR ''.''}
     \<and> sep \<notin> set n \<and> CHR 0x5C \<notin> set n \<and> filter (\<lambda>c. codeOf c < 32) n = []
     \<and> textOf portableRune n"
  using FolderName_shape [of u name] FolderName_runes [of u name] by (simp add: Let_def filter_empty_conv not_less)

text \<open>The layout chosen for a new torrent is always valid: the named root of any torrent name
  and ordinal, with the prefix read from its metadata, passes the layout's own validation.\<close>

lemma named_root_valid:
  assumes "lowerKeepsDot u"
  shows "Layout_Validate u \<lparr>lay_version = NamedLayoutVersion, lay_root = NamedRoot u name ordinal,
    lay_prefix = MetadataPrefix info\<rparr> = Inr ()"
proof -
  obtain n where n: "NamedRoot u name ordinal = joinWith sep [''payload'', n]"
    "properComps [''payload'', n]" "CHR 0x5C \<notin> set n" "hd n \<noteq> CHR ''.''"
    using NamedRoot_comps by blast
  have "\<not> HasPrefix (ToLower (lower u) c) ''.tsh-''" if "c \<in> {''payload'', n}" for c
    using ToLower_dot [OF assms, of c] that n(4) by auto
  moreover have "splitOn sep (NamedRoot u name ordinal) = [''payload'', n]"
    unfolding n(1) by (rule splitOn_join_proper [OF n(2)])
  moreover have "isOk (ValidateRelative (NamedRoot u name ordinal))"
    and "Clean (NamedRoot u name ordinal) = NamedRoot u name ordinal"
    unfolding n(1) using valid_join [OF n(2)] Clean_join [OF n(2)] by simp_all
  moreover have "CHR 0x5C \<notin> set (NamedRoot u name ordinal)" using n(1,3) by simp
  ultimately show ?thesis using MetadataPrefix_valid [of info]
    by (auto simp: Layout_Validate_def Supported_def LayoutVersion_def NamedLayoutVersion_def)
qed

lemma named_root_valid_example:
  "lowerKeepsDot asciiTables
   \<and> Layout_Validate asciiTables \<lparr>lay_version = NamedLayoutVersion,
       lay_root = NamedRoot asciiTables ''a/b'' 2, lay_prefix = MetadataPrefix \<lparr>bestName = ''a'', filePaths = []\<rparr>\<rparr> = Inr ()"
  using named_root_valid [of asciiTables "''a/b''" 2 "\<lparr>bestName = ''a'', filePaths = []\<rparr>"]
  by (simp add: lowerKeepsDot_def asciiTables_def)

text \<open>The volume search ends and finds the device boundary. When the managed root exists, the
  search returns for every valid path; a volume root it reports is an ancestor of the path, the
  directories from it down to the found one are on the same device, and its parent is on another.\<close>

lemma volume_root_is_boundary:
  assumes "list_all properComp cs" "openDir t dot \<noteq> Inl NotExist"
  shows "\<exists>r. FindVolumeRoot t (relPath cs) = Some r \<and> (\<forall>root. r = Inr root \<longrightarrow>
    (\<exists>k n device. k \<le> n \<and> n \<le> length cs \<and> root = relPath (take k cs)
      \<and> openDir t (relPath (take n cs)) = Inr (Inr device)
      \<and> (\<forall>j. k \<le> j \<and> j < n \<longrightarrow> openDir t (relPath (take j cs)) = Inr (Inr device))
      \<and> (k = 0 \<or> (\<exists>d. openDir t (relPath (take (k - 1) cs)) = Inr (Inr d) \<and> d \<noteq> device))))"
proof -
  have guard: "relPath cs = dot \<or> isOk (ValidateRelative (relPath cs)) \<and> Clean (relPath cs) = relPath cs"
    using assms(1) valid_join [of cs] Clean_join [of cs] by (auto simp: relPath_def properComps_def)
  define ds where "ds = (if relPath cs \<noteq> dot \<and> lstat t (relPath cs) = Inr Regular then butlast cs else cs)"
  obtain m where m: "ds = take m cs" "m \<le> length cs"
    using butlast_conv_take [of cs] take_all [of cs] diff_le_self unfolding ds_def by (metis le_refl)
  have ds: "list_all properComp ds"
    using assms(1) m by (auto simp: list_all_iff dest: in_set_takeD)
  have dir: "cs \<noteq> [] \<Longrightarrow> Dir (relPath cs) = relPath (butlast cs)"
    using Dir_relPath assms(1) append_butlast_last_id by metis
  have start: "(if relPath cs \<noteq> dot \<and> lstat t (relPath cs) = Inr Regular then Dir (relPath cs) else relPath cs) = relPath ds"
    using dir relPath_dot [OF assms(1)] by (auto simp: ds_def)
  obtain r where r: "nearestDir t (relPath ds) = Some r"
    and near: "\<forall>p d. r = Inr (p, d) \<longrightarrow> (\<exists>n \<le> length ds. p = relPath (take n ds) \<and> openDir t p = Inr (Inr d))"
    using nearestDir_returns [OF ds assms(2)] by blast
  have found: "FindVolumeRoot t (relPath cs)
      = Some (case r of Inl e \<Rightarrow> Inl e | Inr (p, d) \<Rightarrow> ascend t d 128 p)"
    using guard r by (auto simp: FindVolumeRoot_def Let_def start split: sum.split)
  show ?thesis
  proof (cases r)
    case (Inl e)
    then show ?thesis using found by simp
  next
    case (Inr pd)
    then obtain p d where pd: "r = Inr (p, d)" by (cases pd) auto
    then obtain n where n: "n \<le> m" "p = relPath (take n cs)" "openDir t p = Inr (Inr d)"
      using near m by (auto simp: min_def split: if_splits)
    have tk: "list_all properComp (take n cs)"
      using assms(1) by (auto simp: list_all_iff dest: in_set_takeD)
    have "\<exists>k \<le> n. root = relPath (take k cs)
        \<and> (\<forall>j. k \<le> j \<and> j < n \<longrightarrow> openDir t (relPath (take j cs)) = Inr (Inr d))
        \<and> (k = 0 \<or> (\<exists>e. openDir t (relPath (take (k - 1) cs)) = Inr (Inr e) \<and> e \<noteq> d))"
      if asc: "ascend t d 128 p = Inr root" for root
    proof -
      have len: "length (take n cs) = n" using n(1) m(2) by simp
      obtain k where k: "k \<le> n" "root = relPath (take k (take n cs))"
        "\<forall>j. k \<le> j \<and> j < length (take n cs) \<longrightarrow> openDir t (relPath (take j (take n cs))) = Inr (Inr d)"
        "k = 0 \<or> (\<exists>e. openDir t (relPath (take (k - 1) (take n cs))) = Inr (Inr e) \<and> e \<noteq> d)"
        using ascend_boundary [OF tk asc [unfolded n(2)]] unfolding len by blast
      have tt: "j \<le> n \<Longrightarrow> take j (take n cs) = take j cs" for j by (simp add: min_def)
      show ?thesis using k n(1) m(2) tt by (intro exI [of _ k]) (simp add: less_imp_le)
    qed
    moreover have "FindVolumeRoot t (relPath cs) = Some (ascend t d 128 p)" using found pd by simp
    moreover have "n \<le> length cs" "openDir t (relPath (take n cs)) = Inr (Inr d)" using n m(2) by simp_all
    ultimately show ?thesis by blast
  qed
qed

lemma volume_root_is_boundary_example:
  "\<exists>r. FindVolumeRoot exTree (relPath [''mnt'', ''show'']) = Some r"
proof -
  have "list_all properComp [''mnt'', ''show'']" by code_simp
  moreover have "openDir exTree dot \<noteq> Inl NotExist" by (simp add: exTree_def)
  ultimately show ?thesis using volume_root_is_boundary by blast
qed

text \<open>A passed volume check names the volume. The path's real volume root is then the root of
  a registered, ready volume, and no registered volume that covers the path has a longer root.\<close>

lemma checked_volume_is_registered:
  assumes "CheckVolume t path volumes = Some (Inr ())"
  shows "\<exists>v. v \<in> set volumes \<and> vr_state v = ''ready'' \<and> FindVolumeRoot t path = Some (Inr (vr_root v))
    \<and> (\<forall>w \<in> set volumes. covers path w \<longrightarrow> length (vr_root w) \<le> length (vr_root v))"
  using CheckVolume_ok [OF assms] bestVolume_longest [of path None volumes] by auto

lemma checked_volume_is_registered_example:
  "\<exists>v. v \<in> set [\<lparr>vr_root = ''.'', vr_token = ''token'', vr_state = ''ready''\<rparr>]
     \<and> FindVolumeRoot exTree ''.'' = Some (Inr (vr_root v))"
proof -
  have "nearestDir exTree ''.'' = Some (Inr (''.'', ''dev1''))"
    by (subst nearestDir.simps) (simp add: exTree_def)
  then have "FindVolumeRoot exTree ''.'' = Some (Inr ''.'')"
    by (simp add: FindVolumeRoot_def ascend.simps)
  moreover have "Open (lstat exTree) (openFile exTree) (Join [''.'', VolumeMarker])
    = Inr (Inr (''token'' @ [CHR 0x0A]))" by code_simp
  ultimately have "CheckVolume exTree ''.'' [\<lparr>vr_root = ''.'', vr_token = ''token'', vr_state = ''ready''\<rparr>]
    = Some (Inr ())" by (simp add: CheckVolume_def)
  from checked_volume_is_registered [OF this] show ?thesis by blast
qed

text \<open>C40: A folder name can still be a reserved device name. On a system where normalisation
  leaves ASCII text alone, the name \<open>CON\<close>, 177 spaces and \<open>x\<close> becomes the folder \<open>CON\<close>.\<close>

theorem folder_name_can_be_reserved:
  assumes "nfc u hiddenDevice = hiddenDevice"
  shows "FolderName u hiddenDevice = ''CON'' \<and> reservedName u (FolderName u hiddenDevice)"
proof -
  let ?n = hiddenDevice
  have "list_all (\<lambda>c. codeOf c < 128 \<and> forbidden (codeOf c) = None) ?n"
    unfolding hiddenDevice_def by (simp add: forbidden_def list_all_iff)
  then have m: "mapRunes forbidden ?n = ?n" and v: "ToValidUTF8 ?n ''_'' = ?n"
    by (auto simp: mapRunes_ascii list_all_iff intro!: ToValidUTF8_ascii)
  have tr: "Trim ?n [CHR '' '', CHR ''.'', CHR 0x09] = ?n"
    by (simp add: hiddenDevice_def Trim_def TrimRight_def)
  have len: "length ?n = 181" by (simp add: hiddenDevice_def)
  have base: "takeWhile (\<lambda>c. c \<noteq> CHR ''.'') ?n = ?n"
    by (simp add: hiddenDevice_def takeWhile_append)
  have ascii: "isASCII ?n" by (simp add: hiddenDevice_def isASCII_def list_all_iff)
  have up: "length (ToUpper (upper u) ?n) = 181" using ascii len by (simp add: ToUpper_def)
  then have nr: "\<not> reservedName u ?n" unfolding reservedName_def base Let_def by auto
  have nt: "\<not> HasPrefix (ToLower (lower u) ?n) ''.tsh-''"
    using ascii asciiLower_dot [of "CHR ''C''"] by (auto simp: ToLower_def hiddenDevice_def)
  have "take (length ?n - lastRuneWidth ?n) ?n = ''CON'' @ replicate 177 (CHR '' '')"
    by (simp add: hiddenDevice_def lastRuneWidth_def)
  then have tn: "truncateName ?n = ''CON'' @ replicate 177 (CHR '' '')"
    using len by (subst truncateName.simps) (simp add: truncateName.simps)
  have ne: "?n \<noteq> []" using len by auto
  have "FolderName u ?n = TrimRight (truncateName ?n) '' .''"
    unfolding FolderName_def Let_def v assms m tr using ne nr nt by simp
  also have "\<dots> = ''CON''" unfolding tn by (simp add: TrimRight_def dropWhile_replicate_append)
  finally have f: "FolderName u ?n = ''CON''" .
  have "ToUpper (upper u) ''CON'' = ''CON''" by (simp add: ToUpper_def isASCII_def asciiUpper_def)
  then show ?thesis unfolding f by (simp add: reservedName_def)
qed

theorem folder_name_can_be_reserved_witness: "FolderName asciiTables hiddenDevice = ''CON''"
  using folder_name_can_be_reserved [of asciiTables] by (simp add: asciiTables_def)

end
