(* ===== verification/Checkpoint.thy ===== *)
theory Checkpoint
  imports Payload
begin

text \<open>
  The checkpoint policy of fast resume (\<open>internal/fastresume/policy.go\<close>): the checkpoint data, its
  validation, and the filter that narrows a saved piece bitmap to what still may be trusted. The
  parent walk of the validation follows \<open>filepath.Dir\<close> until the path is \<open>.\<close> and is a partial
  function, so a validation that does not return is \<^const>\<open>None\<close>; it is shown to return whenever
  collision keys of local paths are local paths. The main lemma says exactly which pieces the
  filter keeps.
\<close>

section \<open>Data\<close>

abbreviation (input) SchemaVersion :: int where "SchemaVersion \<equiv> 1"
abbreviation (input) MaxPieces :: int where "MaxPieces \<equiv> 4194304"
abbreviation (input) MaxFiles :: int where "MaxFiles \<equiv> 4096"
abbreviation (input) MaxCheckpointBytes :: int where "MaxCheckpointBytes \<equiv> 4194304"
abbreviation (input) MaxPathBytes :: int where "MaxPathBytes \<equiv> 1048576"
abbreviation (input) MaxPathLength :: int where "MaxPathLength \<equiv> 4096"
abbreviation (input) MaxPathDepth :: int where "MaxPathDepth \<equiv> 128"
abbreviation (input) MaxIdentityLength :: int where "MaxIdentityLength \<equiv> 256"

datatype Mode = Fast | Verify | OtherResumeMode string

definition ParseMode :: "string \<Rightarrow> Mode option" where
  "ParseMode value =
     (if value = '''' \<or> value = ''fast'' then Some Fast
      else if value = ''verify'' then Some Verify else None)"

record Identity =
  RecordID :: string
  StorageID :: string
  MappingRevision :: int
  LayoutVersionF :: int
  RootF :: string
  Prefix :: string
  MetainfoDigest :: string
  CatalogDigest :: string
  VolumeID :: string
  PieceLength :: int
  PieceCount :: int
  ExtentLength :: int

record Evidence =
  Present :: bool
  EvIdentity :: string
  Size :: int
  ModifiedNS :: int

record File =
  FilePath :: string
  Offset :: int
  FileLength :: int
  FileEvidence :: Evidence

record Checkpoint =
  Schema :: int
  CkIdentity :: Identity
  Generation :: int
  CreatedAtMS :: int
  Files :: "File list"
  Pieces :: bytes

datatype resumeError = ErrInvalid | ErrBudget | ErrUnexpectedEOF

section \<open>Bitmaps\<close>

definition bitmapBytes :: "int \<Rightarrow> int" where
  "bitmapBytes pieces = (pieces + 7) sdiv 8"

definition validBitmap :: "bytes \<Rightarrow> int \<Rightarrow> bool" where
  "validBitmap bits pieces =
     (if pieces < 0 \<or> pieces > MaxPieces \<or> int (length bits) \<noteq> bitmapBytes pieces then False
      else pieces smod 8 = 0 \<or> drop_bit (nat (pieces smod 8)) (bits ! (length bits - 1)) = 0)"

definition BitmapBytes :: "int \<Rightarrow> (resumeError, int) result" where
  "BitmapBytes pieces =
     (if pieces < 0 \<or> pieces > MaxPieces then Inl ErrBudget else Inr (bitmapBytes pieces))"

definition ValidateBitmap :: "bytes \<Rightarrow> int \<Rightarrow> (resumeError, unit) result" where
  "ValidateBitmap bits pieces = guardE (validBitmap bits pieces) ErrInvalid"

definition clearPiece :: "int \<Rightarrow> bytes \<Rightarrow> bytes" where
  "clearPiece piece bits =
     bits[nat (piece sdiv 8) := bits ! nat (piece sdiv 8) AND NOT (push_bit (nat (piece smod 8)) 1)]"

definition clearFilePieces :: "bytes \<Rightarrow> int \<Rightarrow> int \<Rightarrow> int \<Rightarrow> bytes" where
  "clearFilePieces bits pieceLength offset len =
     (if len = 0 then bits
      else let first = offset sdiv pieceLength;
               final = (wrap64 (offset + len - 1)) sdiv pieceLength
           in fold clearPiece [first..final] bits)"

section \<open>Validation\<close>

definition validDigest :: "string \<Rightarrow> bool" where
  "validDigest value = (if length value \<noteq> 64 then False else hexDecodes value)"

definition Identity_validate :: "unicodeTables \<Rightarrow> Identity \<Rightarrow> (resumeError, unit) result" where
  "Identity_validate u i =
     (if PieceCount i < 0 then Inl ErrInvalid
      else if PieceCount i > MaxPieces then Inl ErrBudget
      else if RecordID i = [] \<or> int (length (RecordID i)) > MaxIdentityLength
           \<or> StorageID i = [] \<or> int (length (StorageID i)) > MaxIdentityLength
           \<or> VolumeID i = [] \<or> int (length (VolumeID i)) > MaxIdentityLength
           \<or> MappingRevision i \<le> 0 \<or> \<not> validDigest (MetainfoDigest i) \<or> \<not> validDigest (CatalogDigest i)
      then Inl ErrInvalid
      else if int (length (RootF i)) > MaxPathLength \<or> int (length (Prefix i)) > MaxPathLength
      then Inl ErrBudget
      else if CHR 0x00 \<in> set (RootF i) \<or> CHR 0x00 \<in> set (Prefix i) then Inl ErrInvalid
      else if \<not> isOk (Layout_Validate u \<lparr>lay_version = LayoutVersionF i, lay_root = RootF i, lay_prefix = Prefix i\<rparr>)
      then Inl ErrInvalid
      else if PieceLength i \<le> 0 \<or> ExtentLength i < 0 then Inl ErrInvalid
      else let count = ExtentLength i sdiv PieceLength i;
               count = (if ExtentLength i smod PieceLength i \<noteq> 0 then count + 1 else count)
           in if count \<noteq> PieceCount i then Inl ErrInvalid else Inr ())"

text \<open>One turn of the file loop: the checks on a file given the bytes of the paths so far, the end
  of the previous file and the collision keys seen.\<close>

definition checkFile ::
    "unicodeTables \<Rightarrow> int \<Rightarrow> int \<Rightarrow> int \<Rightarrow> string list \<Rightarrow> File \<Rightarrow> (resumeError, unit) result" where
  "checkFile u extent pathBytes end keys f =
     (if pathBytes > MaxPathBytes \<or> int (length (FilePath f)) > MaxPathLength
         \<or> int (count_list (FilePath f) sep) \<ge> MaxPathDepth
         \<or> int (length (EvIdentity (FileEvidence f))) > MaxIdentityLength
      then Inl ErrBudget
      else if CHR 0x00 \<in> set (FilePath f) \<or> \<not> isOk (ValidateRelative (FilePath f))
         \<or> Clean (FilePath f) \<noteq> FilePath f \<or> Offset f < end \<or> FileLength f < 0
         \<or> Offset f > extent \<or> FileLength f > extent - Offset f
      then Inl ErrInvalid
      else if CollisionKey u (FilePath f) \<in> set keys then Inl ErrInvalid
      else if Size (FileEvidence f) < 0 \<or> Present (FileEvidence f) \<and> EvIdentity (FileEvidence f) = []
      then Inl ErrInvalid
      else Inr ())"

fun checkFiles ::
    "unicodeTables \<Rightarrow> int \<Rightarrow> int \<Rightarrow> int \<Rightarrow> string list \<Rightarrow> File list \<Rightarrow> (resumeError, string list) result" where
  "checkFiles u extent pathBytes end keys [] = Inr keys"
| "checkFiles u extent pathBytes end keys (f # fs) =
     (let pathBytes = pathBytes + int (length (FilePath f)) in
      andThen (checkFile u extent pathBytes end keys f) (\<lambda>_.
        checkFiles u extent pathBytes (Offset f + FileLength f)
          (keys @ [CollisionKey u (FilePath f)]) fs))"

partial_function (option) parentHit :: "string list \<Rightarrow> string \<Rightarrow> bool option" where
  "parentHit keys parent =
     (if parent = dot then Some False
      else if parent \<in> set keys then Some True
      else parentHit keys (Dir parent))"

declare parentHit.simps [code]

fun noParentKey :: "string list \<Rightarrow> string list \<Rightarrow> (resumeError, unit) result option" where
  "noParentKey keys [] = Some (Inr ())"
| "noParentKey keys (k # ks) =
     Option.bind (parentHit keys (Dir k)) (\<lambda>hit.
       if hit then Some (Inl ErrInvalid) else noParentKey keys ks)"

definition Checkpoint_Validate ::
    "unicodeTables \<Rightarrow> Checkpoint option \<Rightarrow> (resumeError, unit) result option" where
  "Checkpoint_Validate u cp =
     (case cp of None \<Rightarrow> Some (Inl ErrInvalid)
      | Some c \<Rightarrow>
         (if Schema c \<noteq> SchemaVersion \<or> Generation c \<le> 0 \<or> CreatedAtMS c \<le> 0 then Some (Inl ErrInvalid)
          else case Identity_validate u (CkIdentity c) of Inl e \<Rightarrow> Some (Inl e)
          | Inr _ \<Rightarrow>
             if int (length (Files c)) > MaxFiles then Some (Inl ErrBudget)
             else if Files c = [] \<or> \<not> validBitmap (Pieces c) (PieceCount (CkIdentity c))
             then Some (Inl ErrInvalid)
             else case checkFiles u (ExtentLength (CkIdentity c)) 0 0 [] (Files c) of
               Inl e \<Rightarrow> Some (Inl e)
             | Inr keys \<Rightarrow> noParentKey keys keys))"

section \<open>The filter\<close>

datatype Reason =
    Restored | StrictMode | NoCheckpoint | InvalidCheckpoint | BudgetExceeded
  | IdentityChanged | StorageBlocked | FilesChanged | PiecesRevoked

record Candidate =
  cd_reason :: Reason
  cd_bits :: bytes

definition fallback :: "Reason \<Rightarrow> Candidate" where
  "fallback r = \<lparr>cd_reason = r, cd_bits = []\<rparr>"

definition fileChanged :: "File \<Rightarrow> File \<Rightarrow> bool" where
  "fileChanged file old \<longleftrightarrow>
     \<not> Present (FileEvidence file) \<or> Size (FileEvidence file) < FileLength file
     \<or> FileEvidence file \<noteq> FileEvidence old"

text \<open>The last loop: clear the pieces of every changed file.\<close>

fun clearChanged :: "int \<Rightarrow> (File \<times> File) list \<Rightarrow> Reason \<times> bytes \<Rightarrow> Reason \<times> bytes" where
  "clearChanged pieceLength [] rb = rb"
| "clearChanged pieceLength ((file, old) # fs) (reason, bits) =
     clearChanged pieceLength fs
       (if fileChanged file old
        then (FilesChanged, clearFilePieces bits pieceLength (Offset file) (FileLength file))
        else (reason, bits))"

definition Filter ::
    "unicodeTables \<Rightarrow> Mode \<Rightarrow> Checkpoint option \<Rightarrow> Identity \<Rightarrow> File list \<Rightarrow> bytes \<Rightarrow> bool \<Rightarrow> Candidate option" where
  "Filter u mode saved expected current revoked blocked =
     (if mode \<noteq> Fast then Some (fallback StrictMode)
      else if blocked then Some (fallback StorageBlocked)
      else case saved of None \<Rightarrow> Some (fallback NoCheckpoint)
      | Some ck \<Rightarrow>
         Option.bind (Checkpoint_Validate u saved) (\<lambda>v.
           case v of
             Inl e \<Rightarrow> Some (fallback (if e = ErrBudget then BudgetExceeded else InvalidCheckpoint))
           | Inr _ \<Rightarrow>
              Some (if CkIdentity ck \<noteq> expected \<or> length current \<noteq> length (Files ck)
                    then fallback IdentityChanged
                    else if \<not> validBitmap revoked (PieceCount expected) then fallback InvalidCheckpoint
                    else if list_ex (\<lambda>(file, old). FilePath file \<noteq> FilePath old \<or> Offset file \<noteq> Offset old
                              \<or> FileLength file \<noteq> FileLength old) (zip current (Files ck))
                    then fallback IdentityChanged
                    else let bits = map2 (\<lambda>b r. b AND NOT r) (Pieces ck) revoked;
                             reason = (if list_ex (\<lambda>(b, r). b AND r \<noteq> 0) (zip (Pieces ck) revoked)
                                       then PiecesRevoked else Restored);
                             rb = clearChanged (PieceLength expected) (zip current (Files ck)) (reason, bits)
                         in \<lparr>cd_reason = fst rb, cd_bits = snd rb\<rparr>)))"

section \<open>Specification vocabulary\<close>

text \<open>A file's bytes reach into a piece.\<close>

definition touches :: "int \<Rightarrow> File \<Rightarrow> nat \<Rightarrow> bool" where
  "touches pieceLength f p \<longleftrightarrow>
     (\<exists>x. Offset f \<le> x \<and> x < Offset f + FileLength f \<and> x div pieceLength = int p)"

text \<open>Collision keys of clean local paths are clean local paths: normalisation and case folding
  change neither separators nor dots.\<close>

definition keysLocal :: "unicodeTables \<Rightarrow> bool" where
  "keysLocal u \<longleftrightarrow> (\<forall>cs. properComps cs \<longrightarrow>
     (\<exists>ks. properComps ks \<and> CollisionKey u (joinWith sep cs) = joinWith sep ks))"

text \<open>A small catalog for concrete instances: two files of five bytes in pieces of four.\<close>

definition exIdentity :: Identity where
  "exIdentity = \<lparr>RecordID = ''r'', StorageID = ''s'', MappingRevision = 1, LayoutVersionF = 2,
     RootF = ''payload/x'', Prefix = [], MetainfoDigest = replicate 64 (CHR ''0''),
     CatalogDigest = replicate 64 (CHR ''0''), VolumeID = ''v'', PieceLength = 4, PieceCount = 3,
     ExtentLength = 10\<rparr>"

definition exFile :: "string \<Rightarrow> int \<Rightarrow> bool \<Rightarrow> File" where
  "exFile path off present = \<lparr>FilePath = path, Offset = off, FileLength = 5,
     FileEvidence = \<lparr>Present = present, EvIdentity = ''i'', Size = 5, ModifiedNS = 0\<rparr>\<rparr>"

definition exCheckpoint :: Checkpoint where
  "exCheckpoint = \<lparr>Schema = 1, CkIdentity = exIdentity, Generation = 1, CreatedAtMS = 1,
     Files = [exFile ''a/x'' 0 True, exFile ''b'' 5 True], Pieces = [7]\<rparr>"

section \<open>Clearing pieces\<close>

lemma clearPiece_bit [bits_simps]:
  assumes "0 \<le> piece"
  shows "piece_bit (clearPiece piece bits) p \<longleftrightarrow> piece_bit bits p \<and> int p \<noteq> piece"
proof -
  obtain n where n: "piece = int n" using assms nonneg_int_cases by blast
  have idx: "nat (piece sdiv 8) = n div 8" "nat (piece smod 8) = n mod 8"
    by (simp_all add: n go_simps nat_div_distrib nat_mod_distrib)
  show ?thesis
  proof (cases "n div 8 < length bits")
    case True
    have "piece_bit (clearPiece piece bits) p \<longleftrightarrow>
        (if p div 8 = n div 8 then bit (bits ! (n div 8)) (p mod 8) \<and> p mod 8 \<noteq> n mod 8 else piece_bit bits p)"
      using True by (simp add: clearPiece_def idx piece_bit_update bit_simps)
    also have "\<dots> \<longleftrightarrow> piece_bit bits p \<and> p \<noteq> n"
      using True by (auto simp: piece_bit_def) (metis div_mult_mod_eq)
    finally show ?thesis by (simp add: n)
  next
    case False
    then show ?thesis by (auto simp: clearPiece_def idx [unfolded n] piece_bit_def n)
  qed
qed

lemma length_clearPiece [simp]: "length (clearPiece piece bits) = length bits"
  by (simp add: clearPiece_def)

lemma fold_clearPiece:
  assumes "0 \<le> a"
  shows "piece_bit (fold clearPiece [a..b] bits) p \<longleftrightarrow> piece_bit bits p \<and> \<not> (a \<le> int p \<and> int p \<le> b)"
  using assms
proof (induction a b arbitrary: bits rule: upto.induct)
  case (1 a b)
  show ?case
  proof (cases "a \<le> b")
    case True
    have "piece_bit (fold clearPiece [a..b] bits) p
        \<longleftrightarrow> piece_bit (clearPiece a bits) p \<and> \<not> (a + 1 \<le> int p \<and> int p \<le> b)"
      using "1.IH" [OF True] "1.prems" True by (subst upto.simps) simp
    then show ?thesis using "1.prems" True by (auto simp: clearPiece_bit)
  qed simp
qed

lemma length_fold_clearPiece [simp]: "length (fold clearPiece ps bits) = length bits"
  by (induction ps arbitrary: bits) simp_all

lemma length_clearFilePieces [simp]: "length (clearFilePieces bits pl off len) = length bits"
  by (simp add: clearFilePieces_def Let_def)

lemma touches_iff:
  assumes "0 < pl" "0 \<le> Offset f"
  shows "touches pl f p \<longleftrightarrow> 0 < FileLength f \<and> Offset f div pl \<le> int p
    \<and> int p \<le> (Offset f + FileLength f - 1) div pl"
proof
  assume "touches pl f p"
  then obtain x where "Offset f \<le> x" "x < Offset f + FileLength f" "x div pl = int p"
    by (auto simp: touches_def)
  then show "0 < FileLength f \<and> Offset f div pl \<le> int p \<and> int p \<le> (Offset f + FileLength f - 1) div pl"
    using assms(1) zdiv_mono1 [of "Offset f" x pl] zdiv_mono1 [of x "Offset f + FileLength f - 1" pl] by auto
next
  assume r: "0 < FileLength f \<and> Offset f div pl \<le> int p \<and> int p \<le> (Offset f + FileLength f - 1) div pl"
  define x where "x = max (Offset f) (int p * pl)"
  have "int p * pl \<le> Offset f + FileLength f - 1"
    using r le_div_iff [OF assms(1)] by blast
  moreover have "x div pl = int p"
  proof (cases "Offset f \<le> int p * pl")
    case True
    then show ?thesis using assms(1) by (simp add: x_def)
  next
    case False
    then have "int p \<le> Offset f div pl" using le_div_iff [OF assms(1)] by simp
    then show ?thesis using False r by (simp add: x_def)
  qed
  ultimately show "touches pl f p" using r by (auto simp: touches_def x_def intro!: exI [of _ x])
qed

lemma clearFilePieces_bit:
  assumes "0 < pl" "0 \<le> Offset f" "0 \<le> FileLength f" "Offset f + FileLength f \<le> MaxInt64"
  shows "piece_bit (clearFilePieces bits pl (Offset f) (FileLength f)) p
    \<longleftrightarrow> piece_bit bits p \<and> \<not> touches pl f p"
proof (cases "FileLength f = 0")
  case True
  then show ?thesis using assms by (simp add: clearFilePieces_def touches_iff)
next
  case False
  have w: "wrap64 (Offset f + FileLength f - 1) = Offset f + FileLength f - 1"
    using assms False by (intro wrap64_id) (simp add: in_i64_def)
  have "0 \<le> Offset f div pl" using assms by (simp add: pos_imp_zdiv_nonneg_iff)
  then show ?thesis using assms False
    by (simp add: clearFilePieces_def w Let_def go_simps fold_clearPiece touches_iff)
qed

lemma clearChanged_bits:
  assumes "0 < pl" "\<forall>(f, g) \<in> set fs. 0 \<le> Offset f \<and> 0 \<le> FileLength f \<and> Offset f + FileLength f \<le> MaxInt64"
  shows "piece_bit (snd (clearChanged pl fs (r, bits))) p
      \<longleftrightarrow> piece_bit bits p \<and> \<not> (\<exists>(f, g) \<in> set fs. fileChanged f g \<and> touches pl f p)"
    and "fst (clearChanged pl fs (r, bits)) = (if \<exists>(f, g) \<in> set fs. fileChanged f g then FilesChanged else r)"
    and "length (snd (clearChanged pl fs (r, bits))) = length bits"
proof -
  have "(piece_bit (snd (clearChanged pl fs (r, bits))) p
      \<longleftrightarrow> piece_bit bits p \<and> \<not> (\<exists>(f, g) \<in> set fs. fileChanged f g \<and> touches pl f p))
    \<and> fst (clearChanged pl fs (r, bits)) = (if \<exists>(f, g) \<in> set fs. fileChanged f g then FilesChanged else r)
    \<and> length (snd (clearChanged pl fs (r, bits))) = length bits"
    using assms(2)
  proof (induction fs arbitrary: r bits)
    case (Cons fg fs)
    obtain f g where fg: "fg = (f, g)" by (cases fg)
    have "piece_bit (clearFilePieces bits pl (Offset f) (FileLength f)) p
        \<longleftrightarrow> piece_bit bits p \<and> \<not> touches pl f p"
      using Cons.prems assms(1) by (intro clearFilePieces_bit) (auto simp: fg)
    then show ?case using Cons.IH Cons.prems by (auto simp: fg)
  qed simp
  then show "piece_bit (snd (clearChanged pl fs (r, bits))) p
      \<longleftrightarrow> piece_bit bits p \<and> \<not> (\<exists>(f, g) \<in> set fs. fileChanged f g \<and> touches pl f p)"
    and "fst (clearChanged pl fs (r, bits)) = (if \<exists>(f, g) \<in> set fs. fileChanged f g then FilesChanged else r)"
    and "length (snd (clearChanged pl fs (r, bits))) = length bits" by blast+
qed

section \<open>What validation gives\<close>

lemma checkFile_Inr:
  assumes "checkFile u ext pb end keys f = Inr x"
  shows "end \<le> Offset f \<and> 0 \<le> FileLength f \<and> Offset f + FileLength f \<le> ext
    \<and> int (length (FilePath f)) \<le> MaxPathLength \<and> pb \<le> MaxPathBytes
    \<and> int (length (EvIdentity (FileEvidence f))) \<le> MaxIdentityLength
    \<and> isOk (ValidateRelative (FilePath f)) \<and> Clean (FilePath f) = FilePath f
    \<and> CollisionKey u (FilePath f) \<notin> set keys \<and> 0 \<le> Size (FileEvidence f)"
  using assms by (auto simp: checkFile_def split: if_splits)

lemma checkFiles_Inr:
  assumes "checkFiles u ext pb end keys fs = Inr ks"
  shows "ks = keys @ map (\<lambda>f. CollisionKey u (FilePath f)) fs
    \<and> (distinct keys \<longrightarrow> distinct ks)
    \<and> (\<forall>f \<in> set fs. end \<le> Offset f \<and> 0 \<le> FileLength f \<and> Offset f + FileLength f \<le> ext
        \<and> isOk (ValidateRelative (FilePath f)) \<and> Clean (FilePath f) = FilePath f)
    \<and> sorted_wrt (\<lambda>f g. Offset f + FileLength f \<le> Offset g) fs"
  using assms
proof (induction fs arbitrary: pb "end" keys)
  case (Cons f fs)
  let ?k = "CollisionKey u (FilePath f)"
  have c: "checkFile u ext (pb + int (length (FilePath f))) end keys f = Inr ()"
    and r: "checkFiles u ext (pb + int (length (FilePath f))) (Offset f + FileLength f) (keys @ [?k]) fs = Inr ks"
    using Cons.prems by (auto simp: Let_def)
  show ?case using Cons.IH [OF r] checkFile_Inr [OF c] by force
qed simp

lemma Validate_Inr:
  assumes "Checkpoint_Validate u (Some c) = Some (Inr x)"
  shows "Identity_validate u (CkIdentity c) = Inr ()"
    and "checkFiles u (ExtentLength (CkIdentity c)) 0 0 [] (Files c)
      = Inr (map (\<lambda>f. CollisionKey u (FilePath f)) (Files c))"
    and "validBitmap (Pieces c) (PieceCount (CkIdentity c))"
    and "noParentKey (map (\<lambda>f. CollisionKey u (FilePath f)) (Files c))
      (map (\<lambda>f. CollisionKey u (FilePath f)) (Files c)) = Some (Inr x)"
    and "Schema c = 1 \<and> 0 < Generation c \<and> 0 < CreatedAtMS c \<and> Files c \<noteq> [] \<and> int (length (Files c)) \<le> MaxFiles"
proof -
  obtain keys where k: "checkFiles u (ExtentLength (CkIdentity c)) 0 0 [] (Files c) = Inr keys"
    "noParentKey keys keys = Some (Inr x)"
    and rest: "Identity_validate u (CkIdentity c) = Inr ()"
      "validBitmap (Pieces c) (PieceCount (CkIdentity c))"
      "Schema c = 1 \<and> 0 < Generation c \<and> 0 < CreatedAtMS c \<and> Files c \<noteq> [] \<and> int (length (Files c)) \<le> MaxFiles"
    using assms by (auto simp: Checkpoint_Validate_def split: if_splits sum.splits)
  have "keys = map (\<lambda>f. CollisionKey u (FilePath f)) (Files c)"
    using checkFiles_Inr [OF k(1)] by simp
  then show "checkFiles u (ExtentLength (CkIdentity c)) 0 0 [] (Files c)
      = Inr (map (\<lambda>f. CollisionKey u (FilePath f)) (Files c))"
    and "noParentKey (map (\<lambda>f. CollisionKey u (FilePath f)) (Files c))
      (map (\<lambda>f. CollisionKey u (FilePath f)) (Files c)) = Some (Inr x)"
    using k by simp_all
  show "Identity_validate u (CkIdentity c) = Inr ()"
    "validBitmap (Pieces c) (PieceCount (CkIdentity c))"
    "Schema c = 1 \<and> 0 < Generation c \<and> 0 < CreatedAtMS c \<and> Files c \<noteq> [] \<and> int (length (Files c)) \<le> MaxFiles"
    using rest by blast+
qed

lemma Identity_validate_Inr:
  assumes "Identity_validate u i = Inr r"
  shows "0 < PieceLength i" "0 \<le> ExtentLength i" "0 \<le> PieceCount i" "PieceCount i \<le> MaxPieces"
    "\<And>y. y < ExtentLength i \<Longrightarrow> y div PieceLength i < PieceCount i"
    "isOk (Layout_Validate u \<lparr>lay_version = LayoutVersionF i, lay_root = RootF i, lay_prefix = Prefix i\<rparr>)"
    "int (length (RecordID i)) \<le> MaxIdentityLength" "int (length (StorageID i)) \<le> MaxIdentityLength"
    "int (length (VolumeID i)) \<le> MaxIdentityLength" "0 < MappingRevision i"
    "int (length (RootF i)) \<le> MaxPathLength" "int (length (Prefix i)) \<le> MaxPathLength"
    "length (MetainfoDigest i) = 64" "length (CatalogDigest i) = 64"
proof -
  show pos: "0 < PieceLength i" "0 \<le> ExtentLength i"
    using assms by (simp_all add: Identity_validate_def Let_def split: if_splits)
  show "0 \<le> PieceCount i" "PieceCount i \<le> MaxPieces"
    "isOk (Layout_Validate u \<lparr>lay_version = LayoutVersionF i, lay_root = RootF i, lay_prefix = Prefix i\<rparr>)"
    "int (length (RecordID i)) \<le> MaxIdentityLength" "int (length (StorageID i)) \<le> MaxIdentityLength"
    "int (length (VolumeID i)) \<le> MaxIdentityLength" "0 < MappingRevision i"
    "int (length (RootF i)) \<le> MaxPathLength" "int (length (Prefix i)) \<le> MaxPathLength"
    "length (MetainfoDigest i) = 64" "length (CatalogDigest i) = 64"
    using assms by (simp_all add: Identity_validate_def Let_def validDigest_def split: if_splits)
  have count: "PieceCount i = ExtentLength i div PieceLength i
      + (if ExtentLength i mod PieceLength i \<noteq> 0 then 1 else 0)"
    using assms pos by (simp add: Identity_validate_def Let_def go_simps split: if_splits)
  show "\<And>y. y < ExtentLength i \<Longrightarrow> y div PieceLength i < PieceCount i"
  proof (rule ccontr)
    fix x assume x: "x < ExtentLength i" "\<not> x div PieceLength i < PieceCount i"
    then have "PieceCount i * PieceLength i \<le> x"
      using le_div_iff [OF pos(1), of "PieceCount i" x] by linarith
    moreover have "ExtentLength i \<le> PieceCount i * PieceLength i"
    proof -
      have e: "ExtentLength i div PieceLength i * PieceLength i + ExtentLength i mod PieceLength i = ExtentLength i"
        by (rule div_mult_mod_eq)
      have "ExtentLength i mod PieceLength i < PieceLength i" using pos(1) by simp
      then have "ExtentLength i \<le> ExtentLength i div PieceLength i * PieceLength i + PieceLength i"
        using e by linarith
      then show ?thesis using e by (cases "ExtentLength i mod PieceLength i = 0") (simp_all add: count distrib_right)
    qed
    ultimately show False using x(1) by simp
  qed
qed

lemma validBitmap_length: "validBitmap bits n \<Longrightarrow> 0 \<le> n \<and> int (length bits) = (n + 7) div 8"
  by (auto simp: validBitmap_def bitmapBytes_def go_simps split: if_splits)

lemma parentHit_iff:
  assumes "list_all properComp cs"
  shows "parentHit keys (relPath cs) = Some (\<exists>k. 0 < k \<and> k \<le> length cs \<and> relPath (take k cs) \<in> set keys)"
  using assms
proof (induction cs rule: rev_induct)
  case Nil
  show ?case by (subst parentHit.simps) (simp add: relPath_def)
next
  case (snoc c cs)
  have ne: "relPath (cs @ [c]) \<noteq> dot" using snoc.prems relPath_dot by blast
  have step: "(\<exists>k. 0 < k \<and> k \<le> Suc n \<and> P k) \<longleftrightarrow> P (Suc n) \<or> (\<exists>k. 0 < k \<and> k \<le> n \<and> P k)"
    for P :: "nat \<Rightarrow> bool" and n by (auto simp: le_Suc_eq)
  have "(\<exists>k. 0 < k \<and> k \<le> length (cs @ [c]) \<and> relPath (take k (cs @ [c])) \<in> set keys) \<longleftrightarrow>
      relPath (cs @ [c]) \<in> set keys \<or> (\<exists>k. 0 < k \<and> k \<le> length cs \<and> relPath (take k cs) \<in> set keys)"
    unfolding length_append_singleton step by (simp cong: conj_cong)
  then show ?case using snoc ne by (subst parentHit.simps) (simp add: Dir_relPath)
qed

lemma noParentKey_Some:
  assumes "\<forall>k \<in> set ks. \<exists>b. parentHit keys (Dir k) = Some b"
  shows "noParentKey keys ks = Some (if \<exists>k \<in> set ks. parentHit keys (Dir k) = Some True then Inl ErrInvalid else Inr ())"
  using assms by (induction ks) auto

lemma noParentKey_Inr: "noParentKey keys ks = Some (Inr x) \<Longrightarrow> k \<in> set ks \<Longrightarrow> parentHit keys (Dir k) = Some False"
  by (induction ks) (auto split: Option.bind_splits if_splits)

lemma Dir_join_proper:
  assumes "properComps cs"
  shows "Dir (joinWith sep cs) = relPath (butlast cs)"
proof -
  have ne: "cs \<noteq> []" and all: "list_all properComp (butlast cs @ [last cs])"
    using assms by (simp_all add: properComps_def)
  have "relPath cs = joinWith sep cs" using ne by (simp add: relPath_def)
  then show ?thesis using Dir_relPath [OF all] ne by simp
qed

lemma butlast_proper: "properComps cs \<Longrightarrow> list_all properComp (butlast cs)"
  unfolding properComps_def list_all_iff by (blast dest: in_set_butlastD)

lemma parentHit_key:
  assumes "properComps cs"
  shows "parentHit keys (Dir (joinWith sep cs))
    = Some (\<exists>k. 0 < k \<and> k \<le> length (butlast cs) \<and> relPath (take k (butlast cs)) \<in> set keys)"
  unfolding Dir_join_proper [OF assms] by (rule parentHit_iff [OF butlast_proper [OF assms]])

lemma file_key_proper:
  assumes "keysLocal u" "isOk (ValidateRelative p)" "Clean p = p"
  shows "\<exists>ks. properComps ks \<and> CollisionKey u p = joinWith sep ks"
  using valid_proper [OF assms(2)] assms(1,3) unfolding keysLocal_def by metis

lemma validated_file_bounds:
  assumes "Checkpoint_Validate u (Some c) = Some (Inr x)" "f \<in> set (Files c)"
    "in_i64 (ExtentLength (CkIdentity c))"
  shows "0 \<le> Offset f" "0 \<le> FileLength f" "Offset f + FileLength f \<le> ExtentLength (CkIdentity c)"
    "Offset f + FileLength f \<le> MaxInt64"
  using checkFiles_Inr [OF Validate_Inr(2) [OF assms(1)]] assms(2,3) by (force simp: in_i64_def)+

lemma zip_set_bounds:
  assumes "length xs = length ys"
  shows "(\<exists>(x, y) \<in> set (zip xs ys). P x y) \<longleftrightarrow> (\<exists>i < length xs. P (xs ! i) (ys ! i))"
  using assms by (auto simp: set_zip)

lemma piece_bit_and_not:
  "length xs = length ys \<Longrightarrow>
     piece_bit (map2 (\<lambda>b r. b AND NOT r) xs ys) p \<longleftrightarrow> piece_bit xs p \<and> \<not> piece_bit ys p"
  using piece_bit_map2 [of xs ys "\<lambda>b r. b AND NOT r" "\<lambda>a b. a \<and> \<not> b"] by (auto simp: bit_simps)

text \<open>The branch of the filter that returns bits.\<close>

lemma Filter_bits:
  assumes "Filter u mode (Some ck) expected current revoked blocked = Some c"
  shows "cd_bits c = []
    \<or> (\<exists>x. Checkpoint_Validate u (Some ck) = Some (Inr x)) \<and> CkIdentity ck = expected \<and> length current = length (Files ck)
      \<and> validBitmap revoked (PieceCount expected)
      \<and> (\<forall>i < length current. Offset (current ! i) = Offset (Files ck ! i)
            \<and> FileLength (current ! i) = FileLength (Files ck ! i))
      \<and> (\<exists>reason. reason \<in> {Restored, PiecesRevoked}
            \<and> c = (let rb = clearChanged (PieceLength expected) (zip current (Files ck))
                      (reason, map2 (\<lambda>b r. b AND NOT r) (Pieces ck) revoked)
                 in \<lparr>cd_reason = fst rb, cd_bits = snd rb\<rparr>))"
proof (cases "cd_bits c = []")
  case False
  then obtain v where "Checkpoint_Validate u (Some ck) = Some (Inr v)"
    and "CkIdentity ck = expected" "length current = length (Files ck)"
    and "validBitmap revoked (PieceCount expected)"
    and same: "\<not> list_ex (\<lambda>(file, old). FilePath file \<noteq> FilePath old \<or> Offset file \<noteq> Offset old
                              \<or> FileLength file \<noteq> FileLength old) (zip current (Files ck))"
    and "\<exists>reason. reason \<in> {Restored, PiecesRevoked}
            \<and> c = (let rb = clearChanged (PieceLength expected) (zip current (Files ck))
                      (reason, map2 (\<lambda>b r. b AND NOT r) (Pieces ck) revoked)
                 in \<lparr>cd_reason = fst rb, cd_bits = snd rb\<rparr>)"
    using assms by (auto simp: Filter_def fallback_def Let_def split: if_splits Option.bind_splits sum.splits)
  moreover have "\<forall>i < length current. Offset (current ! i) = Offset (Files ck ! i)
            \<and> FileLength (current ! i) = FileLength (Files ck ! i)"
    using same \<open>length current = length (Files ck)\<close> by (auto simp: list_ex_iff set_zip)
  ultimately show ?thesis by blast
qed simp

lemma asciiLower_low:
  "codeOf d < 65 \<Longrightarrow> asciiLower c = d \<longleftrightarrow> c = d" "codeOf d < 65 \<Longrightarrow> d = asciiLower c \<longleftrightarrow> d = c"
  by (cases "65 \<le> codeOf c \<and> codeOf c \<le> 90") (auto simp: asciiLower_def Let_def)

lemma asciiLower_sep [simp]: "asciiLower sep = sep"
  by (simp add: asciiLower_low)

lemma map_asciiLower_join: "map asciiLower (joinWith sep cs) = joinWith sep (map (map asciiLower) cs)"
  by (induction sep cs rule: joinWith.induct) (simp_all add: asciiLower_low)

lemma proper_asciiLower: "properComp c \<Longrightarrow> properComp (map asciiLower c)"
  by (auto simp: properComp_def asciiLower_low map_eq_Cons_conv)

lemma keysLocal_ascii: "keysLocal asciiTables"
  unfolding keysLocal_def
proof (intro allI impI)
  fix cs assume cs: "properComps cs"
  have "properComps (map (map asciiLower) cs)"
    using cs proper_asciiLower by (auto simp: properComps_def list_all_iff)
  then show "\<exists>ks. properComps ks \<and> CollisionKey asciiTables (joinWith sep cs) = joinWith sep ks"
    using cs by (auto simp: CollisionKey_def asciiTables_def ToLower_def map_asciiLower_join)
qed

section \<open>Properties\<close>

text \<open>C9: The filter keeps exactly what is still evidenced. When it returns any bits, a piece is kept
  if and only if it was saved, is not revoked, and no byte of it belongs to a file that is absent,
  too short, or changed since the checkpoint; no piece outside the torrent is touched.\<close>

theorem filter_keeps_exactly:
  assumes "Filter u mode (Some ck) expected current revoked blocked = Some c"
    and "cd_bits c \<noteq> []" "in_i64 (ExtentLength (CkIdentity ck))"
  shows "piece_bit (cd_bits c) p \<longleftrightarrow> piece_bit (Pieces ck) p \<and> \<not> piece_bit revoked p
      \<and> \<not> (\<exists>i < length current. fileChanged (current ! i) (Files ck ! i)
            \<and> touches (PieceLength expected) (current ! i) p)"
proof -
  obtain reason x where ok: "Checkpoint_Validate u (Some ck) = Some (Inr x)" "CkIdentity ck = expected"
    "length current = length (Files ck)" "validBitmap revoked (PieceCount expected)"
    and same: "\<forall>i < length current. Offset (current ! i) = Offset (Files ck ! i)
            \<and> FileLength (current ! i) = FileLength (Files ck ! i)"
    and c: "cd_bits c = snd (clearChanged (PieceLength expected) (zip current (Files ck))
                      (reason, map2 (\<lambda>b r. b AND NOT r) (Pieces ck) revoked))"
    using Filter_bits [OF assms(1)] assms(2) by (auto simp: Let_def)
  have len: "length (Pieces ck) = length revoked"
    using validBitmap_length [OF Validate_Inr(3) [OF ok(1)]] validBitmap_length [OF ok(4)] ok(2) by simp
  have pl: "0 < PieceLength expected"
    using Identity_validate_Inr(1) [OF Validate_Inr(1) [OF ok(1)]] ok(2) by simp
  have bounds: "\<forall>(f, g) \<in> set (zip current (Files ck)). 0 \<le> Offset f \<and> 0 \<le> FileLength f \<and> Offset f + FileLength f \<le> MaxInt64"
    using validated_file_bounds [OF ok(1) _ assms(3)] same ok(3) by (auto simp: set_zip)
  show ?thesis
    unfolding c clearChanged_bits(1) [OF pl bounds] piece_bit_and_not [OF len]
    using zip_set_bounds [OF ok(3), of "\<lambda>f g. fileChanged f g \<and> touches (PieceLength expected) f p"] by auto
qed

theorem filter_keeps_exactly_witness:
  "piece_bit [1] 0 \<and> \<not> piece_bit [1] 1"
proof -
  have f: "Filter asciiTables Fast (Some exCheckpoint) exIdentity
      [exFile ''a/x'' 0 True, exFile ''b'' 5 False] [0] False
    = Some \<lparr>cd_reason = FilesChanged, cd_bits = [1]\<rparr>" by code_simp
  have "in_i64 (ExtentLength (CkIdentity exCheckpoint))" by code_simp
  from filter_keeps_exactly [OF f _ this, of 0] show ?thesis by (simp add: piece_bit_def)
qed

text \<open>Validation returns. Whenever collision keys of local paths are local paths, the validation
  of any checkpoint ends with a verdict: the walk over parent directories reaches the root.\<close>

lemma validation_returns:
  assumes "keysLocal u"
  shows "\<exists>r. Checkpoint_Validate u (Some c) = Some r"
proof (cases "checkFiles u (ExtentLength (CkIdentity c)) 0 0 [] (Files c)")
  case (Inr keys)
  note ck = checkFiles_Inr [OF Inr]
  have "\<exists>b. parentHit keys (Dir k) = Some b" if "k \<in> set keys" for k
  proof -
    obtain f where f: "f \<in> set (Files c)" "k = CollisionKey u (FilePath f)" using ck \<open>k \<in> set keys\<close> by auto
    then obtain ks where ks: "properComps ks" "k = joinWith sep ks"
      using file_key_proper [OF assms] ck by metis
    show ?thesis unfolding ks(2) parentHit_key [OF ks(1)] by blast
  qed
  then show ?thesis using noParentKey_Some [of keys keys]
    by (auto simp: Checkpoint_Validate_def Inr split: sum.split)
qed (auto simp: Checkpoint_Validate_def split: sum.split)

lemma validation_returns_example:
  "\<exists>r. Checkpoint_Validate asciiTables (Some exCheckpoint) = Some r"
  by (rule validation_returns [OF keysLocal_ascii])

text \<open>C34: A validated checkpoint describes a possible catalog. Its files lie in order and apart
  inside the extent, every byte of them belongs to a piece of the bitmap, and no file's collision
  key is another's or a directory above it.\<close>

theorem validated_catalog:
  assumes "keysLocal u" "Checkpoint_Validate u (Some c) = Some (Inr ())" "in_i64 (ExtentLength (CkIdentity c))"
  shows "sorted_wrt (\<lambda>f g. Offset f + FileLength f \<le> Offset g) (Files c)
    \<and> (\<forall>f \<in> set (Files c). \<forall>p. touches (PieceLength (CkIdentity c)) f p \<longrightarrow> p div 8 < length (Pieces c))
    \<and> distinct (map (\<lambda>f. CollisionKey u (FilePath f)) (Files c))
    \<and> (\<forall>f \<in> set (Files c). \<forall>g \<in> set (Files c).
         \<not> strict_prefix (cleanComps (CollisionKey u (FilePath f))) (cleanComps (CollisionKey u (FilePath g))))"
proof (intro conjI ballI allI impI notI)
  let ?keys = "map (\<lambda>f. CollisionKey u (FilePath f)) (Files c)"
  note ck = checkFiles_Inr [OF Validate_Inr(2) [OF assms(2)]]
  show "sorted_wrt (\<lambda>f g. Offset f + FileLength f \<le> Offset g) (Files c)" "distinct ?keys"
    using ck by simp_all
  note id = Identity_validate_Inr [OF Validate_Inr(1) [OF assms(2)]]
  fix f assume f: "f \<in> set (Files c)"
  { fix p assume "touches (PieceLength (CkIdentity c)) f p"
    then obtain y where "y < Offset f + FileLength f" "y div PieceLength (CkIdentity c) = int p"
      by (auto simp: touches_def)
    then have "int p < PieceCount (CkIdentity c)"
      using id(5) [of y] validated_file_bounds(3) [OF assms(2) f assms(3)] by simp
    then show "p div 8 < length (Pieces c)"
      using validBitmap_length [OF Validate_Inr(3) [OF assms(2)]] by linarith }
  fix g assume g: "g \<in> set (Files c)"
  assume sp: "strict_prefix (cleanComps (CollisionKey u (FilePath f))) (cleanComps (CollisionKey u (FilePath g)))"
  have key: "\<exists>ks. properComps ks \<and> CollisionKey u (FilePath h) = joinWith sep ks" if "h \<in> set (Files c)" for h
    using file_key_proper [OF assms(1), of "FilePath h"] ck that by blast
  obtain fs gs where keys: "properComps fs" "CollisionKey u (FilePath f) = joinWith sep fs"
    "properComps gs" "CollisionKey u (FilePath g) = joinWith sep gs"
    using key [OF f] key [OF g] by blast
  then have pre: "strict_prefix fs gs" using sp by simp
  have "parentHit ?keys (Dir (joinWith sep gs)) = Some False"
    using noParentKey_Inr [OF Validate_Inr(4) [OF assms(2)]] g keys(4) by force
  then have "\<not> (\<exists>k. 0 < k \<and> k \<le> length (butlast gs) \<and> relPath (take k (butlast gs)) \<in> set ?keys)"
    unfolding parentHit_key [OF keys(3)] by blast
  moreover obtain z zs where "gs = fs @ z # zs"
    using pre by (metis strict_prefixE')
  then have "take (length fs) (butlast gs) = fs" "0 < length fs" "length fs \<le> length (butlast gs)"
    using keys(1) by (simp_all add: butlast_append properComps_def Suc_le_eq)
  moreover have "relPath fs \<in> set ?keys" using keys(1,2) f by (force simp: relPath_def properComps_def)
  ultimately show False by metis
qed

theorem validated_catalog_witness:
  "sorted_wrt (\<lambda>f g. Offset f + FileLength f \<le> Offset g) (Files exCheckpoint)"
proof -
  have v: "Checkpoint_Validate asciiTables (Some exCheckpoint) = Some (Inr ())" by code_simp
  have "in_i64 (ExtentLength (CkIdentity exCheckpoint))" by code_simp
  from validated_catalog [OF keysLocal_ascii v this] show ?thesis by blast
qed

end
