(* ===== verification/Codec.thy ===== *)
theory Codec
  imports Checkpoint
begin

text \<open>
  The binary envelope of a checkpoint (\<open>internal/fastresume/codec.go\<close>): the appending encoder, the
  decoder with its sticky error, and \<open>Encode\<close>/\<open>Decode\<close>. A field codec is a pair of an encoder and
  a decoder that undo each other on a prefix of the input; the locale states the contract once and
  the integer, text, file and identity fields meet it.
\<close>

section \<open>Encoding\<close>

definition envelopeMagic :: string where "envelopeMagic = ''TSHRSM01''"

definition encInteger :: "int \<Rightarrow> bytes" where
  "encInteger n = le_bytes 8 (nat (n mod 2 ^ 64))"

definition encText :: "string \<Rightarrow> bytes" where
  "encText s = le_bytes 4 (length s mod 2 ^ 32) @ map byte_of_char s"

definition encIdentity :: "Identity \<times> int \<Rightarrow> bytes" where
  "encIdentity = (\<lambda>(i, files).
     encText (RecordID i) @ encText (StorageID i) @ encText (RootF i) @ encText (Prefix i)
     @ encText (MetainfoDigest i) @ encText (CatalogDigest i) @ encText (VolumeID i)
     @ encInteger (MappingRevision i) @ encInteger (LayoutVersionF i) @ encInteger (PieceLength i)
     @ encInteger (PieceCount i) @ encInteger (ExtentLength i) @ encInteger files)"

definition encFile :: "File \<Rightarrow> bytes" where
  "encFile f = encText (FilePath f) @ encInteger (Offset f) @ encInteger (FileLength f)
     @ encInteger (if Present (FileEvidence f) then 1 else 0)
     @ encText (EvIdentity (FileEvidence f)) @ encInteger (Size (FileEvidence f))
     @ encInteger (ModifiedNS (FileEvidence f))"

definition envelope :: "Checkpoint \<Rightarrow> bytes" where
  "envelope c = map byte_of_char envelopeMagic @ encInteger (Schema c) @ encInteger (Generation c)
     @ encInteger (CreatedAtMS c) @ encIdentity (CkIdentity c, int (length (Files c)))
     @ concat (map encFile (Files c)) @ Pieces c"

definition Encode :: "unicodeTables \<Rightarrow> Checkpoint option \<Rightarrow> (resumeError, bytes) result option" where
  "Encode u cp =
     Option.bind (Checkpoint_Validate u cp) (\<lambda>v.
       case (v, cp) of
         (Inr _, Some c) \<Rightarrow>
           Some (if int (length (envelope c)) > MaxCheckpointBytes then Inl ErrBudget else Inr (envelope c))
       | (Inl e, _) \<Rightarrow> Some (Inl e)
       | (Inr _, None) \<Rightarrow> Some (Inl ErrInvalid))"

section \<open>Decoding\<close>

record decoder =
  d_data :: bytes
  d_err :: "resumeError option"

definition dTake :: "int \<Rightarrow> decoder \<Rightarrow> bytes option \<times> decoder" where
  "dTake n d =
     (if d_err d \<noteq> None then (None, d)
      else if n < 0 \<or> n > int (length (d_data d)) then (None, d\<lparr>d_err := Some ErrUnexpectedEOF\<rparr>)
      else (Some (take (nat n) (d_data d)), d\<lparr>d_data := drop (nat n) (d_data d)\<rparr>))"

definition dInteger :: "decoder \<Rightarrow> int \<times> decoder" where
  "dInteger d =
     (case dTake 8 d of
        (None, d) \<Rightarrow> (0, d)
      | (Some p, d) \<Rightarrow> (wrap64 (int (le_value p)), d))"

definition dText :: "int \<Rightarrow> decoder \<Rightarrow> string \<times> decoder" where
  "dText limit d =
     (case dTake 4 d of
        (None, d) \<Rightarrow> ([], d)
      | (Some p, d) \<Rightarrow>
         (let n = le_value p in
          if int n > limit mod 2 ^ 64 then ([], d\<lparr>d_err := Some ErrBudget\<rparr>)
          else case dTake (int n) d of
            (None, d) \<Rightarrow> ([], d)
          | (Some q, d) \<Rightarrow> (map char_of_byte q, d)))"

definition dIdentity :: "decoder \<Rightarrow> (Identity \<times> int) \<times> decoder" where
  "dIdentity d =
     (case dText MaxIdentityLength d of (recordID, d) \<Rightarrow>
      case dText MaxIdentityLength d of (storageID, d) \<Rightarrow>
      case dText MaxPathLength d of (root, d) \<Rightarrow>
      case dText MaxPathLength d of (pre, d) \<Rightarrow>
      case dText 64 d of (metainfo, d) \<Rightarrow>
      case dText 64 d of (catalog, d) \<Rightarrow>
      case dText MaxIdentityLength d of (volume, d) \<Rightarrow>
      case dInteger d of (mapping, d) \<Rightarrow>
      case dInteger d of (layout, d) \<Rightarrow>
      case dInteger d of (pieceLength, d) \<Rightarrow>
      case dInteger d of (pieces, d) \<Rightarrow>
      case dInteger d of (extent, d) \<Rightarrow>
      case dInteger d of (files, d) \<Rightarrow>
        ((\<lparr>RecordID = recordID, StorageID = storageID, MappingRevision = mapping,
           LayoutVersionF = layout, RootF = root, Prefix = pre, MetainfoDigest = metainfo,
           CatalogDigest = catalog, VolumeID = volume, PieceLength = pieceLength,
           PieceCount = pieces, ExtentLength = extent\<rparr>, files), d))"

text \<open>One turn of the file loop; the integer is the presence field before it is checked.\<close>

definition dFile :: "int \<Rightarrow> decoder \<Rightarrow> (File \<times> int) \<times> decoder" where
  "dFile limit d =
     (case dText limit d of (path, d) \<Rightarrow>
      case dInteger d of (off, d) \<Rightarrow>
      case dInteger d of (len, d) \<Rightarrow>
      case dInteger d of (present, d) \<Rightarrow>
      case dText MaxIdentityLength d of (ident, d) \<Rightarrow>
      case dInteger d of (sz, d) \<Rightarrow>
      case dInteger d of (modified, d) \<Rightarrow>
        ((\<lparr>FilePath = path, Offset = off, FileLength = len,
           FileEvidence = \<lparr>Present = (present = 1), EvIdentity = ident, Size = sz, ModifiedNS = modified\<rparr>\<rparr>,
          present), d))"

fun dFiles :: "nat \<Rightarrow> int \<Rightarrow> decoder \<Rightarrow> (resumeError, File list \<times> decoder) result" where
  "dFiles 0 pathBytes d = Inr ([], d)"
| "dFiles (Suc k) pathBytes d =
     (case dFile (min MaxPathLength (MaxPathBytes - pathBytes)) d of
        ((f, present), d) \<Rightarrow>
          (case d_err d of Some e \<Rightarrow> Inl e
           | None \<Rightarrow>
              if present \<noteq> 0 \<and> present \<noteq> 1 then Inl ErrInvalid
              else andThen (dFiles k (pathBytes + int (length (FilePath f))) d)
                     (\<lambda>(fs, d). Inr (f # fs, d))))"

definition Decode :: "unicodeTables \<Rightarrow> bytes \<Rightarrow> (resumeError, Checkpoint) result option" where
  "Decode u data =
     (if int (length data) > MaxCheckpointBytes then Some (Inl ErrBudget)
      else case dTake (int (length envelopeMagic)) \<lparr>d_data = data, d_err = None\<rparr> of (magic, d) \<Rightarrow>
      if magic \<noteq> Some (map byte_of_char envelopeMagic) then Some (Inl ErrInvalid)
      else case dInteger d of (schema, d) \<Rightarrow>
      if schema \<noteq> SchemaVersion then Some (Inl ErrInvalid)
      else case dInteger d of (generation, d) \<Rightarrow>
      case dInteger d of (created, d) \<Rightarrow>
      case dIdentity d of ((i, files), d) \<Rightarrow>
      case d_err d of Some e \<Rightarrow> Some (Inl e) | None \<Rightarrow>
      if PieceCount i < 0 \<or> LayoutVersionF i < 0 \<or> LayoutVersionF i > 2 \<or> files < 1 then Some (Inl ErrInvalid)
      else if PieceCount i > MaxPieces \<or> files > MaxFiles then Some (Inl ErrBudget)
      else case Identity_validate u i of Inl e \<Rightarrow> Some (Inl e) | Inr _ \<Rightarrow>
      case dFiles (nat files) 0 d of Inl e \<Rightarrow> Some (Inl e) | Inr (fs, d) \<Rightarrow>
      case dTake (bitmapBytes (PieceCount i)) d of (bits, d) \<Rightarrow>
      case d_err d of Some e \<Rightarrow> Some (Inl e) | None \<Rightarrow>
      if d_data d \<noteq> [] then Some (Inl ErrInvalid)
      else let c = \<lparr>Schema = SchemaVersion, CkIdentity = i, Generation = generation, CreatedAtMS = created,
                    Files = fs, Pieces = (case bits of None \<Rightarrow> [] | Some b \<Rightarrow> b)\<rparr>
           in map_option (\<lambda>v. andThen v (\<lambda>_. Inr c)) (Checkpoint_Validate u (Some c)))"

section \<open>The contract of a field codec\<close>

locale byte_codec =
  fixes enc :: "'a \<Rightarrow> bytes"
    and dec :: "decoder \<Rightarrow> 'a \<times> decoder"
    and ok :: "'a \<Rightarrow> bool"
  assumes dec_enc: "ok x \<Longrightarrow> dec \<lparr>d_data = enc x @ rest, d_err = None\<rparr> = (x, \<lparr>d_data = rest, d_err = None\<rparr>)"
    and enc_dec: "dec d = (x, d') \<Longrightarrow> d_err d' = None \<Longrightarrow>
      ok x \<and> d = \<lparr>d_data = enc x @ d_data d', d_err = None\<rparr>"

text \<open>Such a field is self-delimiting.\<close>

sublocale byte_codec \<subseteq> field: self_delimiting enc
    "\<lambda>bs. case dec \<lparr>d_data = bs, d_err = None\<rparr> of (x, d) \<Rightarrow> if d_err d = None then Some (x, d_data d) else None" ok
proof unfold_locales
  fix bs x rest
  assume "(case dec \<lparr>d_data = bs, d_err = None\<rparr> of (x, d) \<Rightarrow> if d_err d = None then Some (x, d_data d) else None) = Some (x, rest)"
  then obtain d where "dec \<lparr>d_data = bs, d_err = None\<rparr> = (x, d)" "d_err d = None" "rest = d_data d"
    by (auto split: prod.splits if_splits)
  then show "ok x \<and> bs = enc x @ rest" using enc_dec by fastforce
qed (simp add: dec_enc)

text \<open>Well-typed checkpoints: every integer field is a Go \<open>int64\<close>.\<close>

definition i64File :: "File \<Rightarrow> bool" where
  "i64File f \<longleftrightarrow> in_i64 (Offset f) \<and> in_i64 (FileLength f) \<and> in_i64 (Size (FileEvidence f))
     \<and> in_i64 (ModifiedNS (FileEvidence f))"

definition i64Identity :: "Identity \<Rightarrow> bool" where
  "i64Identity i \<longleftrightarrow> in_i64 (MappingRevision i) \<and> in_i64 (LayoutVersionF i) \<and> in_i64 (PieceLength i)
     \<and> in_i64 (PieceCount i) \<and> in_i64 (ExtentLength i)"

definition i64Checkpoint :: "Checkpoint \<Rightarrow> bool" where
  "i64Checkpoint c \<longleftrightarrow> in_i64 (Schema c) \<and> in_i64 (Generation c) \<and> in_i64 (CreatedAtMS c)
     \<and> i64Identity (CkIdentity c) \<and> list_all i64File (Files c)"

section \<open>Integers and texts\<close>

lemma dTake_append:
  "int (length p) = n \<Longrightarrow> dTake n \<lparr>d_data = p @ rest, d_err = None\<rparr> = (Some p, \<lparr>d_data = rest, d_err = None\<rparr>)"
  by (auto simp: dTake_def)

lemma dTake_None_err:
  assumes "dTake n d = (r, d')" "d_err d' = None"
  shows "\<exists>p. r = Some p \<and> int (length p) = n \<and> d = \<lparr>d_data = p @ d_data d', d_err = None\<rparr>"
  using assms by (cases d) (auto simp: dTake_def split: if_splits)

lemma wrap64_mod: "in_i64 n \<Longrightarrow> wrap64 (n mod 2 ^ 64) = n"
  by (simp add: wrap64_def in_i64_def signed_take_bit_eq_take_bit_shift take_bit_eq_mod mod_simps)

lemma wrap64_inv: "0 \<le> m \<Longrightarrow> m < 2 ^ 64 \<Longrightarrow> wrap64 m mod 2 ^ 64 = m"
  by (simp add: wrap64_def signed_take_bit_eq_take_bit_shift take_bit_eq_mod mod_simps)

lemma integer_codec: "byte_codec encInteger dInteger in_i64"
proof
  fix x rest assume x: "in_i64 x"
  have "nat (x mod 2 ^ 64) < 256 ^ 8" by (simp add: nat_less_iff)
  then have "int (le_value (encInteger x)) = x mod 2 ^ 64"
    by (simp add: encInteger_def le_value_le_bytes)
  then show "dInteger \<lparr>d_data = encInteger x @ rest, d_err = None\<rparr> = (x, \<lparr>d_data = rest, d_err = None\<rparr>)"
    using wrap64_mod [OF x] by (simp add: dInteger_def dTake_append encInteger_def)
next
  fix d x d' assume d: "dInteger d = (x, d')" "d_err d' = None"
  then obtain p where p: "length p = 8" "d = \<lparr>d_data = p @ d_data d', d_err = None\<rparr>" "x = wrap64 (int (le_value p))"
    using dTake_None_err by (fastforce simp: dInteger_def split: prod.splits option.splits)
  have "le_value p < 2 ^ 64" using le_value_less [of p] p(1) by simp
  then have "nat (x mod 2 ^ 64) = le_value p"
    unfolding p(3) by (subst wrap64_inv) auto
  then have "encInteger x = p" using le_bytes_le_value [of p] p(1) by (simp add: encInteger_def)
  then show "in_i64 x \<and> d = \<lparr>d_data = encInteger x @ d_data d', d_err = None\<rparr>"
    using p wrap64_range by simp
qed

lemma text_codec:
  assumes "0 \<le> limit" "limit < 2 ^ 32"
  shows "byte_codec encText (dText limit) (\<lambda>s. int (length s) \<le> limit)"
proof
  fix s :: string and rest :: bytes assume s: "int (length s) \<le> limit"
  then have n: "length s < 256 ^ 4" "length s mod 2 ^ 32 = length s" using assms(2) by simp_all
  have "map char_of_byte (map byte_of_char s) = s" by (simp add: o_def)
  then show "dText limit \<lparr>d_data = encText s @ rest, d_err = None\<rparr> = (s, \<lparr>d_data = rest, d_err = None\<rparr>)"
    using s assms n by (simp add: dText_def encText_def dTake_append le_value_le_bytes)
next
  fix d :: decoder and s :: string and d' assume d: "dText limit d = (s, d')" "d_err d' = None"
  obtain r d1 where r: "dTake 4 d = (r, d1)" by fastforce
  have "d_err d1 = None"
    using d r by (auto simp: dText_def dTake_def Let_def split: option.splits if_splits prod.splits)
  from dTake_None_err [OF r this] obtain p where p: "r = Some p" "length p = 4"
    "d = \<lparr>d_data = p @ d_data d1, d_err = None\<rparr>" by auto
  obtain q d2 where q: "dTake (int (le_value p)) d1 = (q, d2)" by fastforce
  have lim: "int (le_value p) \<le> limit" and d': "d' = d2" "q \<noteq> None \<Longrightarrow> s = map char_of_byte (the q)"
    using d r q assms by (auto simp: dText_def p(1) Let_def split: option.splits if_splits)
  from dTake_None_err [OF q] d(2) d'(1) obtain b where b: "q = Some b" "length b = le_value p"
    "d1 = \<lparr>d_data = b @ d_data d', d_err = None\<rparr>" by auto
  have s: "s = map char_of_byte b" using d'(2) b(1) by simp
  have "le_value p < 2 ^ 32" using le_value_less [of p] p(2) by simp
  then have "encText s = p @ b"
    using le_bytes_le_value [of p] p(2) b(2) by (simp add: encText_def s o_def)
  then show "int (length s) \<le> limit \<and> d = \<lparr>d_data = encText s @ d_data d', d_err = None\<rparr>"
    using p b lim s by simp
qed

interpretation int64: byte_codec encInteger dInteger in_i64
  by (rule integer_codec)

interpretation identityText: byte_codec encText "dText 256" "\<lambda>s. int (length s) \<le> 256"
  by (rule text_codec) simp_all

interpretation pathText: byte_codec encText "dText 4096" "\<lambda>s. int (length s) \<le> 4096"
  by (rule text_codec) simp_all

interpretation digestText: byte_codec encText "dText 64" "\<lambda>s. int (length s) \<le> 64"
  by (rule text_codec) simp_all

section \<open>Records of fields\<close>

text \<open>What \<open>dFile\<close> reads: the presence field is any integer here.\<close>

definition encFileFields :: "File \<times> int \<Rightarrow> bytes" where
  "encFileFields = (\<lambda>(f, present). encText (FilePath f) @ encInteger (Offset f) @ encInteger (FileLength f)
     @ encInteger present @ encText (EvIdentity (FileEvidence f)) @ encInteger (Size (FileEvidence f))
     @ encInteger (ModifiedNS (FileEvidence f)))"

definition okFileFields :: "int \<Rightarrow> File \<times> int \<Rightarrow> bool" where
  "okFileFields limit = (\<lambda>(f, present). i64File f \<and> in_i64 present \<and> int (length (FilePath f)) \<le> limit
     \<and> int (length (EvIdentity (FileEvidence f))) \<le> 256 \<and> Present (FileEvidence f) = (present = 1))"

definition okIdentity :: "Identity \<times> int \<Rightarrow> bool" where
  "okIdentity = (\<lambda>(i, files). i64Identity i \<and> in_i64 files
     \<and> int (length (RecordID i)) \<le> 256 \<and> int (length (StorageID i)) \<le> 256
     \<and> int (length (RootF i)) \<le> 4096 \<and> int (length (Prefix i)) \<le> 4096
     \<and> int (length (MetainfoDigest i)) \<le> 64 \<and> int (length (CatalogDigest i)) \<le> 64
     \<and> int (length (VolumeID i)) \<le> 256)"

text \<open>Codecs compose: one field after the other, and a renaming of the decoded tuple.\<close>

definition dSeq :: "(decoder \<Rightarrow> 'a \<times> decoder) \<Rightarrow> (decoder \<Rightarrow> 'b \<times> decoder) \<Rightarrow> decoder \<Rightarrow> ('a \<times> 'b) \<times> decoder" where
  "dSeq d1 d2 d = (case d1 d of (a, d) \<Rightarrow> case d2 d of (b, d) \<Rightarrow> ((a, b), d))"

definition eSeq :: "('a \<Rightarrow> bytes) \<Rightarrow> ('b \<Rightarrow> bytes) \<Rightarrow> 'a \<times> 'b \<Rightarrow> bytes" where
  "eSeq e1 e2 = (\<lambda>(a, b). e1 a @ e2 b)"

definition okSeq :: "('a \<Rightarrow> bool) \<Rightarrow> ('b \<Rightarrow> bool) \<Rightarrow> 'a \<times> 'b \<Rightarrow> bool" where
  "okSeq p q = (\<lambda>(a, b). p a \<and> q b)"

lemma seq_codec:
  assumes "byte_codec e1 d1 ok1" "byte_codec e2 d2 ok2"
  shows "byte_codec (eSeq e1 e2) (dSeq d1 d2) (okSeq ok1 ok2)"
proof
  fix x and rest :: bytes assume "okSeq ok1 ok2 x"
  then show "dSeq d1 d2 \<lparr>d_data = eSeq e1 e2 x @ rest, d_err = None\<rparr> = (x, \<lparr>d_data = rest, d_err = None\<rparr>)"
    by (cases x) (simp add: okSeq_def eSeq_def dSeq_def byte_codec.dec_enc [OF assms(1)] byte_codec.dec_enc [OF assms(2)])
next
  fix d x d' assume d: "dSeq d1 d2 d = (x, d')" "d_err d' = None"
  obtain a m where m: "d1 d = (a, m)" by fastforce
  obtain b where b: "d2 m = (b, d')" "x = (a, b)" using d(1) m by (auto simp: dSeq_def split: prod.splits)
  note snd = byte_codec.enc_dec [OF assms(2) b(1) d(2)]
  then have "d_err m = None" by (metis decoder.select_convs(2))
  note fst = byte_codec.enc_dec [OF assms(1) m this]
  have "d_data m = e2 b @ d_data d'" using snd by (metis decoder.select_convs(1))
  then show "okSeq ok1 ok2 x \<and> d = \<lparr>d_data = eSeq e1 e2 x @ d_data d', d_err = None\<rparr>"
    using fst snd b(2) by (simp add: okSeq_def eSeq_def)
qed

lemma iso_codec:
  assumes "byte_codec e dd ok" "\<And>t. g (f t) = t"
  shows "byte_codec (\<lambda>x. e (g x)) (\<lambda>d. case dd d of (t, d) \<Rightarrow> (f t, d)) (\<lambda>x. ok (g x) \<and> f (g x) = x)"
proof
  fix x and rest :: bytes assume "ok (g x) \<and> f (g x) = x"
  then show "(case dd \<lparr>d_data = e (g x) @ rest, d_err = None\<rparr> of (t, d) \<Rightarrow> (f t, d)) = (x, \<lparr>d_data = rest, d_err = None\<rparr>)"
    by (simp add: byte_codec.dec_enc [OF assms(1)])
next
  fix d x d' assume d: "(case dd d of (t, d) \<Rightarrow> (f t, d)) = (x, d')" "d_err d' = None"
  obtain t where t: "dd d = (t, d')" "x = f t" using d(1) by (auto split: prod.splits)
  show "(ok (g x) \<and> f (g x) = x) \<and> d = \<lparr>d_data = e (g x) @ d_data d', d_err = None\<rparr>"
    using byte_codec.enc_dec [OF assms(1) t(1) d(2)] t(2) assms(2) by simp
qed

definition fileOfTuple :: "string \<times> int \<times> int \<times> int \<times> string \<times> int \<times> int \<Rightarrow> File \<times> int" where
  "fileOfTuple = (\<lambda>(path, off, len, present, ident, sz, modified).
     (\<lparr>FilePath = path, Offset = off, FileLength = len,
       FileEvidence = \<lparr>Present = (present = 1), EvIdentity = ident, Size = sz, ModifiedNS = modified\<rparr>\<rparr>, present))"

definition tupleOfFile :: "File \<times> int \<Rightarrow> string \<times> int \<times> int \<times> int \<times> string \<times> int \<times> int" where
  "tupleOfFile = (\<lambda>(f, present). (FilePath f, Offset f, FileLength f, present,
     EvIdentity (FileEvidence f), Size (FileEvidence f), ModifiedNS (FileEvidence f)))"

lemma file_codec:
  assumes "0 \<le> limit" "limit < 2 ^ 32"
  shows "byte_codec encFileFields (dFile limit) (okFileFields limit)"
proof -
  let ?ok = "okSeq (\<lambda>s. int (length s) \<le> limit) (okSeq in_i64 (okSeq in_i64 (okSeq in_i64
    (okSeq (\<lambda>s. int (length s) \<le> 256) (okSeq in_i64 in_i64)))))"
  let ?dec = "dSeq (dText limit) (dSeq dInteger (dSeq dInteger (dSeq dInteger
    (dSeq (dText 256) (dSeq dInteger dInteger)))))"
  let ?enc = "eSeq encText (eSeq encInteger (eSeq encInteger (eSeq encInteger
    (eSeq encText (eSeq encInteger encInteger)))))"
  have "byte_codec ?enc ?dec ?ok"
    by (intro seq_codec integer_codec text_codec) (use assms in simp_all)
  from iso_codec [OF this, of tupleOfFile fileOfTuple]
  have "byte_codec (\<lambda>x. ?enc (tupleOfFile x)) (\<lambda>d. case ?dec d of (t, d) \<Rightarrow> (fileOfTuple t, d))
      (\<lambda>x. ?ok (tupleOfFile x) \<and> fileOfTuple (tupleOfFile x) = x)"
    by (auto simp: tupleOfFile_def fileOfTuple_def)
  moreover have "(\<lambda>x. ?enc (tupleOfFile x)) = encFileFields"
    by (auto simp: fun_eq_iff eSeq_def tupleOfFile_def encFileFields_def)
  moreover have "(\<lambda>d. case ?dec d of (t, d) \<Rightarrow> (fileOfTuple t, d)) = dFile limit"
    by (rule ext) (simp add: dSeq_def dFile_def fileOfTuple_def split_def)
  moreover have "(\<lambda>x. ?ok (tupleOfFile x) \<and> fileOfTuple (tupleOfFile x) = x) = okFileFields limit"
  proof (rule ext)
    fix x :: "File \<times> int"
    obtain f present where x: "x = (f, present)" by (cases x)
    obtain path off len ev where f: "f = \<lparr>FilePath = path, Offset = off, FileLength = len, FileEvidence = ev\<rparr>" by (cases f)
    show "(?ok (tupleOfFile x) \<and> fileOfTuple (tupleOfFile x) = x) = okFileFields limit x"
      unfolding x f by (cases ev)
        (auto simp: okSeq_def tupleOfFile_def fileOfTuple_def okFileFields_def i64File_def)
  qed
  ultimately show ?thesis by simp
qed

definition identityOfTuple where
  "identityOfTuple = (\<lambda>(recordID :: string, storageID :: string, root :: string, pre :: string, metainfo :: string,
     catalog :: string, volume :: string, mapping :: int, layout :: int, pieceLength :: int, pieces :: int, extent :: int, files :: int).
     (\<lparr>RecordID = recordID, StorageID = storageID, MappingRevision = mapping,
       LayoutVersionF = layout, RootF = root, Prefix = pre, MetainfoDigest = metainfo,
       CatalogDigest = catalog, VolumeID = volume, PieceLength = pieceLength,
       PieceCount = pieces, ExtentLength = extent\<rparr>, files))"

definition tupleOfIdentity where
  "tupleOfIdentity = (\<lambda>(i :: Identity, files :: int). (RecordID i, StorageID i, RootF i, Prefix i, MetainfoDigest i,
     CatalogDigest i, VolumeID i, MappingRevision i, LayoutVersionF i, PieceLength i, PieceCount i, ExtentLength i, files))"

lemma identity_codec: "byte_codec encIdentity dIdentity okIdentity"
proof -
  let ?le = "\<lambda>n s. int (length (s :: string)) \<le> n"
  let ?ok = "okSeq (?le 256) (okSeq (?le 256) (okSeq (?le 4096) (okSeq (?le 4096) (okSeq (?le 64) (okSeq (?le 64)
    (okSeq (?le 256) (okSeq in_i64 (okSeq in_i64 (okSeq in_i64 (okSeq in_i64 (okSeq in_i64 in_i64)))))))))))"
  let ?dec = "dSeq (dText 256) (dSeq (dText 256) (dSeq (dText 4096) (dSeq (dText 4096) (dSeq (dText 64) (dSeq (dText 64)
    (dSeq (dText 256) (dSeq dInteger (dSeq dInteger (dSeq dInteger (dSeq dInteger (dSeq dInteger dInteger)))))))))))"
  let ?enc = "eSeq encText (eSeq encText (eSeq encText (eSeq encText (eSeq encText (eSeq encText (eSeq encText
    (eSeq encInteger (eSeq encInteger (eSeq encInteger (eSeq encInteger (eSeq encInteger encInteger)))))))))))"
  have "byte_codec ?enc ?dec ?ok"
    by (intro seq_codec integer_codec text_codec) simp_all
  from iso_codec [OF this, of tupleOfIdentity identityOfTuple]
  have "byte_codec (\<lambda>x. ?enc (tupleOfIdentity x)) (\<lambda>d. case ?dec d of (t, d) \<Rightarrow> (identityOfTuple t, d))
      (\<lambda>x. ?ok (tupleOfIdentity x) \<and> identityOfTuple (tupleOfIdentity x) = x)"
    by (simp add: tupleOfIdentity_def identityOfTuple_def split_def)
  moreover have "(\<lambda>x. ?enc (tupleOfIdentity x)) = encIdentity"
    by (simp add: fun_eq_iff eSeq_def tupleOfIdentity_def encIdentity_def)
  moreover have "(\<lambda>d. case ?dec d of (t, d) \<Rightarrow> (identityOfTuple t, d)) = dIdentity"
    by (rule ext) (simp add: dSeq_def dIdentity_def identityOfTuple_def split_def)
  moreover have "(\<lambda>x. ?ok (tupleOfIdentity x) \<and> identityOfTuple (tupleOfIdentity x) = x) = okIdentity"
  proof (rule ext)
    fix x :: "Identity \<times> int"
    have "identityOfTuple (tupleOfIdentity x) = x"
      by (cases x; cases "fst x") (simp add: tupleOfIdentity_def identityOfTuple_def)
    then show "(?ok (tupleOfIdentity x) \<and> identityOfTuple (tupleOfIdentity x) = x) = okIdentity x"
      by (simp add: okSeq_def tupleOfIdentity_def okIdentity_def i64Identity_def split_def conj_ac)
  qed
  ultimately show ?thesis by simp
qed

interpretation identityFields: byte_codec encIdentity dIdentity okIdentity
  by (rule identity_codec)

section \<open>The file table\<close>

definition okFile :: "File \<Rightarrow> bool" where
  "okFile f \<longleftrightarrow> i64File f \<and> int (length (FilePath f)) \<le> 4096 \<and> int (length (EvIdentity (FileEvidence f))) \<le> 256"

definition pathBytesOf :: "File list \<Rightarrow> int" where
  "pathBytesOf fs = sum_list (map (\<lambda>f. int (length (FilePath f))) fs)"

lemma pathBytesOf_simps [simp]:
  "pathBytesOf [] = 0" "pathBytesOf (f # fs) = int (length (FilePath f)) + pathBytesOf fs"
  by (simp_all add: pathBytesOf_def)

lemma pathBytesOf_nonneg: "0 \<le> pathBytesOf fs"
  by (induction fs) simp_all

lemma encFile_fields: "encFile f = encFileFields (f, if Present (FileEvidence f) then 1 else 0)"
  by (simp add: encFile_def encFileFields_def)

lemma dFiles_encoded:
  assumes "list_all okFile fs" "0 \<le> pb" "pb + pathBytesOf fs \<le> MaxPathBytes"
  shows "dFiles (length fs) pb \<lparr>d_data = concat (map encFile fs) @ rest, d_err = None\<rparr>
    = Inr (fs, \<lparr>d_data = rest, d_err = None\<rparr>)"
  using assms
proof (induction fs arbitrary: pb)
  case (Cons f fs)
  let ?p = "if Present (FileEvidence f) then 1 else 0 :: int"
  let ?limit = "min MaxPathLength (MaxPathBytes - pb)"
  have lim: "int (length (FilePath f)) \<le> ?limit" "0 \<le> ?limit" "?limit < 2 ^ 32"
    using Cons.prems pathBytesOf_nonneg [of fs] by (auto simp: okFile_def)
  then have "okFileFields ?limit (f, ?p)"
    using Cons.prems(1) by (auto simp: okFileFields_def okFile_def in_i64_def)
  from byte_codec.dec_enc [OF file_codec [OF lim(2,3)] this, of "concat (map encFile fs) @ rest"]
  have "dFile ?limit \<lparr>d_data = concat (map encFile (f # fs)) @ rest, d_err = None\<rparr>
      = ((f, ?p), \<lparr>d_data = concat (map encFile fs) @ rest, d_err = None\<rparr>)"
    by (simp add: encFile_fields)
  moreover have "dFiles (length fs) (pb + int (length (FilePath f))) \<lparr>d_data = concat (map encFile fs) @ rest, d_err = None\<rparr>
      = Inr (fs, \<lparr>d_data = rest, d_err = None\<rparr>)"
    using Cons by (intro Cons.IH) simp_all
  ultimately show ?case by simp
qed simp

lemma dFiles_decoded:
  assumes "dFiles n pb d = Inr (fs, d')" "d_err d = None" "0 \<le> pb" "pb \<le> MaxPathBytes"
  shows "length fs = n \<and> d = \<lparr>d_data = concat (map encFile fs) @ d_data d', d_err = None\<rparr>
    \<and> d_err d' = None \<and> list_all i64File fs"
  using assms
proof (induction n arbitrary: pb d fs)
  case 0
  then show ?case by (cases d) simp
next
  case (Suc n)
  let ?limit = "min MaxPathLength (MaxPathBytes - pb)"
  obtain f p m where m: "dFile ?limit d = ((f, p), m)" by (metis prod.exhaust)
  have lim: "0 \<le> ?limit" "?limit < 2 ^ 32" using Suc.prems(3,4) by auto
  obtain gs where err: "d_err m = None" and p: "p = 0 \<or> p = 1"
    and gs: "dFiles n (pb + int (length (FilePath f))) m = Inr (gs, d')" "fs = f # gs"
    using Suc.prems(1) m by (auto split: option.splits if_splits)
  note dec = byte_codec.enc_dec [OF file_codec [OF lim] m err]
  have enc: "encFileFields (f, p) = encFile f"
    using dec p by (auto simp: encFile_fields okFileFields_def)
  have "int (length (FilePath f)) \<le> ?limit" and i64: "i64File f" using dec by (auto simp: okFileFields_def)
  then have "length gs = n \<and> m = \<lparr>d_data = concat (map encFile gs) @ d_data d', d_err = None\<rparr>
      \<and> d_err d' = None \<and> list_all i64File gs"
    using Suc.prems(3) by (intro Suc.IH [OF gs(1) err]) auto
  moreover from this have "d_data m = concat (map encFile gs) @ d_data d'"
    by (metis decoder.select_convs(1))
  ultimately show ?case using dec gs(2) i64 unfolding enc by simp
qed

lemma checkFiles_budget:
  assumes "checkFiles u ext pb end keys fs = Inr ks" "pb \<le> MaxPathBytes"
  shows "pb + pathBytesOf fs \<le> MaxPathBytes
    \<and> (\<forall>f \<in> set fs. int (length (FilePath f)) \<le> 4096 \<and> int (length (EvIdentity (FileEvidence f))) \<le> 256)"
  using assms
proof (induction fs arbitrary: pb "end" keys)
  case (Cons f fs)
  let ?pb = "pb + int (length (FilePath f))"
  obtain x where c: "checkFile u ext ?pb end keys f = Inr x"
    and r: "checkFiles u ext ?pb (Offset f + FileLength f) (keys @ [CollisionKey u (FilePath f)]) fs = Inr ks"
    using Cons.prems(1) by (auto simp: Let_def)
  show ?case using Cons.IH [OF r] checkFile_Inr [OF c] by (auto simp: algebra_simps)
qed simp

lemma layout_version_range:
  "isOk (Layout_Validate u l) \<Longrightarrow> lay_version l = 1 \<or> lay_version l = 2"
  by (auto simp: Layout_Validate_def Supported_def LayoutVersion_def NamedLayoutVersion_def split: if_splits)

lemma decode_envelope:
  assumes "Checkpoint_Validate u (Some c) = Some (Inr x)"
    "int (length (envelope c)) \<le> MaxCheckpointBytes" "i64Checkpoint c"
  shows "Decode u (envelope c) = Some (Inr c)"
proof -
  note v = assms(1)
  note id = Identity_validate_Inr [OF Validate_Inr(1) [OF v]]
  note misc = Validate_Inr(5) [OF v]
  have bm: "int (length (Pieces c)) = bitmapBytes (PieceCount (CkIdentity c))"
    using Validate_Inr(3) [OF v] by (auto simp: validBitmap_def split: if_splits)
  have bud: "list_all okFile (Files c)" "0 + pathBytesOf (Files c) \<le> MaxPathBytes"
    using checkFiles_budget [OF Validate_Inr(2) [OF v]] assms(3)
    by (auto simp: okFile_def i64Checkpoint_def list_all_iff)
  have okid: "okIdentity (CkIdentity c, int (length (Files c)))"
    using id misc assms(3) by (auto simp: okIdentity_def i64Checkpoint_def in_i64_def)
  have lv: "0 \<le> LayoutVersionF (CkIdentity c) \<and> LayoutVersionF (CkIdentity c) \<le> 2"
    using layout_version_range [OF id(6)] by auto
  have ceq: "\<lparr>Schema = 1, CkIdentity = CkIdentity c, Generation = Generation c, CreatedAtMS = CreatedAtMS c,
      Files = Files c, Pieces = Pieces c\<rparr> = c" using misc by (cases c) simp
  have "0 < length (Files c)" using misc by simp
  moreover have "dTake (bitmapBytes (PieceCount (CkIdentity c))) \<lparr>d_data = Pieces c, d_err = None\<rparr>
      = (Some (Pieces c), \<lparr>d_data = [], d_err = None\<rparr>)" using dTake_append [of "Pieces c" _ "[]"] bm by simp
  ultimately show ?thesis
    unfolding Decode_def envelope_def
    using assms(2) [unfolded envelope_def] okid lv id(3,4) misc assms(3) v Validate_Inr(1) [OF v]
    by (simp add: dTake_append int64.dec_enc identityFields.dec_enc dFiles_encoded [OF bud(1) _ bud(2)]
        i64Checkpoint_def Let_def ceq)
qed

lemma length_fields [simp]: "length (encInteger n) = 8" "length (encText s) = 4 + length s"
  by (simp_all add: encInteger_def encText_def)

lemma exCheckpoint_ok:
  "Checkpoint_Validate asciiTables (Some exCheckpoint) = Some (Inr ())"
  "int (length (envelope exCheckpoint)) \<le> MaxCheckpointBytes" "i64Checkpoint exCheckpoint"
proof -
  show "Checkpoint_Validate asciiTables (Some exCheckpoint) = Some (Inr ())" "i64Checkpoint exCheckpoint"
    by code_simp+
  show "int (length (envelope exCheckpoint)) \<le> MaxCheckpointBytes"
    by (simp add: envelope_def encIdentity_def encFile_def exCheckpoint_def exIdentity_def exFile_def envelopeMagic_def)
qed

section \<open>Properties\<close>

text \<open>C1: Decoding undoes encoding. Every well-typed checkpoint that encodes at all is read back
  exactly: validation is repeated with the same verdict and no field is lost or truncated.\<close>

theorem decode_encode:
  assumes "Encode u (Some c) = Some (Inr data)" "i64Checkpoint c"
  shows "Decode u data = Some (Inr c)"
proof -
  obtain x where "Checkpoint_Validate u (Some c) = Some (Inr x)"
    and "data = envelope c" "int (length data) \<le> MaxCheckpointBytes"
    using assms(1) by (auto simp: Encode_def split: Option.bind_splits sum.splits if_splits)
  then show ?thesis using decode_envelope assms(2) by blast
qed

theorem decode_encode_witness:
  "Decode asciiTables (envelope exCheckpoint) = Some (Inr exCheckpoint)"
proof -
  have "Encode asciiTables (Some exCheckpoint) = Some (Inr (envelope exCheckpoint))"
    using exCheckpoint_ok by (simp add: Encode_def)
  then show ?thesis by (rule decode_encode) (rule exCheckpoint_ok)
qed

text \<open>C3: The format is canonical. Whatever bytes decode to a checkpoint are the bytes that
  checkpoint encodes to, so no two files describe the same checkpoint, and every decoded checkpoint
  is well typed.\<close>

theorem encode_decode:
  assumes "Decode u data = Some (Inr c)"
  shows "Encode u (Some c) = Some (Inr data) \<and> i64Checkpoint c"
proof -
  obtain magic d1 where d1: "dTake (int (length envelopeMagic)) \<lparr>d_data = data, d_err = None\<rparr> = (magic, d1)" by fastforce
  obtain schema d2 where d2: "dInteger d1 = (schema, d2)" by fastforce
  obtain gen d3 where d3: "dInteger d2 = (gen, d3)" by fastforce
  obtain created d4 where d4: "dInteger d3 = (created, d4)" by fastforce
  obtain i files d5 where d5: "dIdentity d4 = ((i, files), d5)" by (metis prod.exhaust)
  have e5: "d_err d5 = None" and files: "1 \<le> files" and sch: "schema = 1"
    and magic: "magic = Some (map byte_of_char envelopeMagic)"
    and size: "int (length data) \<le> MaxCheckpointBytes"
    using assms d1 d2 d3 d4 d5 by (auto simp: Decode_def split: if_splits option.splits)
  obtain fs d6 where d6: "dFiles (nat files) 0 d5 = Inr (fs, d6)"
    using assms d1 d2 d3 d4 d5 by (auto simp: Decode_def split: if_splits option.splits sum.splits prod.splits)
  obtain bits d7 where d7: "dTake (bitmapBytes (PieceCount i)) d6 = (bits, d7)" by fastforce
  obtain x where e7: "d_err d7 = None" "d_data d7 = []"
    and c: "c = \<lparr>Schema = 1, CkIdentity = i, Generation = gen, CreatedAtMS = created, Files = fs,
                 Pieces = (case bits of None \<Rightarrow> [] | Some b \<Rightarrow> b)\<rparr>"
    and v: "Checkpoint_Validate u (Some c) = Some (Inr x)"
    using assms d1 d2 d3 d4 d5 d6 d7
    by (auto simp: Decode_def Let_def split: if_splits option.splits sum.splits)
  note f6 = dFiles_decoded [OF d6 e5]
  note f7 = dTake_None_err [OF d7 e7(1)]
  note f5 = identityFields.enc_dec [OF d5 e5]
  have e4: "d_err d4 = None" using f5 by (metis decoder.select_convs(2))
  note f4 = int64.enc_dec [OF d4 e4]
  have e3: "d_err d3 = None" using f4 by (metis decoder.select_convs(2))
  note f3 = int64.enc_dec [OF d3 e3]
  have e2: "d_err d2 = None" using f3 by (metis decoder.select_convs(2))
  note f2 = int64.enc_dec [OF d2 e2]
  have e1: "d_err d1 = None" using f2 by (metis decoder.select_convs(2))
  note f1 = dTake_None_err [OF d1 e1]
  have "data = envelope c"
    using f1 f2 f3 f4 f5 f6 f7 e7(2) files sch magic by (auto simp: c envelope_def)
  moreover have "i64Checkpoint c"
    using f2 f3 f4 f5 f6 sch by (auto simp: c i64Checkpoint_def okIdentity_def)
  ultimately show ?thesis using v size by (simp add: Encode_def)
qed

theorem encode_decode_witness:
  "Encode asciiTables (Some exCheckpoint) = Some (Inr (envelope exCheckpoint)) \<and> i64Checkpoint exCheckpoint"
proof -
  have "Decode asciiTables (envelope exCheckpoint) = Some (Inr exCheckpoint)"
    by (rule decode_envelope [OF exCheckpoint_ok])
  then show ?thesis by (rule encode_decode)
qed

end
