(* ===== verification/SealWorker.thy ===== *)
theory SealWorker
  imports Prelude "HOL-Library.AList"
begin

text \<open>
  The worker that seals checkpoints (\<open>internal/fastresume/worker.go\<close>): a bounded queue of dirty
  owners that coalesces requests, and the single goroutine that seals them in batches. Producers
  mark owners at any moment, also while one is being sealed; the code of the goroutine is cut where
  it gives up the mutex.
\<close>

section \<open>State\<close>

definition MaxPendingOwners :: nat where "MaxPendingOwners = 64"
definition MaxOwnerLength :: nat where "MaxOwnerLength = 256"

text \<open>\<open>owners\<close> maps every pending owner, the executing one included, to its dirty flag. Of the running
  batch the model has the owner that is being sealed, how many more are due and whether it drains.
  \<open>selecting\<close> tells that the goroutine found the worker open and waits for a tick or the shutdown;
  \<open>err\<close> is what \<open>Wait\<close> reports: the owners the final batch failed to seal, and whether its context
  was cancelled. \<open>crashed\<close> tells that the goroutine took from an empty queue or met an owner without a request.\<close>

record batchRun =
  sealing :: "string option"
  due :: nat
  drain :: bool

record sealWorker =
  owners :: "(string \<times> bool) list"
  queue :: "string list"
  closing :: bool
  selecting :: bool
  running :: "batchRun option"
  failures :: "string list"
  err :: "(string list \<times> bool) option"
  stopped :: bool
  crashed :: bool

definition newSealWorker :: sealWorker where
  "newSealWorker = \<lparr>owners = [], queue = [], closing = False, selecting = False, running = None,
     failures = [], err = None, stopped = False, crashed = False\<rparr>"

section \<open>Producers\<close>

definition MarkDirty :: "string \<Rightarrow> sealWorker \<Rightarrow> bool \<times> sealWorker" where
  "MarkDirty owner w =
     (if closing w \<or> owner = [] \<or> length owner > MaxOwnerLength then (False, w)
      else case map_of (owners w) owner of
        Some _ \<Rightarrow> (True, w\<lparr>owners := AList.update owner True (owners w)\<rparr>)
      | None \<Rightarrow>
         if length (owners w) \<ge> MaxPendingOwners then (False, w)
         else (True, w\<lparr>owners := AList.update owner True (owners w), queue := queue w @ [owner]\<rparr>))"

definition Shutdown :: "sealWorker \<Rightarrow> sealWorker" where
  "Shutdown w = w\<lparr>closing := True\<rparr>"

section \<open>The goroutine\<close>

text \<open>\<open>batch\<close> begins with as many rounds as the queue has owners. The loop of \<open>run\<close> begins the draining
  batch when it finds the worker closing; otherwise it waits, and a tick that wins against a shutdown
  that came meanwhile begins an ordinary batch on a closing worker.\<close>

definition batchBegin :: "bool \<Rightarrow> sealWorker \<Rightarrow> sealWorker" where
  "batchBegin drains w =
     w\<lparr>selecting := False, running := Some \<lparr>sealing = None, due = length (queue w), drain = drains\<rparr>, failures := []\<rparr>"

definition runLoop :: "sealWorker \<Rightarrow> sealWorker option" where
  "runLoop w =
     (if running w = None \<and> \<not> stopped w \<and> \<not> selecting w
      then Some (if closing w then batchBegin True w else w\<lparr>selecting := True\<rparr>)
      else None)"

definition runTick :: "sealWorker \<Rightarrow> sealWorker option" where
  "runTick w = (if selecting w then Some (batchBegin False w) else None)"

definition runStopping :: "sealWorker \<Rightarrow> sealWorker option" where
  "runStopping w = (if selecting w \<and> closing w then Some (w\<lparr>selecting := False\<rparr>) else None)"

text \<open>One round takes the next owner and clears its flag. A cancelled context ends the batch, and so
  does a shutdown, unless the batch drains. The end of the draining batch ends the goroutine.\<close>

definition batchEnd :: "bool \<Rightarrow> batchRun \<Rightarrow> sealWorker \<Rightarrow> sealWorker" where
  "batchEnd ctxErr b w =
     (if drain b then w\<lparr>running := None, stopped := True, err := Some (failures w, ctxErr)\<rparr>
      else w\<lparr>running := None\<rparr>)"

text \<open>\<open>Wait\<close> returns once the goroutine has ended.\<close>

definition Wait :: "sealWorker \<Rightarrow> (string list \<times> bool) option" where
  "Wait w = (if stopped w then err w else None)"

definition batchTake :: "bool \<Rightarrow> sealWorker \<Rightarrow> sealWorker option" where
  "batchTake ctxErr w =
     (case running w of
        None \<Rightarrow> None
      | Some b \<Rightarrow>
         if sealing b \<noteq> None then None
         else if due b = 0 then Some (batchEnd ctxErr b w)
         else if ctxErr then Some (batchEnd ctxErr b w)
         else if \<not> drain b \<and> closing w then Some (batchEnd ctxErr b w)
         else
           (case queue w of
              [] \<Rightarrow> Some (w\<lparr>crashed := True\<rparr>)
            | owner # rest \<Rightarrow>
               if map_of (owners w) owner = None then Some (w\<lparr>crashed := True\<rparr>)
               else Some (w\<lparr>queue := rest, owners := AList.update owner False (owners w),
                           running := Some (b\<lparr>sealing := Some owner, due := due b - 1\<rparr>)\<rparr>)))"

text \<open>The seal returned: a failed or again dirty owner is queued again, a clean one is done.\<close>

definition batchSealed :: "bool \<Rightarrow> sealWorker \<Rightarrow> sealWorker option" where
  "batchSealed ok w =
     (case running w of
        None \<Rightarrow> None
      | Some b \<Rightarrow>
         (case sealing b of
            None \<Rightarrow> None
          | Some owner \<Rightarrow>
             (let w' = w\<lparr>running := Some (b\<lparr>sealing := None\<rparr>), failures := (if ok then failures w else failures w @ [owner])\<rparr>
              in if \<not> ok \<or> map_of (owners w) owner = Some True
                 then Some (w'\<lparr>queue := queue w @ [owner]\<rparr>)
                 else Some (w'\<lparr>owners := AList.delete owner (owners w)\<rparr>))))"

section \<open>Runs\<close>

text \<open>A run keeps book of what is owed: the owners with an accepted mark that no successful seal
  begun after it covers, and the owner whose marks the current seal covers.\<close>

record sealRun =
  worker :: sealWorker
  owed :: "string set"

inductive wstep :: "sealRun \<Rightarrow> sealRun \<Rightarrow> bool" where
  marked: "MarkDirty owner (worker s) = (ok, w)
     \<Longrightarrow> wstep s (s\<lparr>worker := w, owed := (if ok then insert owner (owed s) else owed s)\<rparr>)"
| shutdown: "wstep s (s\<lparr>worker := Shutdown (worker s)\<rparr>)"
| loops: "runLoop (worker s) = Some w \<Longrightarrow> wstep s (s\<lparr>worker := w\<rparr>)"
| ticks: "runTick (worker s) = Some w \<Longrightarrow> wstep s (s\<lparr>worker := w\<rparr>)"
| stopping: "runStopping (worker s) = Some w \<Longrightarrow> wstep s (s\<lparr>worker := w\<rparr>)"
| ends: "batchTake ctxErr (worker s) = Some w \<Longrightarrow> running w = None \<or> crashed w \<Longrightarrow> wstep s (s\<lparr>worker := w\<rparr>)"
| takes: "batchTake ctxErr (worker s) = Some w \<Longrightarrow> running w = Some b \<Longrightarrow> sealing b = Some owner
     \<Longrightarrow> wstep s (s\<lparr>worker := w, owed := owed s - {owner}\<rparr>)"
| sealed: "batchSealed True (worker s) = Some w \<Longrightarrow> wstep s (s\<lparr>worker := w\<rparr>)"
| failed: "running (worker s) = Some b \<Longrightarrow> sealing b = Some owner \<Longrightarrow> batchSealed False (worker s) = Some w
     \<Longrightarrow> wstep s (s\<lparr>worker := w, owed := insert owner (owed s)\<rparr>)"

inductive wreachable :: "sealRun \<Rightarrow> bool" where
  start: "wreachable \<lparr>worker = newSealWorker, owed = {}\<rparr>"
| step: "wreachable s \<Longrightarrow> wstep s s' \<Longrightarrow> wreachable s'"

section \<open>Invariant\<close>

definition current :: "sealWorker \<Rightarrow> string list" where
  "current w = (case running w of None \<Rightarrow> [] | Some b \<Rightarrow> (case sealing b of None \<Rightarrow> [] | Some o' \<Rightarrow> [o']))"

definition remaining :: "sealWorker \<Rightarrow> nat" where
  "remaining w = (case running w of None \<Rightarrow> 0 | Some b \<Rightarrow> due b)"

definition wInv :: "sealRun \<Rightarrow> bool" where
  "wInv s \<longleftrightarrow> (let w = worker s in
     distinct (current w @ queue w) \<and> distinct (map fst (owners w)) \<and> set (current w @ queue w) = fst ` set (owners w)
     \<and> remaining w \<le> length (queue w) \<and> (selecting w \<longrightarrow> running w = None \<and> \<not> stopped w) \<and> length (owners w) \<le> MaxPendingOwners \<and> \<not> crashed w
     \<and> (\<forall>o'\<in>owed s. o' \<in> set (queue w) \<or> o' \<in> set (current w) \<and> map_of (owners w) o' = Some True))"

lemma wInvD:
  assumes "wInv s"
  shows "distinct (current (worker s) @ queue (worker s))" "distinct (map fst (owners (worker s)))"
    "set (current (worker s) @ queue (worker s)) = fst ` set (owners (worker s))"
    "remaining (worker s) \<le> length (queue (worker s))" "selecting (worker s) \<Longrightarrow> running (worker s) = None \<and> \<not> stopped (worker s)" "length (owners (worker s)) \<le> MaxPendingOwners" "\<not> crashed (worker s)"
    "\<forall>o'\<in>owed s. o' \<in> set (queue (worker s)) \<or> o' \<in> set (current (worker s)) \<and> map_of (owners (worker s)) o' = Some True"
  using assms by (auto simp: wInv_def Let_def)

lemma length_update: "length (AList.update k v al) = (if k \<in> fst ` set al then length al else length al + 1)"
  by (induction al) auto

lemma update_fields [simp]:
  "map_of (AList.update k v al) = (map_of al)(k \<mapsto> v)" "fst ` set (AList.update k v al) = insert k (fst ` set al)"
  "map_of (AList.delete k al) = (map_of al)(k := None)"
  by (simp_all add: update_conv' dom_update delete_conv')

lemma delete_fst [simp]: "fst ` set (AList.delete k al) = fst ` set al - {k}"
  using arg_cong[OF delete_keys[of k al], of set] by simp

lemma current_fields [simp]:
  "current (w\<lparr>owners := al\<rparr>) = current w" "current (w\<lparr>queue := q\<rparr>) = current w"
  "current (w\<lparr>closing := c\<rparr>) = current w" "remaining (w\<lparr>closing := c\<rparr>) = remaining w"
  "remaining (w\<lparr>owners := al\<rparr>) = remaining w" "remaining (w\<lparr>queue := q\<rparr>) = remaining w"
  by (simp_all add: current_def remaining_def)

lemma wInv_mark:
  assumes inv: "wInv s" and m: "MarkDirty owner (worker s) = (ok, w)"
  shows "wInv (s\<lparr>worker := w, owed := (if ok then insert owner (owed s) else owed s)\<rparr>)"
proof (cases ok)
  case False
  then have "w = worker s" using m by (auto simp: MarkDirty_def split: if_splits option.splits)
  then show ?thesis using inv False by simp
next
  case True
  note d = wInvD[OF inv]
  show ?thesis
  proof (cases "map_of (owners (worker s)) owner")
    case None
    then have w: "w = (worker s)\<lparr>owners := AList.update owner True (owners (worker s)), queue := queue (worker s) @ [owner]\<rparr>"
      and c: "length (owners (worker s)) < MaxPendingOwners"
      using m True by (auto simp: MarkDirty_def split: if_splits)
    have n: "owner \<notin> fst ` set (owners (worker s))" using None by (simp add: map_of_eq_None_iff)
    show ?thesis
      using d n c True unfolding wInv_def Let_def by (auto simp: w length_update distinct_update)
  next
    case (Some b)
    then have w: "w = (worker s)\<lparr>owners := AList.update owner True (owners (worker s))\<rparr>"
      using m True by (auto simp: MarkDirty_def split: if_splits)
    have n: "owner \<in> fst ` set (owners (worker s))" using map_of_SomeD[OF Some] by force
    show ?thesis
      using d n True unfolding wInv_def Let_def by (auto simp: w length_update distinct_update)
  qed
qed

lemma wInv_begin: "wInv s \<Longrightarrow> running (worker s) = None \<Longrightarrow> wInv (s\<lparr>worker := batchBegin d (worker s)\<rparr>)"
  unfolding wInv_def Let_def by (auto simp: batchBegin_def current_def remaining_def)

lemma wInv_select: "wInv s \<Longrightarrow> running (worker s) = None \<Longrightarrow> \<not> stopped (worker s) \<Longrightarrow> wInv (s\<lparr>worker := (worker s)\<lparr>selecting := c\<rparr>\<rparr>)"
  unfolding wInv_def Let_def by (auto simp: current_def remaining_def)

lemma wInv_run:
  assumes inv: "wInv s" and r: "runLoop (worker s) = Some w \<or> runTick (worker s) = Some w \<or> runStopping (worker s) = Some w"
  shows "wInv (s\<lparr>worker := w\<rparr>)"
proof -
  have "running (worker s) = None" "\<not> stopped (worker s)"
    using r wInvD(5)[OF inv] by (auto simp: runLoop_def runTick_def runStopping_def split: if_splits)
  with r inv show ?thesis
    by (auto simp: runLoop_def runTick_def runStopping_def intro: wInv_begin wInv_select split: if_splits)
qed

text \<open>A round finds its owner: the rounds due never exceed the queue.\<close>

lemma batchTake_cases:
  assumes inv: "wInv s" and t: "batchTake ctxErr (worker s) = Some w"
  obtains b where "running (worker s) = Some b" "sealing b = None" "\<not> ctxErr \<Longrightarrow> drain b \<Longrightarrow> due b = 0" "w = batchEnd ctxErr b (worker s)"
  | b owner rest where "running (worker s) = Some b" "sealing b = None" "queue (worker s) = owner # rest" "0 < due b"
      "w = (worker s)\<lparr>queue := rest, owners := AList.update owner False (owners (worker s)),
             running := Some (b\<lparr>sealing := Some owner, due := due b - 1\<rparr>)\<rparr>"
proof -
  note d = wInvD[OF inv]
  obtain b where b: "running (worker s) = Some b" "sealing b = None"
    using t by (auto simp: batchTake_def split: option.splits if_splits)
  have more: "w = (worker s)\<lparr>queue := rest, owners := AList.update owner False (owners (worker s)),
      running := Some (b\<lparr>sealing := Some owner, due := due b - 1\<rparr>)\<rparr>"
    if "w \<noteq> batchEnd ctxErr b (worker s)" "queue (worker s) = owner # rest" for owner rest
  proof -
    have "owner \<in> fst ` set (owners (worker s))" using d(3) that(2) by auto
    then have "map_of (owners (worker s)) owner \<noteq> None" by (simp add: map_of_eq_None_iff)
    then show ?thesis using t b that by (auto simp: batchTake_def split: if_splits)
  qed
  have due: "0 < due b" if "w \<noteq> batchEnd ctxErr b (worker s)" using t b that by (auto simp: batchTake_def split: if_splits)
  then have "queue (worker s) \<noteq> []" if "w \<noteq> batchEnd ctxErr b (worker s)" using d(4) b that by (auto simp: remaining_def)
  moreover have "due b = 0" if "w = batchEnd ctxErr b (worker s)" "\<not> ctxErr" "drain b"
  proof -
    have "running w = None" using that by (simp add: batchEnd_def)
    then show ?thesis using t b that(2,3) by (auto simp: batchTake_def split: if_splits list.splits)
  qed
  ultimately show ?thesis using that b more due by (metis neq_Nil_conv)
qed

lemma wInv_take:
  assumes inv: "wInv s" and t: "batchTake ctxErr (worker s) = Some w"
  shows "running w = None \<or> crashed w \<Longrightarrow> wInv (s\<lparr>worker := w\<rparr>)"
    "running w = Some b \<Longrightarrow> sealing b = Some owner \<Longrightarrow> wInv (s\<lparr>worker := w, owed := owed s - {owner}\<rparr>)"
proof -
  note d = wInvD[OF inv]
  show "wInv (s\<lparr>worker := w\<rparr>)" if "running w = None \<or> crashed w"
    using batchTake_cases[OF inv t]
  proof cases
    case (1 b)
    then show ?thesis using d unfolding wInv_def Let_def by (auto simp: batchEnd_def current_def remaining_def)
  next
    case (2 b owner rest)
    then show ?thesis using that d(7) by simp
  qed
  show "wInv (s\<lparr>worker := w, owed := owed s - {owner}\<rparr>)" if "running w = Some b" "sealing b = Some owner"
    using batchTake_cases[OF inv t]
  proof cases
    case (1 b')
    then show ?thesis using that by (auto simp: batchEnd_def split: if_splits)
  next
    case (2 b' owner' rest)
    then have o: "owner' = owner" "current (worker s) = []" using that by (auto simp: current_def)
    have "owner \<in> fst ` set (owners (worker s))" using d(3) 2 o by auto
    then show ?thesis
      using d 2 o unfolding wInv_def Let_def
      by (auto simp: current_def[of w] remaining_def current_def length_update distinct_update)
  qed
qed

lemma wInv_sealed:
  assumes inv: "wInv s" and b: "running (worker s) = Some b" "sealing b = Some owner"
    and w: "batchSealed ok (worker s) = Some w"
  shows "wInv (s\<lparr>worker := w, owed := (if ok then owed s else insert owner (owed s))\<rparr>)"
proof -
  note d = wInvD[OF inv]
  have cur: "current (worker s) = [owner]" "remaining (worker s) = due b" using b by (simp_all add: current_def remaining_def)
  have out: "owner \<notin> set (queue (worker s))" using d(1) cur by simp
  show ?thesis
  proof (cases "\<not> ok \<or> map_of (owners (worker s)) owner = Some True")
    case True
    then have "queue w = queue (worker s) @ [owner]" "owners w = owners (worker s)" "running w = Some (b\<lparr>sealing := None\<rparr>)"
        "crashed w = crashed (worker s)" "\<not> selecting w"
      using w b d(5) by (auto simp: batchSealed_def Let_def)
    moreover from this(3) have "current w = []" "remaining w = due b" by (simp_all add: current_def remaining_def)
    ultimately show ?thesis using d cur out unfolding wInv_def Let_def by auto
  next
    case False
    then have "queue w = queue (worker s)" "owners w = AList.delete owner (owners (worker s))" "running w = Some (b\<lparr>sealing := None\<rparr>)"
        "crashed w = crashed (worker s)" "ok" "\<not> selecting w"
      using w b d(5) by (auto simp: batchSealed_def Let_def)
    moreover have "length (AList.delete owner (owners (worker s))) \<le> length (owners (worker s))"
      by (simp add: AList.delete_eq)
    moreover have "owner \<notin> owed s" using False d(8) out by auto
    moreover from calculation(3) have "current w = []" "remaining w = due b" by (simp_all add: current_def remaining_def)
    ultimately show ?thesis
      using d cur out unfolding wInv_def Let_def by (auto simp: distinct_delete)
  qed
qed

lemma wInv_step: "wstep s s' \<Longrightarrow> wInv s \<Longrightarrow> wInv s'"
proof (induction rule: wstep.induct)
  case (shutdown s)
  then show ?case by (auto simp: wInv_def Let_def Shutdown_def)
next
  case (sealed s w)
  then obtain b owner where "running (worker s) = Some b" "sealing b = Some owner"
    by (auto simp: batchSealed_def split: option.splits)
  from wInv_sealed[OF sealed(2) this sealed(1)] show ?case by simp
next
  case (failed s b owner w)
  from wInv_sealed[OF failed(4,1,2,3)] show ?case by simp
next
  case (marked owner s ok w)
  from wInv_mark[OF marked(2,1)] show ?case .
qed (auto intro: wInv_run wInv_take)

lemma wInv_reachable: "wreachable s \<Longrightarrow> wInv s"
proof (induction rule: wreachable.induct)
  case start
  show ?case by (simp add: wInv_def Let_def newSealWorker_def current_def remaining_def MaxPendingOwners_def)
qed (rule wInv_step)

text \<open>While the draining batch runs, the queue is what it still has to take followed by what it failed
  to seal: admission is closed, so no owner is marked again.\<close>

definition sealDrainInv :: "sealWorker \<Rightarrow> bool" where
  "sealDrainInv w \<longleftrightarrow>
     (case running w of
        None \<Rightarrow> True
      | Some b \<Rightarrow> drain b \<longrightarrow> closing w \<and> drop (due b) (queue w) = failures w
          \<and> (\<forall>o'. sealing b = Some o' \<longrightarrow> map_of (owners w) o' = Some False))
     \<and> (stopped w \<longrightarrow> closing w \<and> running w = None \<and> (\<exists>f c. err w = Some (f, c) \<and> (\<not> c \<longrightarrow> queue w = f)))"

lemma sealDrainInv_closed: "sealDrainInv w \<Longrightarrow> sealDrainInv (w\<lparr>closing := True\<rparr>)"
  by (auto simp: sealDrainInv_def split: option.splits)

lemma sealDrainInv_open: "\<not> closing w \<Longrightarrow> sealDrainInv w \<longleftrightarrow> \<not> stopped w \<and> (\<forall>b. running w = Some b \<longrightarrow> \<not> drain b)"
  by (auto simp: sealDrainInv_def split: option.splits)

lemma sealDrainInv_mark:
  assumes "MarkDirty owner w = (ok, w')" "sealDrainInv w"
  shows "sealDrainInv w'"
proof (cases "w' = w")
  case False
  then have "\<not> closing w" "closing w' = closing w" "running w' = running w" "stopped w' = stopped w"
    using assms(1) by (auto simp: MarkDirty_def split: if_splits option.splits)
  then show ?thesis using assms(2) by (simp add: sealDrainInv_open)
qed (use assms in simp)

lemma sealDrainInv_run:
  assumes "runLoop w = Some w' \<or> runTick w = Some w' \<or> runStopping w = Some w'" "sealDrainInv w" "selecting w \<Longrightarrow> running w = None \<and> \<not> stopped w"
  shows "sealDrainInv w'"
  using assms by (auto simp: runLoop_def runTick_def runStopping_def sealDrainInv_def batchBegin_def split: if_splits)

lemma sealDrainInv_take:
  assumes inv: "wInv s" and t: "batchTake ctxErr (worker s) = Some w" and d: "sealDrainInv (worker s)"
  shows "sealDrainInv w"
  using batchTake_cases[OF inv t]
proof cases
  case (1 b)
  then show ?thesis using d by (cases ctxErr) (auto simp: sealDrainInv_def batchEnd_def)
next
  case (2 b owner rest)
  then show ?thesis using d by (cases "due b") (auto simp: sealDrainInv_def)
qed

lemma sealDrainInv_sealed:
  assumes inv: "wInv s" and w: "batchSealed ok (worker s) = Some w" and d: "sealDrainInv (worker s)"
  shows "sealDrainInv w"
proof -
  obtain b owner where b: "running (worker s) = Some b" "sealing b = Some owner"
    using w by (auto simp: batchSealed_def split: option.splits)
  have "due b \<le> length (queue (worker s))" using wInvD(4)[OF inv] b by (simp add: remaining_def)
  then show ?thesis using w d b by (auto simp: sealDrainInv_def batchSealed_def Let_def split: if_splits)
qed

lemma sealDrainInv_step: "wstep s s' \<Longrightarrow> wInv s \<Longrightarrow> sealDrainInv (worker s) \<Longrightarrow> sealDrainInv (worker s')"
proof (induction rule: wstep.induct)
  case (marked owner s ok w)
  then show ?case by (simp add: sealDrainInv_mark)
next
  case (shutdown s)
  then show ?case by (simp add: Shutdown_def sealDrainInv_closed)
next
  case (loops s w)
  then show ?case using sealDrainInv_run[of "worker s" w] wInvD(5)[of s] by simp
next
  case (ticks s w)
  then show ?case using sealDrainInv_run[of "worker s" w] wInvD(5)[of s] by simp
next
  case (stopping s w)
  then show ?case using sealDrainInv_run[of "worker s" w] wInvD(5)[of s] by simp
qed (simp_all add: sealDrainInv_take sealDrainInv_sealed)

lemma sealDrainInv_reachable: "wreachable s \<Longrightarrow> sealDrainInv (worker s)"
proof (induction rule: wreachable.induct)
  case start
  show ?case by (simp add: sealDrainInv_def newSealWorker_def)
qed (auto intro: sealDrainInv_step wInv_reachable)

section \<open>Properties\<close>

text \<open>C26: no accepted mark is lost. An owner whose last accepted mark is not covered by a successful
  seal that began after it is queued, or is being sealed with its request marked again; the queue has
  no owner twice, at most 64 owners are pending, and the goroutine never takes from an empty queue.\<close>

theorem accepted_marks_are_kept:
  assumes "wreachable s"
  shows "(\<forall>o'\<in>owed s. o' \<in> set (queue (worker s)) \<or> o' \<in> set (current (worker s)) \<and> map_of (owners (worker s)) o' = Some True)
    \<and> distinct (current (worker s) @ queue (worker s)) \<and> length (owners (worker s)) \<le> 64 \<and> \<not> crashed (worker s)"
  using wInvD[OF wInv_reachable[OF assms]] by (simp add: MaxPendingOwners_def)

text \<open>C36: a shutdown reports what it leaves. Once the goroutine has ended without its context being
  cancelled, \<open>Wait\<close> lists exactly the owners that are still queued, none of them twice, every other
  owner was sealed after its last accepted mark, and no owner is being sealed; an empty list means
  that nothing is pending.\<close>

theorem shutdown_reports_unsealed:
  assumes "wreachable s" and "Wait (worker s) = Some (f, False)"
  shows "queue (worker s) = f \<and> distinct f \<and> owed s \<subseteq> set f \<and> fst ` set (owners (worker s)) = set f \<and> running (worker s) = None"
proof -
  note d = wInvD[OF wInv_reachable[OF assms(1)]]
  have "queue (worker s) = f" "running (worker s) = None"
    using sealDrainInv_reachable[OF assms(1)] assms(2) by (auto simp: sealDrainInv_def Wait_def split: if_splits)
  moreover from this(2) have "current (worker s) = []" by (simp add: current_def)
  ultimately show ?thesis using d(1,3,8) by auto
qed

section \<open>A concrete run\<close>

text \<open>An owner is marked, taken, and marked again while it is being sealed.\<close>

definition exMarked :: sealRun where
  "exMarked = \<lparr>worker = snd (MarkDirty ''a'' newSealWorker), owed = {''a''}\<rparr>"

definition exTaken :: sealRun where
  "exTaken = \<lparr>worker = the (batchTake False (the (runTick (the (runLoop (worker exMarked)))))), owed = {}\<rparr>"

definition exRemarked :: sealRun where
  "exRemarked = \<lparr>worker = snd (MarkDirty ''a'' (worker exTaken)), owed = {''a''}\<rparr>"

text \<open>A marked owner the draining batch of a shutdown fails to seal.\<close>

definition exDraining :: sealRun where
  "exDraining = \<lparr>worker = the (batchTake False (the (runLoop (Shutdown (worker exMarked))))), owed = {}\<rparr>"

definition exStopped :: sealRun where
  "exStopped = \<lparr>worker = the (batchTake False (the (batchSealed False (worker exDraining)))), owed = {''a''}\<rparr>"

lemmas seal_defs = exMarked_def exTaken_def exRemarked_def exDraining_def exStopped_def newSealWorker_def MarkDirty_def
  Shutdown_def batchBegin_def runLoop_def runTick_def batchTake_def batchSealed_def batchEnd_def MaxPendingOwners_def MaxOwnerLength_def

lemma wreachable_exMarked: "wreachable exMarked"
  using wreachable.step[OF wreachable.start wstep.marked[of "''a''" _ True "worker exMarked"]] by (simp add: seal_defs)

lemma wreachable_exRemarked: "wreachable exRemarked"
proof -
  have "wreachable (exMarked\<lparr>worker := the (runLoop (worker exMarked))\<rparr>)"
    by (rule wreachable.step[OF wreachable_exMarked wstep.loops]) (simp add: seal_defs)
  then have "wreachable (exMarked\<lparr>worker := the (runTick (the (runLoop (worker exMarked))))\<rparr>)"
    by (rule wreachable.step) (use wstep.ticks[of "exMarked\<lparr>worker := the (runLoop (worker exMarked))\<rparr>"
        "the (runTick (the (runLoop (worker exMarked))))"] in \<open>simp add: seal_defs\<close>)
  then have "wreachable exTaken"
    by (rule wreachable.step) (use wstep.takes[of False "exMarked\<lparr>worker := the (runTick (the (runLoop (worker exMarked))))\<rparr>" "worker exTaken"
        "\<lparr>sealing = Some ''a'', due = 0, drain = False\<rparr>" "''a''"] in \<open>simp add: seal_defs\<close>)
  then show ?thesis
    by (rule wreachable.step) (use wstep.marked[of "''a''" exTaken True "worker exRemarked"] in \<open>simp add: seal_defs\<close>)
qed

lemma wreachable_exStopped: "wreachable exStopped"
proof -
  let ?w = "the (runLoop (Shutdown (worker exMarked)))"
  have "wreachable (exMarked\<lparr>worker := Shutdown (worker exMarked)\<rparr>)"
    by (rule wreachable.step[OF wreachable_exMarked wstep.shutdown])
  then have "wreachable (exMarked\<lparr>worker := ?w\<rparr>)"
    by (rule wreachable.step) (use wstep.loops[of "exMarked\<lparr>worker := Shutdown (worker exMarked)\<rparr>" ?w] in \<open>simp add: seal_defs\<close>)
  then have "wreachable exDraining"
    by (rule wreachable.step) (use wstep.takes[of False "exMarked\<lparr>worker := ?w\<rparr>" "worker exDraining"
        "\<lparr>sealing = Some ''a'', due = 0, drain = True\<rparr>" "''a''"] in \<open>simp add: seal_defs\<close>)
  then have "wreachable (exDraining\<lparr>worker := the (batchSealed False (worker exDraining)), owed := {''a''}\<rparr>)"
    by (rule wreachable.step) (use wstep.failed[of exDraining "\<lparr>sealing = Some ''a'', due = 0, drain = True\<rparr>" "''a''"
        "the (batchSealed False (worker exDraining))"] in \<open>simp add: seal_defs\<close>)
  then show ?thesis
    by (rule wreachable.step) (use wstep.ends[of False "exDraining\<lparr>worker := the (batchSealed False (worker exDraining)), owed := {''a''}\<rparr>"
        "worker exStopped"] in \<open>simp add: seal_defs\<close>)
qed

theorem shutdown_reports_unsealed_witness:
  "Wait (worker exStopped) = Some ([''a''], False) \<and> ''a'' \<in> owed exStopped \<and> queue (worker exStopped) = [''a'']"
proof -
  have "Wait (worker exStopped) = Some ([''a''], False)" "''a'' \<in> owed exStopped" by (simp_all add: seal_defs Wait_def)
  with shutdown_reports_unsealed[OF wreachable_exStopped] show ?thesis by blast
qed

theorem accepted_marks_are_kept_witness:
  "''a'' \<in> owed exRemarked \<and> ''a'' \<in> set (current (worker exRemarked)) \<and> map_of (owners (worker exRemarked)) ''a'' = Some True"
proof -
  have "''a'' \<in> owed exRemarked" "queue (worker exRemarked) = []" by (simp_all add: seal_defs)
  with accepted_marks_are_kept[OF wreachable_exRemarked] show ?thesis by auto
qed

end
