(* ===== verification/GoAbs.thy ===== *)
theory GoAbs
  imports Payload
begin

text \<open>
  Absolute paths: \<open>filepath.Abs\<close>, the shape of every cleaned path, the parent walk
  \<open>p, Dir p, Dir (Dir p), ...\<close>, and the overlap test on absolute paths. A cleaned path is \<open>/\<close>
  or \<open>.\<close> or its components joined; the components are proper, after leading \<open>..\<close> in a relative
  path. The parent walk therefore removes one component at a time and always comes to a path that is
  its own parent.
\<close>

section \<open>\<open>filepath.Abs\<close>\<close>

text \<open>\<open>wd\<close> is what \<open>os.Getwd\<close> returns.\<close>

definition Abs :: "(string, string) result \<Rightarrow> string \<Rightarrow> (string, string) result" where
  "Abs wd p = (if IsAbs p then Inr (Clean p) else andThen wd (\<lambda>d. Inr (Join [d, p])))"

section \<open>The shape of cleaned paths\<close>

definition cleanList :: "bool \<Rightarrow> string list \<Rightarrow> bool" where
  "cleanList rooted cs \<longleftrightarrow> (\<exists>k ps. cs = replicate k dotdot @ ps \<and> list_all properComp ps \<and> (rooted \<longrightarrow> k = 0))"

definition fullPath :: "bool \<Rightarrow> string list \<Rightarrow> string" where
  "fullPath rooted cs = (if rooted then sep # joinWith sep cs else if cs = [] then dot else joinWith sep cs)"

lemma Clean_full: "Clean p = fullPath (IsAbs p) (cleanComps p)"
  by (simp add: Clean_def fullPath_def)

lemma proper_step:
  "list_all properComp st \<Longrightarrow> sep \<notin> set c \<Longrightarrow> list_all properComp (cleanStep True c st)"
  by (cases st) (auto simp: properComp_def)

lemma proper_fold:
  "list_all properComp st \<Longrightarrow> \<forall>c\<in>set cs. sep \<notin> set c \<Longrightarrow> list_all properComp (fold (cleanStep True) cs st)"
  by (induction cs arbitrary: st) (auto intro: proper_step simp del: cleanStep.simps)

lemma cleanList_comps: "cleanList (IsAbs p) (cleanComps p)"
proof (cases "IsAbs p")
  case True
  have "list_all properComp (fold (cleanStep True) (splitOn sep p) [])"
    using proper_fold[of "[]" "splitOn sep p"] splitOn_no_sep[of _ sep p] by auto
  then show ?thesis
    using True unfolding cleanList_def cleanComps_def by (intro exI[of _ 0] exI) (auto simp: list_all_iff)
next
  case False
  then show ?thesis using cleanComps_relative[OF False] by (simp add: cleanList_def)
qed

lemma cleanList_butlast: "cleanList r (cs @ [c]) \<Longrightarrow> cleanList r cs"
proof -
  assume "cleanList r (cs @ [c])"
  then obtain k ps where k: "cs @ [c] = replicate k dotdot @ ps" "list_all properComp ps" "r \<longrightarrow> k = 0"
    by (auto simp: cleanList_def)
  show ?thesis
  proof (cases ps rule: rev_cases)
    case Nil
    then obtain j where j: "k = Suc j" using k(1) by (cases k) auto
    have "replicate (Suc j) dotdot = replicate j dotdot @ [dotdot]" using replicate_append_same[of j dotdot] by simp
    then have "cs = replicate j dotdot @ []" using k(1) Nil unfolding j by simp
    then show ?thesis using k(3) j unfolding cleanList_def by (intro exI[of _ j] exI[of _ "[]"]) simp
  next
    case (snoc qs q)
    then show ?thesis using k unfolding cleanList_def by (intro exI[of _ k] exI[of _ qs]) auto
  qed
qed

lemma cleanList_no_sep: "cleanList r cs \<Longrightarrow> list_all (\<lambda>c. sep \<notin> set c \<and> c \<noteq> []) cs"
proof -
  assume "cleanList r cs"
  then obtain k ps where "cs = replicate k dotdot @ ps" "list_all properComp ps" by (auto simp: cleanList_def)
  then show ?thesis by (cases "k = 0") (auto simp: list_all_iff properComp_def set_replicate_conv_if)
qed

lemma fold_replicate_dotdot: "fold (cleanStep False) (replicate k dotdot) (replicate j dotdot) = replicate (k + j) dotdot"
proof (induction k arbitrary: j)
  case (Suc k)
  have "cleanStep False dotdot (replicate j dotdot) = replicate (Suc j) dotdot" by (cases j) simp_all
  then show ?case using Suc[of "Suc j"] by (simp del: cleanStep.simps)
qed simp

lemma fold_cleanList: "cleanList r cs \<Longrightarrow> fold (cleanStep r) cs [] = rev cs"
proof -
  assume "cleanList r cs"
  then obtain k ps where k: "cs = replicate k dotdot @ ps" "list_all properComp ps" "r \<longrightarrow> k = 0"
    by (auto simp: cleanList_def)
  have "fold (cleanStep r) (replicate k dotdot) [] = replicate k dotdot"
    using k(3) fold_replicate_dotdot[of k 0] by (cases r) simp_all
  then show ?thesis using k by (simp add: fold_clean_proper)
qed

lemma join_cleanList_head:
  assumes "cleanList r cs" "cs \<noteq> []"
  shows "joinWith sep cs \<noteq> []" "hd (joinWith sep cs) \<noteq> sep" "splitOn sep (joinWith sep cs) = cs"
proof -
  note n = cleanList_no_sep[OF assms(1)]
  obtain c cs' where cs: "cs = c # cs'" using assms(2) by (cases cs) auto
  have c: "c \<noteq> []" "sep \<notin> set c" using n cs by auto
  then have h: "hd c \<noteq> sep" by (cases c) auto
  show "joinWith sep cs \<noteq> []" "hd (joinWith sep cs) \<noteq> sep"
    using cs c h by (cases cs'; simp)+
  show "splitOn sep (joinWith sep cs) = cs"
    by (rule splitOn_joinWith[OF assms(2)]) (use n in \<open>auto simp: list_all_iff\<close>)
qed

section \<open>The parent walk\<close>

lemma Clean_pre:
  assumes "cleanList r cs"
  shows "Clean (if r then sep # (if cs = [] then [] else joinWith sep cs @ [sep])
                else if cs = [] then [] else joinWith sep cs @ [sep]) = fullPath r cs" (is "Clean ?p = _")
proof -
  have abs: "IsAbs ?p = r"
  proof (cases "cs = []")
    case False
    then show ?thesis using join_cleanList_head(1,2)[OF assms False]
      by (cases "joinWith sep cs") (simp_all add: IsAbs_def)
  qed (simp add: IsAbs_def)
  have split: "splitOn sep (joinWith sep cs @ [sep]) = cs @ [[]]" if "cs \<noteq> []"
    using join_cleanList_head(3)[OF assms that] splitOn_append[of sep "joinWith sep cs" "[]"] by simp
  have "fold (cleanStep r) (splitOn sep ?p) [] = rev cs"
    using fold_cleanList[OF assms] split by (cases r; cases "cs = []"; simp)
  then show ?thesis unfolding Clean_full abs by (simp add: cleanComps_def abs)
qed

lemma Dir_split: "sep \<notin> set c \<Longrightarrow> Dir (p @ sep # c) = Clean (p @ [sep])" "sep \<notin> set c \<Longrightarrow> Dir c = Clean []"
proof -
  assume c: "sep \<notin> set c"
  then have d: "dropWhile (\<lambda>x. x \<noteq> sep) (rev c @ zs) = dropWhile (\<lambda>x. x \<noteq> sep) zs" for zs
    by (subst dropWhile_append2) auto
  show "Dir (p @ sep # c) = Clean (p @ [sep])" by (simp add: Dir_def d)
  show "Dir c = Clean []" using d[of "[]"] by (simp add: Dir_def del: dropWhile_eq_Nil_conv)
qed

lemma Dir_fullPath:
  assumes "cleanList r (cs @ [c])"
  shows "Dir (fullPath r (cs @ [c])) = fullPath r cs"
proof -
  have c: "sep \<notin> set c" using cleanList_no_sep[OF assms] by simp
  note pre = Clean_pre[OF cleanList_butlast[OF assms]]
  have one: "sep # c = [] @ sep # c" by simp
  show ?thesis
  proof (cases "cs = []")
    case True
    then show ?thesis using pre c Dir_split(1)[OF c, of "[]"] Dir_split(2)[OF c] by (cases r) (simp_all add: fullPath_def)
  next
    case False
    then have "joinWith sep (cs @ [c]) = joinWith sep cs @ sep # c" by (simp add: joinWith_append)
    then show ?thesis
      using pre False Dir_split(1)[OF c, of "joinWith sep cs"] Dir_split(1)[OF c, of "sep # joinWith sep cs"]
      by (cases r) (simp_all add: fullPath_def)
  qed
qed

lemma Dir_top: "Dir (fullPath r []) = fullPath r []"
  using Dir_split(1)[of "[]" "[]"] Dir_split(2)[of dot] Clean_pre[of r "[]"]
  by (cases r) (simp_all add: fullPath_def cleanList_def)

text \<open>Induction along the parent walk: what holds of the paths that are their own parents and goes
  from a parent to its children holds of every path.\<close>

lemma parent_induct_full:
  assumes top: "\<And>p. Dir p = p \<Longrightarrow> P p" and up: "\<And>p. P (Dir p) \<Longrightarrow> P p"
  shows "cleanList r cs \<Longrightarrow> P (fullPath r cs)"
proof (induction cs rule: rev_induct)
  case Nil
  show ?case by (rule top[OF Dir_top])
next
  case (snoc c cs)
  show ?case by (rule up) (use snoc in \<open>simp add: Dir_fullPath cleanList_butlast\<close>)
qed

lemma parent_induct [case_names top up]:
  assumes top: "\<And>p. Dir p = p \<Longrightarrow> P p" and up: "\<And>p. P (Dir p) \<Longrightarrow> P p"
  shows "P p"
proof (rule up)
  have "Dir p = fullPath (IsAbs q) (cleanComps q)" if "q = rev (dropWhile (\<lambda>c. c \<noteq> sep) (rev p))" for q
    using that by (simp add: Dir_def Clean_full)
  then show "P (Dir p)" using parent_induct_full[OF top up cleanList_comps] by simp
qed

section \<open>Absolute paths\<close>

lemma IsAbs_full: "cleanList r cs \<Longrightarrow> IsAbs (fullPath r cs) = r"
  using join_cleanList_head(1,2)[of r cs] by (cases "joinWith sep cs") (auto simp: fullPath_def IsAbs_def)

lemma cleanList_proper: "cleanList True cs \<longleftrightarrow> list_all properComp cs"
  by (auto simp: cleanList_def)

lemma proper_cleanList: "list_all properComp cs \<Longrightarrow> cleanList r cs"
  unfolding cleanList_def by (intro exI[of _ 0] exI[of _ cs]) simp

lemma Clean_fullPath: "cleanList r cs \<Longrightarrow> Clean (fullPath r cs) = fullPath r cs"
proof -
  assume cl: "cleanList r cs"
  have "fold (cleanStep r) (splitOn sep (fullPath r cs)) [] = rev cs"
  proof (cases "cs = []")
    case False
    then show ?thesis using join_cleanList_head(3)[OF cl False] fold_cleanList[OF cl] by (cases r) (simp_all add: fullPath_def)
  qed (simp add: fullPath_def)
  then show ?thesis unfolding Clean_full by (simp add: IsAbs_full[OF cl] cleanComps_def)
qed

text \<open>Components appended to a path are cleaned on top of its own.\<close>

lemma cleanComps_under:
  assumes "r \<noteq> []" "cleanList q cs" "cs \<noteq> []"
  shows "IsAbs (r @ sep # joinWith sep cs) = IsAbs r"
    "cleanComps (r @ sep # joinWith sep cs) = rev (fold (cleanStep (IsAbs r)) cs (rev (cleanComps r)))"
proof -
  show abs: "IsAbs (r @ sep # joinWith sep cs) = IsAbs r" using assms(1) by (cases r) (simp_all add: IsAbs_def)
  show "cleanComps (r @ sep # joinWith sep cs) = rev (fold (cleanStep (IsAbs r)) cs (rev (cleanComps r)))"
    using join_cleanList_head(3)[OF assms(2,3)] unfolding cleanComps_def abs by (simp add: splitOn_append)
qed

lemma Join_under:
  assumes "r \<noteq> []" "properComps cs"
  shows "Join [r, joinWith sep cs] = fullPath (IsAbs r) (cleanComps r @ cs)" "cleanList (IsAbs r) (cleanComps r @ cs)"
proof -
  have p: "cleanList False cs" "cs \<noteq> []" "list_all properComp cs" using assms(2) by (auto simp: properComps_def intro: proper_cleanList)
  have comps: "cleanComps (r @ sep # joinWith sep cs) = cleanComps r @ cs"
    using cleanComps_under(2)[OF assms(1) p(1,2)] p(3) by (simp add: fold_clean_proper)
  then show "Join [r, joinWith sep cs] = fullPath (IsAbs r) (cleanComps r @ cs)"
    using assms(1) cleanComps_under(1)[OF assms(1) p(1,2)] by (simp add: Join_def Clean_full)
  show "cleanList (IsAbs r) (cleanComps r @ cs)"
    using cleanList_comps[of "r @ sep # joinWith sep cs"] comps cleanComps_under(1)[OF assms(1) p(1,2)] by simp
qed

text \<open>A local path never climbs above its start, so it may be cleaned before it is joined.\<close>

lemma fold_keeps_bottom:
  "st \<noteq> [] \<Longrightarrow> last st = dotdot \<Longrightarrow> fold (cleanStep False) cs st \<noteq> [] \<and> last (fold (cleanStep False) cs st) = dotdot"
proof (induction cs arbitrary: st)
  case (Cons c cs)
  have "cleanStep False c st \<noteq> [] \<and> last (cleanStep False c st) = dotdot"
    using Cons.prems by (cases st) auto
  then show ?case using Cons.IH by (simp del: cleanStep.simps)
qed simp

lemma fold_clean_local:
  "dotdot \<notin> set (fold (cleanStep False) cs st) \<Longrightarrow> dotdot \<notin> set st \<Longrightarrow>
   fold (cleanStep r) cs (st @ ts) = fold (cleanStep False) cs st @ ts"
proof (induction cs arbitrary: st)
  case (Cons c cs)
  show ?case
  proof (cases "c = dotdot \<and> st = []")
    case True
    then have "cleanStep False c st = [dotdot]" by simp
    then have "dotdot \<notin> set (fold (cleanStep False) cs [dotdot])" using Cons.prems(1) by (simp del: cleanStep.simps)
    moreover have "x \<noteq> [] \<Longrightarrow> last x = dotdot \<Longrightarrow> dotdot \<in> set x" for x using last_in_set[of x] by simp
    ultimately show ?thesis using fold_keeps_bottom[of "[dotdot]" cs] by (simp del: cleanStep.simps)
  next
    case False
    then have "cleanStep r c (st @ ts) = cleanStep False c st @ ts" "dotdot \<notin> set (cleanStep False c st)"
      using Cons.prems(2) by (cases st; auto)+
    then show ?thesis using Cons.IH[of "cleanStep False c st"] Cons.prems(1) by (simp del: cleanStep.simps)
  qed
qed simp

lemma Join_local:
  assumes "isOk (ValidateRelative p)"
  shows "Join [d, p] = Join [d, joinWith sep (cleanComps p)]"
proof (cases "d = []")
  case True
  then show ?thesis using valid_not_abs[OF assms] valid_proper[OF assms] join_proper_head[of "cleanComps p"] by (simp add: Join_def)
next
  case False
  note p = valid_proper(1)[OF assms] and rel = valid_not_abs[OF assms]
  have "dotdot \<notin> set (fold (cleanStep False) (splitOn sep p) [])"
    using p rel by (auto simp: properComps_def cleanComps_def list_all_iff properComp_def)
  then have "fold (cleanStep r) (splitOn sep p) st = rev (cleanComps p) @ st" for r st
    using fold_clean_local[of "splitOn sep p" "[]" r st] rel by (simp add: cleanComps_def)
  moreover have abs: "IsAbs (d @ sep # p) = IsAbs d" using False by (cases d) (simp_all add: IsAbs_def)
  moreover have "cleanComps (d @ sep # p) = rev (fold (cleanStep (IsAbs d)) (splitOn sep p) (rev (cleanComps d)))"
    unfolding cleanComps_def abs by (simp add: splitOn_append del: cleanStep.simps)
  ultimately have "Join [d, p] = fullPath (IsAbs d) (cleanComps d @ cleanComps p)"
    using False by (simp add: Join_def Clean_full)
  then show ?thesis using Join_under(1)[OF False p] by simp
qed

text \<open>The absolute form of a path below a directory is the directory's absolute components and the
  path's own.\<close>

lemma Abs_under:
  assumes wd: "IsAbs wd"
  shows "\<exists>base. list_all properComp base
    \<and> (\<forall>cs. properComps cs \<longrightarrow> Abs (Inr wd) (Join [d, joinWith sep cs]) = Inr (fullPath True (base @ cs)))"
proof -
  have w: "wd \<noteq> []" using wd by (auto simp: IsAbs_def)
  have pw: "list_all properComp (cleanComps wd)" using cleanList_comps[of wd] wd by (simp add: cleanList_proper)
  consider (empty) "d = []" | (abs) "IsAbs d" "d \<noteq> []" | (rel) "\<not> IsAbs d" "d \<noteq> []" by (cases "d = []") auto
  then show ?thesis
  proof cases
    case empty
    have "Abs (Inr wd) (Join [d, joinWith sep cs]) = Inr (fullPath True (cleanComps wd @ cs))" if "properComps cs" for cs
    proof -
      have "Join [d, joinWith sep cs] = joinWith sep cs" using empty that join_proper_head[OF that] by (simp add: Join_def)
      then show ?thesis using Join_under(1)[OF w that] wd join_proper_head[OF that] by (simp add: Abs_def)
    qed
    then show ?thesis using pw by blast
  next
    case abs
    have "Abs (Inr wd) (Join [d, joinWith sep cs]) = Inr (fullPath True (cleanComps d @ cs))" if "properComps cs" for cs
      using Join_under[OF abs(2) that] abs(1) IsAbs_full[of True] Clean_fullPath[of True] by (simp add: Abs_def)
    moreover have "list_all properComp (cleanComps d)" using cleanList_comps[of d] abs by (simp add: cleanList_proper)
    ultimately show ?thesis by blast
  next
    case rel
    let ?base = "rev (fold (cleanStep True) (cleanComps d) (rev (cleanComps wd)))"
    have "\<forall>c\<in>set (cleanComps d). sep \<notin> set c"
      using cleanList_no_sep[OF cleanList_comps[of d]] by (auto simp: list_all_iff)
    then have base: "list_all properComp ?base"
      using proper_fold[of "rev (cleanComps wd)" "cleanComps d"] pw by simp
    have "Abs (Inr wd) (Join [d, joinWith sep cs]) = Inr (fullPath True (?base @ cs))" if p: "properComps cs" for cs
    proof -
      have cl: "cleanList False (cleanComps d @ cs)" and ne: "cleanComps d @ cs \<noteq> []"
        using Join_under(2)[OF rel(2) p] rel(1) p by (auto simp: properComps_def)
      have j: "Join [d, joinWith sep cs] = joinWith sep (cleanComps d @ cs)"
        using Join_under(1)[OF rel(2) p] rel(1) ne by (simp add: fullPath_def)
      have "\<not> IsAbs (joinWith sep (cleanComps d @ cs))" using IsAbs_full[OF cl] ne by (auto simp: fullPath_def split: if_splits)
      moreover have "Join [wd, joinWith sep (cleanComps d @ cs)] = fullPath True (?base @ cs)"
        using cleanComps_under[OF w cl ne] w wd p by (simp add: Join_def Clean_full fold_clean_proper properComps_def)
      ultimately show ?thesis by (simp add: Abs_def j)
    qed
    then show ?thesis using base by blast
  qed
qed

lemma Abs_shape:
  assumes "Abs (Inr wd) p = Inr q" "IsAbs wd"
  shows "\<exists>cs. list_all properComp cs \<and> q = fullPath True cs"
proof -
  have w: "wd \<noteq> []" using assms(2) by (auto simp: IsAbs_def)
  obtain x where "q = Clean x" "IsAbs x"
    using assms w by (cases "IsAbs p") (auto simp: Abs_def Join_def IsAbs_def)
  then show ?thesis using cleanList_comps[of x] by (auto simp: Clean_full cleanList_proper)
qed

text \<open>On absolute paths the overlap test compares component lists; the root directory itself is not
  taken to be above anything.\<close>

lemma prefix_full:
  assumes "list_all properComp a" "list_all properComp b"
  shows "HasPrefix (fullPath True a) (fullPath True b @ [sep]) \<longleftrightarrow> b \<noteq> [] \<and> strict_prefix b a"
proof (cases "a = [] \<or> b = []")
  case True
  have "\<not> HasPrefix (joinWith sep a) [sep]" if "a \<noteq> []"
    using join_cleanList_head(1,2)[OF proper_cleanList[OF assms(1)] that] by (cases "joinWith sep a") auto
  then show ?thesis using True by (cases "a = []") (auto simp: fullPath_def)
next
  case False
  then show ?thesis using prefix_join_iff[of a b] assms by (simp add: fullPath_def properComps_def)
qed

lemma overlap_full:
  assumes "list_all properComp a" "list_all properComp b"
  shows "Overlap (fullPath True a) (fullPath True b) \<longleftrightarrow> a = b \<or> b \<noteq> [] \<and> strict_prefix b a \<or> a \<noteq> [] \<and> strict_prefix a b"
proof -
  have "joinWith sep a = joinWith sep b \<longleftrightarrow> a = b"
  proof (cases "a = [] \<or> b = []")
    case True
    then show ?thesis
      using join_cleanList_head(1)[OF proper_cleanList[OF assms(1)]] join_cleanList_head(1)[OF proper_cleanList[OF assms(2)]]
      by (cases a; cases b) force+
  next
    case False
    then show ?thesis using join_proper_inj[of a b] assms by (simp add: properComps_def)
  qed
  then have "fullPath True a = fullPath True b \<longleftrightarrow> a = b" by (simp add: fullPath_def)
  then show ?thesis
    using prefix_full[OF assms] prefix_full[OF assms(2,1)] Clean_fullPath[OF proper_cleanList[OF assms(1)]]
      Clean_fullPath[OF proper_cleanList[OF assms(2)]]
    by (simp add: Overlap_def Let_def)
qed

end
