(* ===== verification/StorageRoots.thy ===== *)
theory StorageRoots
  imports GoAbs Engine
begin

text \<open>
  Where payload may live and whether there is room for it (\<open>engine/storage_roots.go\<close>,
  \<open>engine/cleanup.go\<close> and the disk check of \<open>engine/download_gate.go\<close>). A storage layout comes from a
  resolver the application installs; the engine validates it against the paths of its own service
  files before a payload path is built from it. Before payload is admitted, the file systems under
  every payload directory are asked for free space; a directory that does not exist yet is represented
  by its nearest existing parent.
\<close>

section \<open>Configuration and service paths\<close>

record serviceConfig =
  DownloadDir :: string
  DBPath :: string
  LogDir :: string
  MetainfoTempDir :: string
  BTRetrackersFile :: string
  MinFreeSpaceGB :: int

text \<open>\<open>strings.TrimSpace(s) == ""\<close>: every rune is white space.\<close>

definition isSpace :: "nat \<Rightarrow> bool" where
  "isSpace r = (if r < 128 then (9 \<le> r \<and> r \<le> 13) \<or> r = 32
     else r = 133 \<or> r = 160 \<or> r = 5760 \<or> (8192 \<le> r \<and> r \<le> 8202) \<or> r = 8232 \<or> r = 8233 \<or> r = 8239 \<or> r = 8287 \<or> r = 12288)"

definition blank :: "string \<Rightarrow> bool" where
  "blank s = list_all (\<lambda>(r, _). isSpace r) (runes s)"

definition ConfigDir :: "serviceConfig \<Rightarrow> string" where
  "ConfigDir cfg = (if blank (DBPath cfg) then DownloadDir cfg else Dir (DBPath cfg))"

definition CleanupProtectedPaths :: "serviceConfig \<Rightarrow> string list" where
  "CleanupProtectedPaths cfg =
     [Join [DownloadDir cfg, ''.tsh-recovery''], Join [DownloadDir cfg, ''.torrent.bolt.db''],
      Join [ConfigDir cfg, ''metainfo''], MetainfoTempDir cfg]
     @ (if DBPath cfg \<noteq> [] then map (\<lambda>suffix. DBPath cfg @ suffix) [[], ''-wal'', ''-shm'', ''-journal''] else [])
     @ (if LogDir cfg \<noteq> [] then [LogDir cfg] else [])
     @ (if BTRetrackersFile cfg \<noteq> [] then [BTRetrackersFile cfg] else [])"

section \<open>Storage layouts\<close>

datatype rootError =
    StoragePending
  | InvalidMapping
  | OverlapsService
  | AbsFailed string
  | HookFailed string
  | LayoutError payloadError

fun checkProtected :: "(string, string) result \<Rightarrow> string \<Rightarrow> string list \<Rightarrow> rootError option" where
  "checkProtected wd path [] = None"
| "checkProtected wd path (protected # rest) =
     (case Abs wd protected of
        Inl e \<Rightarrow> Some (AbsFailed e)
      | Inr other \<Rightarrow> if Overlap path other then Some OverlapsService else checkProtected wd path rest)"

definition validateStorageRoot :: "(string, string) result \<Rightarrow> serviceConfig \<Rightarrow> string \<Rightarrow> (rootError, string) result" where
  "validateStorageRoot wd cfg root =
     (if \<not> isOk (ValidateRelative root) then Inl InvalidMapping
      else case Abs wd (Join [DownloadDir cfg, root]) of
        Inl e \<Rightarrow> Inl (AbsFailed e)
      | Inr path \<Rightarrow>
         (case checkProtected wd path (CleanupProtectedPaths cfg) of
            Some e \<Rightarrow> Inl e
          | None \<Rightarrow> Inr root))"

text \<open>The hooks the application installs. A resolver may answer that the storage is pending.\<close>

record storageHooks =
  storageLayoutResolver :: "(string \<Rightarrow> metaInfo option \<Rightarrow> (rootError, Layout) result) option"
  storageRootResolver :: "(string \<Rightarrow> (rootError, string) result) option"
  storageAliasRegistrar :: "(string \<Rightarrow> string \<Rightarrow> rootError option) option"

definition SetStorageLayoutResolver ::
    "(string \<Rightarrow> metaInfo option \<Rightarrow> (rootError, Layout) result) option \<Rightarrow> (string \<Rightarrow> string \<Rightarrow> rootError option) option
       \<Rightarrow> storageHooks \<Rightarrow> storageHooks" where
  "SetStorageLayoutResolver resolve alias h = h\<lparr>storageLayoutResolver := resolve, storageAliasRegistrar := alias\<rparr>"

definition SetStorageRootResolver ::
    "(string \<Rightarrow> (rootError, string) result) option \<Rightarrow> (string \<Rightarrow> string \<Rightarrow> rootError option) option list
       \<Rightarrow> storageHooks \<Rightarrow> storageHooks" where
  "SetStorageRootResolver resolve aliases h =
     h\<lparr>storageLayoutResolver := None, storageRootResolver := resolve,
       storageAliasRegistrar := (case aliases of [] \<Rightarrow> storageAliasRegistrar h | a # _ \<Rightarrow> a)\<rparr>"

text \<open>The runtime whose library torrent has this hash as its other one; the order of the generations
  stands for the order of the map iteration.\<close>

definition aliasOwner :: "ManagedTorrent list \<Rightarrow> string \<Rightarrow> string option" where
  "aliasOwner ms h = map_option hash (find (\<lambda>mt. hash mt \<noteq> h \<and> infoHash mt = h) ms)"

record storageEnv =
  se_wd :: "(string, string) result"
  se_cfg :: serviceConfig
  se_unicode :: unicodeTables
  se_hooks :: storageHooks
  se_runtimes :: "ManagedTorrent list"

definition legacyStorageRoot :: "storageEnv \<Rightarrow> string \<Rightarrow> (rootError, string) result" where
  "legacyStorageRoot env h =
     (let validate = validateStorageRoot (se_wd env) (se_cfg env) in
      case storageRootResolver (se_hooks env) of
        None \<Rightarrow> validate (Root h)
      | Some resolve \<Rightarrow>
         (case resolve h of
            Inr root \<Rightarrow> validate root
          | Inl e \<Rightarrow>
             (case storageAliasRegistrar (se_hooks env) of
                None \<Rightarrow> Inl e
              | Some register \<Rightarrow>
                 (case aliasOwner (se_runtimes env) h of
                    None \<Rightarrow> Inl e
                  | Some owner \<Rightarrow>
                     andThen (resolve owner) (\<lambda>root.
                       case register h owner of Some e' \<Rightarrow> Inl e' | None \<Rightarrow> validate root)))))"

text \<open>What the resolver answers, for the hash itself or, after a failure, for the owner the hash is
  registered to as an alias.\<close>

definition resolveLayout ::
    "storageEnv \<Rightarrow> (string \<Rightarrow> metaInfo option \<Rightarrow> (rootError, Layout) result) \<Rightarrow> string \<Rightarrow> metaInfo option
       \<Rightarrow> (rootError, Layout) result" where
  "resolveLayout env resolve h info =
     (case resolve h info of
        Inr l \<Rightarrow> Inr l
      | Inl e \<Rightarrow>
         (case storageAliasRegistrar (se_hooks env) of
            None \<Rightarrow> Inl e
          | Some register \<Rightarrow>
             (case aliasOwner (se_runtimes env) h of
                None \<Rightarrow> Inl e
              | Some owner \<Rightarrow> (case register h owner of Some e' \<Rightarrow> Inl e' | None \<Rightarrow> resolve owner info))))"

definition validLayout :: "storageEnv \<Rightarrow> Layout \<Rightarrow> (rootError, Layout) result" where
  "validLayout env l =
     (case Layout_Validate (se_unicode env) l of Inl e \<Rightarrow> Inl (LayoutError e) | Inr _ \<Rightarrow> Inr l)"

definition StorageLayout :: "storageEnv \<Rightarrow> string \<Rightarrow> metaInfo option \<Rightarrow> (rootError, Layout) result" where
  "StorageLayout env h info =
     (case storageLayoutResolver (se_hooks env) of
        None \<Rightarrow>
          andThen (legacyStorageRoot env h) (\<lambda>root.
            validLayout env \<lparr>lay_version = LayoutVersion, lay_root = root, lay_prefix = []\<rparr>)
      | Some resolve \<Rightarrow>
          andThen (resolveLayout env resolve h info) (\<lambda>l.
          andThen (validLayout env l) (\<lambda>_.
          andThen (validateStorageRoot (se_wd env) (se_cfg env) (lay_root l)) (\<lambda>_. Inr l))))"

definition PayloadPath :: "storageEnv \<Rightarrow> string \<Rightarrow> metaInfo \<Rightarrow> string list \<Rightarrow> (rootError, string) result" where
  "PayloadPath env h info file =
     andThen (StorageLayout env h (Some info)) (\<lambda>l.
       case Layout_File (se_unicode env) l info file of Inl e \<Rightarrow> Inl (LayoutError e) | Inr p \<Rightarrow> Inr p)"

definition StorageRoot :: "storageEnv \<Rightarrow> string \<Rightarrow> (rootError, string) result" where
  "StorageRoot env h = andThen (StorageLayout env h None) (\<lambda>l. Inr (lay_root l))"

section \<open>The disk check\<close>

definition minimumDiskBytes :: "serviceConfig \<Rightarrow> 64 word" where
  "minimumDiskBytes cfg =
     (let gb = 1024 * 1024 * 1024; minimum = word_of_int (max (MinFreeSpaceGB cfg) 0) in
      if minimum > (- 1) div gb then - 1 else minimum * gb)"

datatype diskError = SpaceUnknown string | BelowReserve | RootError rootError

record diskView =
  stat :: "string \<Rightarrow> fsError option"
  freeSpace :: "string \<Rightarrow> (string, 64 word) result"

text \<open>The loop that climbs to the nearest existing parent.\<close>

partial_function (option) nearestExisting :: "diskView \<Rightarrow> string \<Rightarrow> (string, string) result option" where
  "nearestExisting d path =
     (case stat d path of
        None \<Rightarrow> Some (Inr path)
      | Some (OtherFs e) \<Rightarrow> Some (Inl e)
      | Some NotExist \<Rightarrow>
          if Dir path = path then Some (Inr path) else nearestExisting d (Dir path))"

declare nearestExisting.simps [code]

definition probeDisk :: "diskView \<Rightarrow> 64 word \<Rightarrow> string \<Rightarrow> diskError option" where
  "probeDisk d minimum path =
     (case freeSpace d path of
        Inl e \<Rightarrow> Some (SpaceUnknown e)
      | Inr free \<Rightarrow> if free < minimum then Some BelowReserve else None)"

definition checkDiskPathWithProbe ::
    "diskView \<Rightarrow> 64 word \<Rightarrow> string \<Rightarrow> string list \<Rightarrow> (diskError option \<times> string list) option" where
  "checkDiskPathWithProbe d minimum path seen =
     map_option (\<lambda>r. case r of
         Inl e \<Rightarrow> (Some (SpaceUnknown e), seen)
       | Inr found \<Rightarrow> if found \<in> set seen then (None, seen) else (probeDisk d minimum found, found # seen))
       (nearestExisting d path)"

fun checkDiskPaths :: "diskView \<Rightarrow> 64 word \<Rightarrow> string list \<Rightarrow> string list \<Rightarrow> diskError option option" where
  "checkDiskPaths d minimum [] seen = Some None"
| "checkDiskPaths d minimum (path # paths) seen =
     (case checkDiskPathWithProbe d minimum path seen of
        None \<Rightarrow> None
      | Some (Some e, _) \<Rightarrow> Some (Some e)
      | Some (None, seen') \<Rightarrow> checkDiskPaths d minimum paths seen')"

fun payloadDirs :: "storageEnv \<Rightarrow> string \<Rightarrow> metaInfo \<Rightarrow> string list list \<Rightarrow> (rootError, string list) result" where
  "payloadDirs env h info [] = Inr []"
| "payloadDirs env h info (file # files) =
     andThen (PayloadPath env h info file) (\<lambda>rel.
     andThen (payloadDirs env h info files) (\<lambda>dirs.
       Inr (Dir (Join [DownloadDir (se_cfg env), rel]) # dirs)))"

text \<open>\<open>info\<close> is the metadata of the current runtime of the hash, if there is one and it is known.\<close>

definition diskErrorWithProbe ::
    "storageEnv \<Rightarrow> diskView \<Rightarrow> 64 word \<Rightarrow> string \<Rightarrow> metaInfo option \<Rightarrow> diskError option option" where
  "diskErrorWithProbe env d minimum h info =
     (case StorageRoot env h of
        Inl StoragePending \<Rightarrow> map_option fst (checkDiskPathWithProbe d minimum (DownloadDir (se_cfg env)) [])
      | Inl e \<Rightarrow> Some (Some (RootError e))
      | Inr root \<Rightarrow>
         (case (case info of None \<Rightarrow> Inr [] | Some i \<Rightarrow> payloadDirs env h i (filePaths i)) of
            Inl e \<Rightarrow> Some (Some (RootError e))
          | Inr dirs \<Rightarrow> checkDiskPaths d minimum (Join [DownloadDir (se_cfg env), root] # dirs) []))"

definition diskErrorOf :: "storageEnv \<Rightarrow> diskView \<Rightarrow> string \<Rightarrow> metaInfo option \<Rightarrow> diskError option option" where
  "diskErrorOf env d h info = diskErrorWithProbe env d (minimumDiskBytes (se_cfg env)) h info"

section \<open>Layouts and service paths\<close>








section \<open>The disk check\<close>

text \<open>The nearest existing parent: every path below it on the way is missing, and it exists or is
  its own parent.\<close>

definition nearestParent :: "diskView \<Rightarrow> string \<Rightarrow> string \<Rightarrow> bool" where
  "nearestParent d p q \<longleftrightarrow> (\<exists>n. q = (Dir ^^ n) p \<and> (\<forall>m<n. stat d ((Dir ^^ m) p) = Some NotExist)
     \<and> (stat d q = None \<or> stat d q = Some NotExist \<and> Dir q = q))"

lemma nearestParent_self:
  "stat d p = None \<or> stat d p = Some NotExist \<and> Dir p = p \<Longrightarrow> nearestParent d p p"
  unfolding nearestParent_def by (intro exI[of _ 0]) simp

lemma nearestParent_up:
  assumes "stat d p = Some NotExist" "nearestParent d (Dir p) q"
  shows "nearestParent d p q"
proof -
  obtain n where n: "q = (Dir ^^ n) (Dir p)" "\<forall>m<n. stat d ((Dir ^^ m) (Dir p)) = Some NotExist"
      "stat d q = None \<or> stat d q = Some NotExist \<and> Dir q = q"
    using assms(2) unfolding nearestParent_def by blast
  have "stat d ((Dir ^^ m) p) = Some NotExist" if "m < Suc n" for m
    using that n(2) assms(1) by (cases m) (simp_all add: funpow_swap1)
  then show ?thesis using n unfolding nearestParent_def by (intro exI[of _ "Suc n"]) (simp add: funpow_swap1)
qed

lemma nearestExisting_returns:
  "\<exists>r. nearestExisting d p = Some r \<and> (\<forall>q. r = Inr q \<longrightarrow> nearestParent d p q)"
proof (induction p rule: parent_induct)
  case (top p)
  then show ?case by (subst nearestExisting.simps) (auto intro: nearestParent_self split: option.split fsError.split)
next
  case (up p)
  then show ?case
    by (subst nearestExisting.simps) (auto intro: nearestParent_self nearestParent_up split: option.split fsError.split)
qed

lemma checkDiskPath_returns:
  assumes "\<forall>q\<in>set seen. probeDisk d m q = None"
  obtains e seen' where "checkDiskPathWithProbe d m p seen = Some (e, seen')"
    "e = None \<Longrightarrow> (\<forall>q\<in>set seen'. probeDisk d m q = None) \<and> (\<exists>q. nearestParent d p q \<and> probeDisk d m q = None)"
proof -
  obtain r where r: "nearestExisting d p = Some r" "\<forall>q. r = Inr q \<longrightarrow> nearestParent d p q"
    using nearestExisting_returns by blast
  show ?thesis
  proof (cases r)
    case (Inl e)
    then show ?thesis using that r(1) by (simp add: checkDiskPathWithProbe_def)
  next
    case (Inr q)
    then show ?thesis using that r assms by (cases "q \<in> set seen") (auto simp: checkDiskPathWithProbe_def)
  qed
qed

lemma checkDiskPaths_returns:
  "\<forall>q\<in>set seen. probeDisk d m q = None \<Longrightarrow>
   \<exists>r. checkDiskPaths d m ps seen = Some r \<and> (r = None \<longrightarrow> (\<forall>p\<in>set ps. \<exists>q. nearestParent d p q \<and> probeDisk d m q = None))"
proof (induction ps arbitrary: seen)
  case (Cons p ps)
  obtain e seen' where e: "checkDiskPathWithProbe d m p seen = Some (e, seen')"
    "e = None \<Longrightarrow> (\<forall>q\<in>set seen'. probeDisk d m q = None) \<and> (\<exists>q. nearestParent d p q \<and> probeDisk d m q = None)"
    using checkDiskPath_returns[OF Cons.prems] by blast
  show ?case
  proof (cases e)
    case None
    then show ?thesis using e Cons.IH[of seen'] by auto
  qed (use e in simp)
qed simp

lemma payloadDirs_ok:
  "payloadDirs env h info files = Inr dirs \<Longrightarrow> file \<in> set files
   \<Longrightarrow> \<exists>rel. PayloadPath env h info file = Inr rel \<and> Dir (Join [DownloadDir (se_cfg env), rel]) \<in> set dirs"
  by (induction env h info files arbitrary: dirs rule: payloadDirs.induct) auto

text \<open>The reserve saturates instead of wrapping.\<close>

definition reserveBytes :: "serviceConfig \<Rightarrow> int" where
  "reserveBytes cfg = min (2 ^ 64 - 1) (max (MinFreeSpaceGB cfg) 0 * 2 ^ 30)"

lemma minimumDiskBytes_reserve:
  assumes "in_i64 (MinFreeSpaceGB cfg)"
  shows "uint (minimumDiskBytes cfg) = reserveBytes cfg"
proof -
  define n where "n = max (MinFreeSpaceGB cfg) 0"
  have n: "0 \<le> n" "n < 2 ^ 63" using assms by (auto simp: n_def in_i64_def)
  have u: "uint (word_of_int n :: 64 word) = n" using n by (simp add: word_of_int_inverse)
  have gb: "uint (1024 * 1024 * 1024 :: 64 word) = 2 ^ 30" by simp
  have q: "uint ((- 1 :: 64 word) div (1024 * 1024 * 1024)) = 2 ^ 34 - 1" by (simp add: uint_div)
  show ?thesis
  proof (cases "n < 2 ^ 34")
    case True
    then have "\<not> word_of_int n > (- 1 :: 64 word) div (1024 * 1024 * 1024)" using u q by (simp add: word_less_def)
    moreover have "uint (word_of_int n * (1024 * 1024 * 1024) :: 64 word) = n * 2 ^ 30"
      using True n u gb by (simp add: uint_word_ariths)
    ultimately show ?thesis using True by (simp add: minimumDiskBytes_def reserveBytes_def Let_def n_def min_def)
  next
    case False
    then have "word_of_int n > (- 1 :: 64 word) div (1024 * 1024 * 1024)" using u q by (simp add: word_less_def)
    moreover have "uint (- 1 :: 64 word) = 2 ^ 64 - 1" by (simp add: unsigned_minus_1_eq_mask mask_eq_exp_minus_1)
    ultimately show ?thesis using False by (simp add: minimumDiskBytes_def reserveBytes_def Let_def n_def min_def)
  qed
qed

lemma probeDisk_free: "probeDisk d m q = None \<longleftrightarrow> (\<exists>free. freeSpace d q = Inr free \<and> uint m \<le> uint free)"
  by (auto simp: probeDisk_def word_less_def split: sum.splits)

definition roomy :: "serviceConfig \<Rightarrow> diskView \<Rightarrow> string \<Rightarrow> bool" where
  "roomy cfg d p \<longleftrightarrow> (\<exists>q free. nearestParent d p q \<and> freeSpace d q = Inr free \<and> reserveBytes cfg \<le> uint free)"

section \<open>Properties\<close>


text \<open>C28: the disk check always answers, and a positive answer covers everything the payload will
  touch. When it reports no error, the file system of the nearest existing parent of the payload root
  and of the directory of every file has at least the configured reserve free, where the reserve
  saturates at the largest 64-bit value; while the layout is still pending this holds of the download
  directory.\<close>

theorem disk_check_covers_payload:
  assumes "in_i64 (MinFreeSpaceGB (se_cfg env))"
  defines "dir \<equiv> DownloadDir (se_cfg env)"
  shows "\<exists>r. diskErrorOf env d h info = Some r \<and> (r = None \<longrightarrow>
    StorageRoot env h = Inl StoragePending \<and> roomy (se_cfg env) d dir
    \<or> (\<exists>root. StorageRoot env h = Inr root \<and> roomy (se_cfg env) d (Join [dir, root])
        \<and> (\<forall>i file. info = Some i \<longrightarrow> file \<in> set (filePaths i) \<longrightarrow>
             (\<exists>rel. PayloadPath env h i file = Inr rel \<and> roomy (se_cfg env) d (Dir (Join [dir, rel]))))))"
proof -
  let ?m = "minimumDiskBytes (se_cfg env)"
  have ok: "roomy (se_cfg env) d p" if "nearestParent d p q" "probeDisk d ?m q = None" for p q
    using that minimumDiskBytes_reserve[OF assms(1)] unfolding roomy_def probeDisk_free by auto
  show ?thesis
  proof (cases "StorageRoot env h")
    case (Inl e)
    show ?thesis
    proof (cases "e = StoragePending")
      case True
      obtain r s where "checkDiskPathWithProbe d ?m dir [] = Some (r, s)"
          "r = None \<Longrightarrow> \<exists>q. nearestParent d dir q \<and> probeDisk d ?m q = None"
        by (rule checkDiskPath_returns[of "[]" d ?m dir]) auto
      then show ?thesis using Inl True ok by (auto simp: diskErrorOf_def diskErrorWithProbe_def dir_def)
    qed (use Inl in \<open>auto simp: diskErrorOf_def diskErrorWithProbe_def split: rootError.split\<close>)
  next
    case (Inr root)
    show ?thesis
    proof (cases "case info of None \<Rightarrow> Inr [] | Some i \<Rightarrow> payloadDirs env h i (filePaths i)")
      case (Inl e)
      then show ?thesis using Inr by (simp add: diskErrorOf_def diskErrorWithProbe_def)
    next
      case (Inr dirs)
      obtain r where r: "checkDiskPaths d ?m (Join [dir, root] # dirs) [] = Some r"
          "r = None \<Longrightarrow> \<forall>p\<in>set (Join [dir, root] # dirs). roomy (se_cfg env) d p"
        using checkDiskPaths_returns[of "[]" d ?m "Join [dir, root] # dirs"] ok by fastforce
      have "\<exists>rel. PayloadPath env h i f = Inr rel \<and> Dir (Join [dir, rel]) \<in> set dirs"
        if "info = Some i" "f \<in> set (filePaths i)" for i f
        using that Inr payloadDirs_ok[of env h i "filePaths i" dirs f] by (simp add: dir_def)
      then show ?thesis using r \<open>StorageRoot env h = Inr root\<close> Inr
        by (fastforce simp: diskErrorOf_def diskErrorWithProbe_def dir_def)
    qed
  qed
qed

section \<open>A concrete installation\<close>

definition exMeta :: metaInfo where "exMeta = \<lparr>bestName = ''S'', filePaths = [[''b'']]\<rparr>"

definition exStorage :: storageEnv where
  "exStorage = \<lparr>se_wd = Inr ''/'',
     se_cfg = \<lparr>DownloadDir = ''d'', DBPath = ''/h'', LogDir = [], MetainfoTempDir = ''/t'', BTRetrackersFile = [], MinFreeSpaceGB = 1\<rparr>,
     se_unicode = asciiTables,
     se_hooks = \<lparr>storageLayoutResolver = Some (\<lambda>_ _. Inr \<lparr>lay_version = 2, lay_root = ''p'', lay_prefix = []\<rparr>),
       storageRootResolver = None, storageAliasRegistrar = None\<rparr>,
     se_runtimes = []\<rparr>"

definition exDisk :: diskView where
  "exDisk = \<lparr>stat = (\<lambda>p. if p = ''d'' then None else Some NotExist), freeSpace = (\<lambda>p. Inr 2000000000)\<rparr>"

lemma exStorage_path: "PayloadPath exStorage [] exMeta [''b''] = Inr ''p/S/b''" by code_simp


text \<open>The exception is real: with the root directory as the log directory, the layout is accepted and the
  payload lies below a protected path.\<close>

lemma root_log_directory_accepted:
  "let env = exStorage\<lparr>se_cfg := (se_cfg exStorage)\<lparr>LogDir := ''/''\<rparr>\<rparr> in
     PayloadPath env [] exMeta [''b''] = Inr ''p/S/b'' \<and> ''/'' \<in> set (CleanupProtectedPaths (se_cfg env))"
  by code_simp

lemma exStorage_disk: "diskErrorOf exStorage exDisk [] (Some exMeta) = Some None" by code_simp

theorem disk_check_covers_payload_witness:
  "\<exists>q free. nearestParent exDisk (Dir (Join [''d'', ''p/S/b''])) q \<and> freeSpace exDisk q = Inr free \<and> 2 ^ 30 \<le> uint free"
proof -
  have s: "StorageRoot exStorage [] \<noteq> Inl StoragePending" by code_simp
  have c: "in_i64 (MinFreeSpaceGB (se_cfg exStorage))" "reserveBytes (se_cfg exStorage) = 2 ^ 30"
      "DownloadDir (se_cfg exStorage) = ''d''" "[''b''] \<in> set (filePaths exMeta)"
    by (simp_all add: exStorage_def exMeta_def in_i64_def reserveBytes_def)
  have "roomy (se_cfg exStorage) exDisk (Dir (Join [''d'', ''p/S/b'']))"
    using disk_check_covers_payload[OF c(1), of exDisk "[]" "Some exMeta"] exStorage_disk exStorage_path s c(3,4) by auto
  then show ?thesis unfolding roomy_def c(2) .
qed

end
