(* ===== verification/Bencode.thy ===== *)
theory Bencode
  imports GoText "HOL-Library.Multiset"
begin

text \<open>
  The bencode library (\<open>pkg/anacrolix-torrent/bencode\<close>): writing values, reading them into untyped
  values (\<open>interface{}\<close>), and skipping over one value while keeping its bytes, which is how the info
  dictionary is read before it is hashed. Reflection on typed destinations is not modelled. The reader
  is recursive; its recursion is bounded by fuel, and the fuel \<open>Unmarshal\<close> starts with is shown to be
  enough for every input.
\<close>

section \<open>Numbers\<close>

datatype numError = ErrSyntax | ErrRange

definition isDigit :: "char \<Rightarrow> bool" where
  "isDigit c \<longleftrightarrow> 48 \<le> codeOf c \<and> codeOf c \<le> 57"

definition digitVal :: "char \<Rightarrow> int" where
  "digitVal c = int (codeOf c) - 48"

text \<open>\<open>strconv.ParseUint(s, 10, 64)\<close>: the loop over the digits, which gives up on the first overflow.\<close>

fun parseUint :: "int \<Rightarrow> string \<Rightarrow> (numError, int) result" where
  "parseUint n [] = Inr n"
| "parseUint n (c # cs) =
     (if \<not> isDigit c then Inl ErrSyntax
      else if n \<ge> 1844674407370955162 then Inl ErrRange
      else if n * 10 + digitVal c > 18446744073709551615 then Inl ErrRange
      else parseUint (n * 10 + digitVal c) cs)"

definition ParseUint :: "string \<Rightarrow> (numError, int) result" where
  "ParseUint s = (if s = [] then Inl ErrSyntax else parseUint 0 s)"

definition unsignedPart :: "string \<Rightarrow> string" where
  "unsignedPart s = (case s of c # cs \<Rightarrow> if c = CHR ''+'' \<or> c = CHR ''-'' then cs else s | [] \<Rightarrow> [])"

definition isNegative :: "string \<Rightarrow> bool" where
  "isNegative s = (case s of c # cs \<Rightarrow> c = CHR ''-'' | [] \<Rightarrow> False)"

definition ParseInt :: "string \<Rightarrow> (numError, int) result" where
  "ParseInt s =
     andThen (ParseUint (unsignedPart s)) (\<lambda>un.
       if \<not> isNegative s \<and> un \<ge> 9223372036854775808 then Inl ErrRange
       else if isNegative s \<and> un > 9223372036854775808 then Inl ErrRange
       else Inr (if isNegative s then - un else un))"

text \<open>\<open>big.Int.SetString(s, 10)\<close>.\<close>

definition bigSetString :: "string \<Rightarrow> int option" where
  "bigSetString s =
     (let ds = unsignedPart s in
      if ds = [] \<or> \<not> list_all isDigit ds then None
      else let n = fold (\<lambda>c n. n * 10 + digitVal c) ds 0 in Some (if isNegative s then - n else n))"

text \<open>\<open>strconv.AppendInt(_, n, 10)\<close> and \<open>big.Int.String\<close>.\<close>

definition intText :: "int \<Rightarrow> string" where
  "intText n = (if n < 0 then CHR ''-'' # decimal (nat (- n)) else decimal (nat n))"

section \<open>Values and the encoder\<close>

datatype bvalue =
    BInt int
  | BStr string
  | BList "bvalue list"
  | BDict "(string \<times> bvalue) list"

text \<open>\<open>writeString\<close> copies through a scratch buffer of 64 bytes.\<close>

function writeString :: "string \<Rightarrow> string" where
  "writeString s = (if s = [] then [] else take 64 s @ writeString (drop 64 s))"
  by pat_completeness auto
termination by (relation "measure length") simp_all

declare writeString.simps [simp del]

definition reflectString :: "string \<Rightarrow> string" where
  "reflectString s = intText (int (length s)) @ writeString '':'' @ writeString s"

definition reflectInt :: "int \<Rightarrow> string" where
  "reflectInt n = writeString ''i'' @ intText n @ writeString ''e''"

primrec reflectValue :: "bvalue \<Rightarrow> string" where
  "reflectValue (BInt n) = reflectInt n"
| "reflectValue (BStr s) = reflectString s"
| "reflectValue (BList vs) = ''l'' @ concat (map reflectValue vs) @ ''e''"
| "reflectValue (BDict kvs) =
     ''d'' @ concat (map (\<lambda>(key, text). reflectString key @ text) (sort_key fst (map (map_prod id reflectValue) kvs))) @ ''e''"

definition Marshal :: "bvalue \<Rightarrow> string" where
  "Marshal v = reflectValue v"

section \<open>The decoder\<close>

record bdecoder =
  d_rest :: string
  d_offset :: int
  d_maxStrLen :: int

datatype bencodeError =
    SyntaxError int string
  | PlainError string
  | ErrUnexpectedEOF
  | ErrUnusedTrailingBytes nat
  | ErrNilValue
  | OutOfFuel

definition DefaultDecodeMaxStrLen :: int where "DefaultDecodeMaxStrLen = 134217727"

definition getMaxStrLen :: "bdecoder \<Rightarrow> int" where
  "getMaxStrLen d = (if d_maxStrLen d = 0 then DefaultDecodeMaxStrLen else d_maxStrLen d)"

definition advance :: "nat \<Rightarrow> bdecoder \<Rightarrow> bdecoder" where
  "advance n d = d\<lparr>d_rest := drop n (d_rest d), d_offset := d_offset d + int n\<rparr>"

text \<open>\<open>readUntil\<close> gives the bytes before the separator, which it consumes.\<close>

definition readUntil :: "char \<Rightarrow> bdecoder \<Rightarrow> (bencodeError, string \<times> bdecoder) result" where
  "readUntil sep d =
     (let s = takeWhile (\<lambda>c. c \<noteq> sep) (d_rest d) in
      if length s = length (d_rest d) then Inl (SyntaxError (d_offset d + int (length s)) ''unexpected EOF'')
      else Inr (s, advance (length s + 1) d))"

definition checkBufferedInt :: "string \<Rightarrow> bool" where
  "checkBufferedInt b \<longleftrightarrow> length b \<le> 1
     \<or> (let b = (if hd b = CHR ''-'' then tl b else b) in 49 \<le> codeOf (hd b) \<and> codeOf (hd b) \<le> 57)"

definition readInt :: "bdecoder \<Rightarrow> (bencodeError, string \<times> bdecoder) result" where
  "readInt d =
     andThen (readUntil (CHR ''e'') d) (\<lambda>(b, d').
       if checkBufferedInt b then Inr (b, d') else Inl (PlainError ''invalid leading digit''))"

text \<open>\<open>c\<close> is the digit that was already consumed.\<close>

definition parseStringLength :: "char \<Rightarrow> bdecoder \<Rightarrow> (bencodeError, int \<times> bdecoder) result" where
  "parseStringLength c d =
     andThen (readUntil (CHR '':'') d) (\<lambda>(s, d').
       if \<not> checkBufferedInt (c # s) then Inl (PlainError ''invalid leading digit'')
       else case ParseInt (c # s) of
         Inl _ \<Rightarrow> Inl (SyntaxError (d_offset d - 1) ''string length'')
       | Inr n \<Rightarrow> if n > getMaxStrLen d' then Inl (PlainError ''string length exceeds limit'') else Inr (n, d'))"

definition parseIntInterface :: "bdecoder \<Rightarrow> (bencodeError, int \<times> bdecoder) result" where
  "parseIntInterface d =
     andThen (readInt d) (\<lambda>(b, d').
       case ParseInt b of
         Inl ErrRange \<Rightarrow>
           (case bigSetString b of
              None \<Rightarrow> Inl (SyntaxError (d_offset d - 1) ''failed to parse integer'')
            | Some i \<Rightarrow> Inr (i, d'))
       | Inl ErrSyntax \<Rightarrow> Inl (SyntaxError (d_offset d - 1) ''invalid syntax'')
       | Inr n \<Rightarrow> Inr (n, d'))"

definition readBytes :: "int \<Rightarrow> bdecoder \<Rightarrow> (bencodeError, string \<times> bdecoder) result" where
  "readBytes n d =
     (if length (take (nat n) (d_rest d)) \<noteq> nat n then Inl (PlainError ''short read'')
      else Inr (take (nat n) (d_rest d), advance (nat n) d))"

definition parseStringInterface :: "char \<Rightarrow> bdecoder \<Rightarrow> (bencodeError, string \<times> bdecoder) result" where
  "parseStringInterface c d = andThen (parseStringLength c d) (\<lambda>(n, d'). readBytes n d')"

text \<open>The value reader. \<open>None\<close> is the end marker. A dictionary keeps the key it has read last.\<close>

fun parseValueInterface :: "nat \<Rightarrow> bdecoder \<Rightarrow> (bencodeError, bvalue option \<times> bdecoder) result"
  and parseDictInterface ::
    "nat \<Rightarrow> string option \<Rightarrow> (string \<times> bvalue) list \<Rightarrow> bdecoder \<Rightarrow> (bencodeError, (string \<times> bvalue) list \<times> bdecoder) result"
  and parseListInterface :: "nat \<Rightarrow> bvalue list \<Rightarrow> bdecoder \<Rightarrow> (bencodeError, bvalue list \<times> bdecoder) result" where
  "parseValueInterface 0 d = Inl OutOfFuel"
| "parseValueInterface (Suc fuel) d =
     (case d_rest d of
        [] \<Rightarrow> Inl ErrUnexpectedEOF
      | b # _ \<Rightarrow>
         (let d' = advance 1 d in
          if b = CHR ''e'' then Inr (None, d')
          else if b = CHR ''d'' then andThen (parseDictInterface fuel None [] d') (\<lambda>(kvs, d''). Inr (Some (BDict kvs), d''))
          else if b = CHR ''l'' then andThen (parseListInterface fuel [] d') (\<lambda>(vs, d''). Inr (Some (BList vs), d''))
          else if b = CHR ''i'' then andThen (parseIntInterface d') (\<lambda>(n, d''). Inr (Some (BInt n), d''))
          else if isDigit b then andThen (parseStringInterface b d') (\<lambda>(s, d''). Inr (Some (BStr s), d''))
          else Inl (SyntaxError (d_offset d' - 1) ''unknown value type'')))"
| "parseDictInterface 0 lastKey dict d = Inl OutOfFuel"
| "parseDictInterface (Suc fuel) lastKey dict d =
     andThen (parseValueInterface fuel d) (\<lambda>(keyi, d1).
       case keyi of
         None \<Rightarrow> Inr (dict, d1)
       | Some (BStr key) \<Rightarrow>
           if (case lastKey of None \<Rightarrow> False | Some l \<Rightarrow> key \<le> l) then Inl (SyntaxError (d_offset d) ''dict keys unsorted'')
           else andThen (parseValueInterface fuel d1) (\<lambda>(valuei, d2).
             case valuei of
               None \<Rightarrow> Inl (SyntaxError (d_offset d1) ''dict elem missing value'')
             | Some v \<Rightarrow> parseDictInterface fuel (Some key) (dict @ [(key, v)]) d2)
       | Some _ \<Rightarrow> Inl (SyntaxError (d_offset d1) ''non-string key in a dict''))"
| "parseListInterface 0 vs d = Inl OutOfFuel"
| "parseListInterface (Suc fuel) vs d =
     andThen (parseValueInterface fuel d) (\<lambda>(valuei, d').
       case valuei of None \<Rightarrow> Inr (vs, d') | Some v \<Rightarrow> parseListInterface fuel (vs @ [v]) d')"

text \<open>\<open>Decode\<close> into an untyped destination: an end marker leaves nothing to store.\<close>

definition DecodeValue :: "bdecoder \<Rightarrow> (bencodeError, bvalue \<times> bdecoder) result" where
  "DecodeValue d =
     andThen (parseValueInterface (2 * length (d_rest d) + 1) d) (\<lambda>(r, d').
       case r of None \<Rightarrow> Inl ErrNilValue | Some v \<Rightarrow> Inr (v, d'))"

definition newDecoder :: "string \<Rightarrow> bdecoder" where
  "newDecoder input = \<lparr>d_rest = input, d_offset = 0, d_maxStrLen = 0\<rparr>"

definition Unmarshal :: "string \<Rightarrow> (bencodeError, bvalue) result" where
  "Unmarshal input =
     andThen (DecodeValue (newDecoder input)) (\<lambda>(v, d).
       if d_rest d \<noteq> [] then Inl (ErrUnusedTrailingBytes (length (d_rest d))) else Inr v)"

text \<open>\<open>readOneValue\<close> copies one value to the buffer without interpreting it; \<open>readValues\<close> is its loop
  over the elements of a list or dictionary.\<close>

definition copyString :: "char \<Rightarrow> bdecoder \<Rightarrow> (bencodeError, string \<times> bdecoder) result" where
  "copyString b d =
     andThen (readUntil (CHR '':'') d) (\<lambda>(s, d').
       case ParseInt (b # s) of
         Inl _ \<Rightarrow> Inl (SyntaxError (d_offset d' - 1) ''string length'')
       | Inr n \<Rightarrow>
           if length (d_rest d') < nat n then Inl (SyntaxError (d_offset d' + int (length (d_rest d'))) ''unexpected EOF'')
           else Inr (b # s @ '':'' @ take (nat n) (d_rest d'), advance (nat n) d'))"

fun readOneValue :: "nat \<Rightarrow> bdecoder \<Rightarrow> (bencodeError, string option \<times> bdecoder) result"
  and readValues :: "nat \<Rightarrow> string \<Rightarrow> bdecoder \<Rightarrow> (bencodeError, string \<times> bdecoder) result" where
  "readOneValue 0 d = Inl OutOfFuel"
| "readOneValue (Suc fuel) d =
     (case d_rest d of
        [] \<Rightarrow> Inl ErrUnexpectedEOF
      | b # _ \<Rightarrow>
         if b = CHR ''e'' then Inr (None, d)
         else let d' = advance 1 d in
           if b = CHR ''d'' \<or> b = CHR ''l'' then
             andThen (readValues fuel [] d') (\<lambda>(s, d''). Inr (Some (b # s @ [hd (d_rest d'')]), advance 1 d''))
           else if b = CHR ''i'' then andThen (readUntil (CHR ''e'') d') (\<lambda>(s, d''). Inr (Some (b # s @ ''e''), d''))
           else if isDigit b then andThen (copyString b d') (\<lambda>(s, d''). Inr (Some s, d''))
           else Inl (SyntaxError (d_offset d' - 1) ''unknown value type''))"
| "readValues 0 buf d = Inl OutOfFuel"
| "readValues (Suc fuel) buf d =
     andThen (readOneValue fuel d) (\<lambda>(r, d').
       case r of None \<Rightarrow> Inr (buf, d') | Some s \<Rightarrow> readValues fuel (buf @ s) d')"

section \<open>Decimal text\<close>

definition decVal :: "string \<Rightarrow> int" where
  "decVal ds = fold (\<lambda>c n. n * 10 + digitVal c) ds 0"

lemma digitVal_bounds: "isDigit c \<Longrightarrow> 0 \<le> digitVal c \<and> digitVal c \<le> 9"
  by (simp add: isDigit_def digitVal_def)

lemma decVal_snoc [simp]: "decVal (ds @ [c]) = decVal ds * 10 + digitVal c" "decVal [] = 0"
  by (simp_all add: decVal_def)

lemma decVal_nonneg: "list_all isDigit ds \<Longrightarrow> 0 \<le> decVal ds"
  by (induction ds rule: rev_induct) (use digitVal_bounds in \<open>force simp: list_all_append\<close>)+

lemma decVal_decimal: "decVal (decimal n) = int n" "list_all isDigit (decimal n)" "decimal n \<noteq> []"
proof -
  have d: "digitVal (char_of (48 + k)) = int k" "isDigit (char_of (48 + k))" if "k < 10" for k
    using that by (simp_all add: digitVal_def isDigit_def)
  show "decVal (decimal n) = int n"
  proof (induction n rule: decimal.induct)
    case (1 n)
    show ?case
    proof (cases "n < 10")
      case True
      then have "decimal n = [] @ [char_of (48 + n)]" by (simp add: decimal.simps)
      then show ?thesis using decVal_snoc(1)[of "[]" "char_of (48 + n)"] d(1)[OF True] by simp
    next
      case False
      then have "decimal n = decimal (n div 10) @ [char_of (48 + n mod 10)]" by (subst decimal.simps) simp
      moreover have "int (n div 10) * 10 + int (n mod 10) = int (n div 10 * 10 + n mod 10)"
        by (simp only: of_nat_add of_nat_mult of_nat_numeral)
      ultimately show ?thesis using 1[OF False] d(1)[of "n mod 10"] by (simp only: decVal_snoc div_mult_mod_eq)
    qed
  qed
  show "list_all isDigit (decimal n)" "decimal n \<noteq> []"
    using decimal_digits[of _ n] by (auto simp: list_all_iff isDigit_def decimal.simps[of n])
qed

text \<open>Digits without a leading zero are the decimal text of their value.\<close>

definition canonicalDigits :: "string \<Rightarrow> bool" where
  "canonicalDigits ds \<longleftrightarrow> ds \<noteq> [] \<and> list_all isDigit ds \<and> (length ds \<le> 1 \<or> hd ds \<noteq> CHR ''0'')"

lemma digit_zero: "isDigit c \<Longrightarrow> digitVal c = 0 \<longleftrightarrow> c = CHR ''0''"
proof
  assume "isDigit c" "digitVal c = 0"
  then have "codeOf c = 48" by (simp add: digitVal_def)
  then have "c = char_of (48 :: nat)" by (metis char_of_char)
  also have "\<dots> = CHR ''0''" by code_simp
  finally show "c = CHR ''0''" .
qed (simp add: digitVal_def)

lemma decVal_pos: "list_all isDigit ds \<Longrightarrow> ds \<noteq> [] \<Longrightarrow> hd ds \<noteq> CHR ''0'' \<Longrightarrow> 0 < decVal ds"
proof (induction ds rule: rev_induct)
  case (snoc c ds)
  show ?case
  proof (cases "ds = []")
    case True
    then show ?thesis using snoc.prems digitVal_bounds[of c] digit_zero[of c] decVal_snoc(1)[of "[]" c] by simp
  next
    case False
    then show ?thesis using snoc digitVal_bounds[of c] by simp
  qed
qed simp

lemma canonical_decimal: "canonicalDigits ds \<Longrightarrow> ds = decimal (nat (decVal ds))"
proof (induction ds rule: rev_induct)
  case (snoc c ds)
  have dc: "isDigit c" using snoc.prems by (auto simp: canonicalDigits_def)
  then have "48 + nat (digitVal c) = codeOf c" unfolding digitVal_def isDigit_def by arith
  then have c: "isDigit c" "0 \<le> digitVal c" "digitVal c \<le> 9" "char_of (48 + nat (digitVal c)) = c"
    using dc digitVal_bounds[of c] by simp_all
  show ?case
  proof (cases "ds = []")
    case True
    then show ?thesis using c decVal_snoc(1)[of "[]" c] by (simp add: decimal.simps)
  next
    case False
    then have p: "0 < decVal ds" and can: "canonicalDigits ds"
      using snoc.prems decVal_pos[of ds] by (auto simp: canonicalDigits_def)
    have "nat (decVal (ds @ [c])) = nat (decVal ds) * 10 + nat (digitVal c)" using p c by (simp add: nat_add_distrib nat_mult_distrib)
    then have "nat (decVal (ds @ [c])) div 10 = nat (decVal ds)" "nat (decVal (ds @ [c])) mod 10 = nat (digitVal c)"
      using c by (simp_all del: decVal_snoc)
    moreover have "\<not> nat (decVal (ds @ [c])) < 10" using p c by simp
    ultimately show ?thesis using snoc.IH[OF can] c(4) by (subst decimal.simps) simp
  qed
qed (simp add: canonicalDigits_def)

lemma decimal_canonical: "canonicalDigits (decimal n)"
proof (induction n rule: decimal.induct)
  case (1 n)
  show ?case
  proof (cases "n < 10")
    case True
    then show ?thesis using decVal_decimal(2)[of n] by (simp add: canonicalDigits_def decimal.simps)
  next
    case False
    then have e: "decimal n = decimal (n div 10) @ [char_of (48 + n mod 10)]" by (subst decimal.simps) simp
    have "hd (decimal (n div 10)) \<noteq> CHR ''0''"
    proof (cases "length (decimal (n div 10)) \<le> 1")
      case True
      then obtain x where x: "decimal (n div 10) = [] @ [x]" using decVal_decimal(3)[of "n div 10"] by (cases "decimal (n div 10)") auto
      have "decVal ([] @ [x]) = int (n div 10)" using decVal_decimal(1)[of "n div 10"] x by simp
      then have "digitVal x = int (n div 10)" unfolding decVal_snoc by simp
      then have "digitVal x \<noteq> 0" using False by simp
      then show ?thesis using x by (auto simp: digitVal_def)
    next
      case long: False
      then show ?thesis using 1[OF False] by (simp add: canonicalDigits_def)
    qed
    then show ?thesis using decVal_decimal(2,3)[of n] decVal_decimal(3)[of "n div 10"] e by (simp add: canonicalDigits_def)
  qed
qed

section \<open>Reading numbers\<close>

lemma fold_digits_ge: "list_all isDigit ds \<Longrightarrow> 0 \<le> n \<Longrightarrow> n \<le> fold (\<lambda>c n. n * 10 + digitVal c) ds n"
proof (induction ds arbitrary: n)
  case (Cons c ds)
  then have "n \<le> n * 10 + digitVal c" using digitVal_bounds[of c] by simp
  then show ?case using Cons.IH[of "n * 10 + digitVal c"] Cons.prems by simp
qed simp

lemma parseUint_digits:
  "list_all isDigit ds \<Longrightarrow> 0 \<le> n \<Longrightarrow> n \<le> 18446744073709551615 \<Longrightarrow>
   parseUint n ds = (if fold (\<lambda>c n. n * 10 + digitVal c) ds n \<le> 18446744073709551615
     then Inr (fold (\<lambda>c n. n * 10 + digitVal c) ds n) else Inl ErrRange)"
proof (induction ds arbitrary: n)
  case (Cons c ds)
  have c: "isDigit c" "0 \<le> digitVal c" using Cons.prems(1) digitVal_bounds[of c] by simp_all
  have ge: "n * 10 + digitVal c \<le> fold (\<lambda>c n. n * 10 + digitVal c) ds (n * 10 + digitVal c)"
    using Cons.prems c by (intro fold_digits_ge) simp_all
  show ?case
  proof (cases "n * 10 + digitVal c \<le> 18446744073709551615")
    case True
    then have "n < 1844674407370955162" using c by simp
    then show ?thesis using Cons.IH[of "n * 10 + digitVal c"] Cons.prems c True by simp
  next
    case False
    then show ?thesis using ge c by simp
  qed
qed simp

lemma parseUint_Inr: "parseUint n ds = Inr m \<Longrightarrow> list_all isDigit ds"
  by (induction n ds rule: parseUint.induct) (auto split: if_splits)

text \<open>What the untyped reader makes of the text of an integer.\<close>

definition readNumber :: "string \<Rightarrow> int option" where
  "readNumber b = (case ParseInt b of Inl ErrRange \<Rightarrow> bigSetString b | Inl ErrSyntax \<Rightarrow> None | Inr n \<Rightarrow> Some n)"

lemma readNumber_digits:
  "readNumber b = (if unsignedPart b \<noteq> [] \<and> list_all isDigit (unsignedPart b)
     then Some (if isNegative b then - decVal (unsignedPart b) else decVal (unsignedPart b)) else None)"
proof (cases "unsignedPart b \<noteq> [] \<and> list_all isDigit (unsignedPart b)")
  case True
  then have "ParseUint (unsignedPart b) = (if decVal (unsignedPart b) \<le> 18446744073709551615
      then Inr (decVal (unsignedPart b)) else Inl ErrRange)"
    using parseUint_digits[of "unsignedPart b" 0] by (simp add: ParseUint_def decVal_def)
  moreover have "bigSetString b = Some (if isNegative b then - decVal (unsignedPart b) else decVal (unsignedPart b))"
    using True by (simp add: bigSetString_def Let_def decVal_def)
  ultimately show ?thesis using True by (auto simp: readNumber_def ParseInt_def)
next
  case False
  then have "bigSetString b = None" by (auto simp: bigSetString_def Let_def)
  moreover have "ParseUint (unsignedPart b) \<noteq> Inr m" for m
    using False parseUint_Inr[of 0 "unsignedPart b" m] by (auto simp: ParseUint_def)
  ultimately show ?thesis
    unfolding readNumber_def ParseInt_def using False
    by (cases "ParseUint (unsignedPart b)") (auto split: numError.split)
qed

lemma digit_not_sign: "isDigit c \<Longrightarrow> c \<noteq> CHR ''-'' \<and> c \<noteq> CHR ''+''"
  by (auto simp: isDigit_def)

lemma sign_digits:
  "canonicalDigits ds \<Longrightarrow> unsignedPart ds = ds \<and> \<not> isNegative ds"
  "unsignedPart (CHR ''-'' # ds) = ds" "isNegative (CHR ''-'' # ds)"
  using digit_not_sign[of "hd ds"] by (cases ds; simp add: unsignedPart_def isNegative_def canonicalDigits_def)+

lemma leading_digit: "isDigit c \<Longrightarrow> c \<noteq> CHR ''0'' \<longleftrightarrow> 49 \<le> codeOf c \<and> codeOf c \<le> 57"
  using digit_zero[of c] by (auto simp: isDigit_def digitVal_def)

lemma intText_read: "readNumber (intText n) = Some n" "checkBufferedInt (intText n)"
proof -
  define ds where "ds = decimal (nat \<bar>n\<bar>)"
  have can: "canonicalDigits ds" and v: "decVal ds = \<bar>n\<bar>" using decimal_canonical decVal_decimal(1) by (simp_all add: ds_def)
  have t: "intText n = (if n < 0 then CHR ''-'' # ds else ds)" by (auto simp: intText_def ds_def)
  show "readNumber (intText n) = Some n"
    using can v sign_digits[of ds] unfolding readNumber_digits t by (auto simp: canonicalDigits_def)
  have hd: "hd ds \<noteq> CHR ''0''" if "n < 0"
  proof (cases ds)
    case (Cons c cs)
    then show ?thesis
    proof (cases "cs = []")
      case True
      then have "digitVal c = \<bar>n\<bar>" using v Cons decVal_snoc(1)[of "[]" c] by simp
      then show ?thesis using that Cons by (auto simp: digitVal_def)
    qed (use can Cons in \<open>auto simp: canonicalDigits_def\<close>)
  qed (use can in \<open>simp add: canonicalDigits_def\<close>)
  have d: "isDigit (hd ds)" "ds \<noteq> []" using can by (cases ds; simp add: canonicalDigits_def)+
  show "checkBufferedInt (intText n)"
  proof (cases "n < 0")
    case True
    then show ?thesis using hd d leading_digit[of "hd ds"] by (simp add: t checkBufferedInt_def)
  next
    case False
    then show ?thesis
      using can d leading_digit[of "hd ds"] digit_not_sign[of "hd ds"] by (auto simp: t checkBufferedInt_def canonicalDigits_def)
  qed
qed

lemma number_canonical:
  assumes "readNumber b = Some n" "checkBufferedInt b"
  shows "b = intText n"
proof -
  let ?u = "unsignedPart b"
  have u: "?u \<noteq> []" "list_all isDigit ?u" and n: "n = (if isNegative b then - decVal ?u else decVal ?u)"
    using assms(1) by (auto simp: readNumber_digits split: if_splits)
  obtain c cs where b: "b = c # cs" using u(1) by (cases b) (simp_all add: unsignedPart_def)
  have dc: "isDigit (hd ?u)" using u by (cases ?u) simp_all
  consider (minus) "c = CHR ''-''" "?u = cs" | (plus) "c = CHR ''+''" "?u = cs" | (digit) "?u = b" "isDigit c" "c \<noteq> CHR ''-''"
    using b u digit_not_sign[of c] by (auto simp: unsignedPart_def split: if_splits)
  then show ?thesis
  proof cases
    case minus
    then have "hd ?u \<noteq> CHR ''0''" using assms(2) b u(1) leading_digit[OF dc] by (cases cs) (auto simp: checkBufferedInt_def)
    then have "canonicalDigits ?u" "0 < decVal ?u" using u decVal_pos[of ?u] by (auto simp: canonicalDigits_def)
    then show ?thesis using n minus b canonical_decimal[of ?u] by (simp add: intText_def isNegative_def)
  next
    case plus
    then have "\<not> checkBufferedInt b" using b u(1) by (cases cs) (auto simp: checkBufferedInt_def)
    then show ?thesis using assms(2) by simp
  next
    case digit
    then have "canonicalDigits ?u"
      using u assms(2) b leading_digit[OF dc] by (auto simp: canonicalDigits_def checkBufferedInt_def)
    moreover have "\<not> isNegative b" using digit b by (simp add: isNegative_def)
    ultimately show ?thesis using n digit canonical_decimal[of ?u] decVal_nonneg[OF u(2)] by (simp add: intText_def)
  qed
qed

lemma parse_length:
  assumes "0 \<le> n" "n \<le> MaxInt64"
  shows "ParseInt (intText n) = Inr n"
proof -
  have "unsignedPart (intText n) = decimal (nat n) \<and> \<not> isNegative (intText n)"
    using assms(1) sign_digits(1)[OF decimal_canonical] by (simp add: intText_def)
  moreover have "ParseUint (decimal (nat n)) = Inr n"
    using parseUint_digits[of "decimal (nat n)" 0] decVal_decimal[of "nat n"] assms by (simp add: ParseUint_def decVal_def)
  ultimately show ?thesis using assms by (simp add: ParseInt_def)
qed

lemma ParseInt_range: "ParseInt s = Inr n \<Longrightarrow> n \<le> MaxInt64 \<or> isNegative s"
  by (auto simp: ParseInt_def andThen_Inr split: if_splits)

lemma length_canonical:
  assumes "ParseInt (c # s) = Inr n" "isDigit c" "checkBufferedInt (c # s)"
  shows "c # s = intText n \<and> 0 \<le> n \<and> n \<le> MaxInt64"
proof -
  have "readNumber (c # s) = Some n" using assms(1) by (simp add: readNumber_def)
  from number_canonical[OF this assms(3)] have e: "c # s = intText n" .
  moreover have "n \<le> MaxInt64" using ParseInt_range[OF assms(1)] digit_not_sign[OF assms(2)] by (auto simp: isNegative_def)
  ultimately show ?thesis using digit_not_sign[OF assms(2)] by (auto simp: intText_def split: if_splits)
qed

section \<open>Text of values\<close>

lemma writeString_id [simp]: "writeString s = s"
proof (induction s rule: writeString.induct)
  case (1 s)
  then show ?case by (subst writeString.simps) simp
qed

text \<open>The text of a value whose dictionaries are written in the order they have.\<close>

primrec plain :: "bvalue \<Rightarrow> string" where
  "plain (BInt n) = ''i'' @ intText n @ ''e''"
| "plain (BStr s) = reflectString s"
| "plain (BList vs) = ''l'' @ concat (map plain vs) @ ''e''"
| "plain (BDict kvs) = ''d'' @ concat (map (\<lambda>(key, text). reflectString key @ text) (map (map_prod id plain) kvs)) @ ''e''"

text \<open>The same value with every dictionary sorted by key.\<close>

primrec canon :: "bvalue \<Rightarrow> bvalue" where
  "canon (BInt n) = BInt n"
| "canon (BStr s) = BStr s"
| "canon (BList vs) = BList (map canon vs)"
| "canon (BDict kvs) = BDict (sort_key fst (map (map_prod id canon) kvs))"

lemma sort_key_map: "(\<And>x. x \<in> set xs \<Longrightarrow> g (f x) = h x) \<Longrightarrow> sort_key g (map f xs) = map f (sort_key h xs)"
proof (induction xs)
  case (Cons x xs)
  have ins: "insort_key g (f x) (map f ys) = map f (insort_key h x ys)" if "\<forall>y\<in>set (x # ys). g (f y) = h y" for ys
    using that by (induction ys) auto
  show ?case using Cons by (auto intro: ins)
qed simp

lemma reflectValue_plain: "reflectValue v = plain (canon v)"
proof (induction v)
  case (BList vs)
  then show ?case by (simp cong: map_cong)
next
  case (BDict kvs)
  have "map (map_prod id reflectValue) kvs = map (map_prod id plain) (map (map_prod id canon) kvs)"
    using BDict by (auto simp: map_prod_def)
  moreover have "sort_key fst (map (map_prod id plain) (map (map_prod id canon) kvs))
      = map (map_prod id plain) (sort_key fst (map (map_prod id canon) kvs))"
    by (rule sort_key_map) auto
  ultimately show ?case by (simp only: reflectValue.simps canon.simps plain.simps)
qed (simp_all add: reflectInt_def)

text \<open>Strings of at most \<open>n\<close> bytes, and within the reader's default limit; dictionaries as Go maps have
  them, with every key once; and dictionaries in strictly ascending order.\<close>

primrec stringsUpTo :: "int \<Rightarrow> bvalue \<Rightarrow> bool" where
  "stringsUpTo n (BInt i) = True"
| "stringsUpTo n (BStr s) = (int (length s) \<le> n)"
| "stringsUpTo n (BList vs) = list_all (stringsUpTo n) vs"
| "stringsUpTo n (BDict kvs) = (list_all (\<lambda>(k, ok). int (length k) \<le> n \<and> ok) (map (map_prod id (stringsUpTo n)) kvs))"

abbreviation shortStrings :: "bvalue \<Rightarrow> bool" where
  "shortStrings \<equiv> stringsUpTo DefaultDecodeMaxStrLen"

lemma stringsUpTo_mono: "stringsUpTo n v \<Longrightarrow> n \<le> m \<Longrightarrow> stringsUpTo m v"
  by (induction v) (fastforce simp: list_all_iff)+

primrec uniqueKeys :: "bvalue \<Rightarrow> bool" where
  "uniqueKeys (BInt n) = True"
| "uniqueKeys (BStr s) = True"
| "uniqueKeys (BList vs) = list_all uniqueKeys vs"
| "uniqueKeys (BDict kvs) = (distinct (map fst kvs) \<and> list_all snd (map (map_prod id uniqueKeys) kvs))"

primrec sortedKeys :: "bvalue \<Rightarrow> bool" where
  "sortedKeys (BInt n) = True"
| "sortedKeys (BStr s) = True"
| "sortedKeys (BList vs) = list_all sortedKeys vs"
| "sortedKeys (BDict kvs) = (sorted_wrt (<) (map fst kvs) \<and> list_all snd (map (map_prod id sortedKeys) kvs))"

lemma canon_sorted: "uniqueKeys v \<Longrightarrow> sortedKeys (canon v)"
proof (induction v)
  case (BDict kvs)
  let ?m = "map (map_prod id canon) kvs"
  have "map fst ?m = map fst kvs" by simp
  moreover have "mset (map fst (sort_key fst ?m)) = mset (map fst ?m)" by (simp only: mset_map mset_sort)
  ultimately have "distinct (map fst (sort_key fst ?m))"
    using BDict.prems mset_eq_imp_distinct_iff[of "map fst (sort_key fst ?m)" "map fst ?m"] by simp
  then have "sorted_wrt (<) (map fst (sort_key fst ?m))" by (simp add: strict_sorted_iff)
  moreover have "sortedKeys (canon v)" if "(k, v) \<in> set kvs" for k v
    using that BDict.IH BDict.prems by (fastforce simp: list_all_iff)
  ultimately show ?case by (auto simp: list_all_iff)
qed (auto simp: list_all_iff)

lemma canon_short: "shortStrings v \<Longrightarrow> shortStrings (canon v)"
  by (induction v) (fastforce simp: list_all_iff)+

lemma sort_key_sorted: "sorted (map f xs) \<Longrightarrow> sort_key f xs = xs"
  by (induction xs) (auto simp: insort_is_Cons)

lemma canon_id: "sortedKeys v \<Longrightarrow> canon v = v"
proof (induction v)
  case (BDict kvs)
  have "map (map_prod id canon) kvs = kvs"
    using BDict by (intro map_idI) (fastforce simp: list_all_iff)
  moreover have "sort_key fst kvs = kvs" using BDict.prems by (intro sort_key_sorted) (simp add: strict_sorted_imp_sorted)
  ultimately show ?case by simp
qed (auto simp: list_all_iff intro: map_idI)

lemma sorted_unique: "sortedKeys v \<Longrightarrow> uniqueKeys v"
  by (induction v) (fastforce simp: list_all_iff strict_sorted_iff)+

section \<open>Reading back what was written\<close>

lemma advance_simps [simp]:
  "d_rest (advance n d) = drop n (d_rest d)" "d_offset (advance n d) = d_offset d + int n"
  "d_maxStrLen (advance n d) = d_maxStrLen d" "advance n (advance m d) = advance (m + n) d" "advance 0 d = d"
  "getMaxStrLen (advance n d) = getMaxStrLen d"
  by (simp_all add: advance_def getMaxStrLen_def add.commute)

lemma readUntil_found:
  assumes "d_rest d = s @ sep # t" "sep \<notin> set s"
  shows "readUntil sep d = Inr (s, advance (length s + 1) d)"
proof -
  have "takeWhile (\<lambda>c. c \<noteq> sep) (s @ sep # t) = s" using assms(2) by (subst takeWhile_append2) auto
  then show ?thesis using assms(1) by (simp add: readUntil_def)
qed

lemma readUntil_Inr:
  assumes "readUntil sep d = Inr (s, d')"
  shows "sep \<notin> set s" "d_rest d = s @ sep # d_rest d'" "d' = advance (length s + 1) d"
proof -
  let ?s = "takeWhile (\<lambda>c. c \<noteq> sep) (d_rest d)" and ?t = "dropWhile (\<lambda>c. c \<noteq> sep) (d_rest d)"
  have s: "s = ?s" "d' = advance (length s + 1) d" "length ?s \<noteq> length (d_rest d)"
    using assms by (auto simp: readUntil_def Let_def split: if_splits)
  have st: "?s @ ?t = d_rest d" by simp
  have "?t \<noteq> []" using s(3) st by (metis append_Nil2)
  then obtain t where t: "?t = sep # t" using hd_dropWhile[of "\<lambda>c. c \<noteq> sep" "d_rest d"] by (cases ?t) auto
  have r: "d_rest d = s @ sep # t" using st s(1) t by metis
  show "sep \<notin> set s" using s(1) by (auto dest: set_takeWhileD)
  show "d' = advance (length s + 1) d" by (rule s(2))
  show "d_rest d = s @ sep # d_rest d'" using r s(2) by simp
qed

lemma intText_no: "c \<in> set (intText n) \<Longrightarrow> isDigit c \<or> c = CHR ''-''"
  using decVal_decimal(2) by (auto simp: intText_def list_all_iff split: if_splits)

lemma intText_stops: "CHR ''e'' \<notin> set (intText n)" "CHR '':'' \<notin> set (intText n)"
  by (auto dest!: intText_no simp: isDigit_def)

lemma read_int:
  assumes "d_rest d = intText n @ CHR ''e'' # t"
  shows "parseIntInterface d = Inr (n, advance (length (intText n) + 1) d)"
proof -
  have "readInt d = Inr (intText n, advance (length (intText n) + 1) d)"
    using readUntil_found[OF assms intText_stops(1)] intText_read(2) by (simp add: readInt_def)
  then show ?thesis
    using intText_read(1)[of n] by (auto simp: parseIntInterface_def readNumber_def split: sum.splits numError.splits)
qed

lemma read_int_back:
  assumes "parseIntInterface d = Inr (n, d')"
  shows "d_rest d = intText n @ CHR ''e'' # d_rest d'" "d' = advance (length (intText n) + 1) d"
proof -
  obtain b where b: "readUntil (CHR ''e'') d = Inr (b, d')" "checkBufferedInt b" "readNumber b = Some n"
    using assms by (auto simp: parseIntInterface_def readInt_def readNumber_def split: if_splits sum.splits numError.splits option.splits)
  with readUntil_Inr[OF b(1)] number_canonical[OF b(3,2)]
  show "d_rest d = intText n @ CHR ''e'' # d_rest d'" "d' = advance (length (intText n) + 1) d" by simp_all
qed

lemma reflectString_text: "reflectString s = intText (int (length s)) @ CHR '':'' # s"
  by (simp add: reflectString_def)

lemma read_string:
  assumes "c # d_rest d = reflectString s @ t" "int (length s) \<le> DefaultDecodeMaxStrLen" "getMaxStrLen d = DefaultDecodeMaxStrLen"
  shows "parseStringInterface c d = Inr (s, advance (length (reflectString s) - 1) d)"
proof -
  let ?n = "int (length s)"
  obtain l where l: "intText ?n = c # l" "d_rest d = l @ CHR '':'' # s @ t"
    using assms(1) decVal_decimal(3)[of "length s"] by (cases "intText ?n") (auto simp: reflectString_text intText_def)
  have "readUntil (CHR '':'') d = Inr (l, advance (length l + 1) d)"
    using intText_stops(2)[of ?n] l by (intro readUntil_found) auto
  then have "parseStringLength c d = Inr (?n, advance (length l + 1) d)"
    using intText_read(2)[of ?n] parse_length[of ?n] assms(2,3) l(1) by (simp add: parseStringLength_def DefaultDecodeMaxStrLen_def)
  moreover have "length (reflectString s) - 1 = length l + 1 + length s" using l(1) by (simp add: reflectString_text)
  ultimately show ?thesis using l(2) by (simp add: parseStringInterface_def readBytes_def)
qed

text \<open>The longest string a decoder accepts: its limit, and what a 64-bit length can count.\<close>

definition strLimit :: "bdecoder \<Rightarrow> int" where
  "strLimit d = min MaxInt64 (getMaxStrLen d)"

lemma strLimit_advance [simp]: "strLimit (advance n d) = strLimit d"
  by (simp add: strLimit_def)

lemma strLimit_default: "getMaxStrLen d = DefaultDecodeMaxStrLen \<Longrightarrow> strLimit d = DefaultDecodeMaxStrLen"
  by (simp add: strLimit_def DefaultDecodeMaxStrLen_def)

lemma read_string_back:
  assumes "parseStringInterface c d = Inr (s, d')" "isDigit c"
  shows "c # d_rest d = reflectString s @ d_rest d'" "d' = advance (length (reflectString s) - 1) d"
    "int (length s) \<le> strLimit d"
proof -
  obtain n d1 where n: "parseStringLength c d = Inr (n, d1)" and r: "readBytes n d1 = Inr (s, d')"
    using assms(1) by (auto simp: parseStringInterface_def)
  obtain l where l: "readUntil (CHR '':'') d = Inr (l, d1)" "checkBufferedInt (c # l)" "ParseInt (c # l) = Inr n" "n \<le> getMaxStrLen d1"
    using n by (auto simp: parseStringLength_def split: if_splits sum.splits)
  have t: "c # l = intText n" "0 \<le> n" "n \<le> MaxInt64" using length_canonical[OF l(3) assms(2) l(2)] by simp_all
  have s: "s = take (nat n) (d_rest d1)" "length s = nat n" "d' = advance (nat n) d1"
    using r by (auto simp: readBytes_def split: if_splits)
  then have "int (length s) = n" "d_rest d1 = s @ d_rest d'" using t(2) by simp_all
  then have ref: "reflectString s = (c # l) @ CHR '':'' # s" using t(1) by (simp add: reflectString_text)
  note u = readUntil_Inr[OF l(1)]
  show "c # d_rest d = reflectString s @ d_rest d'" using ref u(2) \<open>d_rest d1 = s @ d_rest d'\<close> by simp
  show "d' = advance (length (reflectString s) - 1) d" using ref u(3) s by simp
  show "int (length s) \<le> strLimit d" using l(4) u(3) t(3) \<open>int (length s) = n\<close> by (simp add: strLimit_def)
qed

definition dictText :: "string \<times> bvalue \<Rightarrow> string" where
  "dictText kv = reflectString (fst kv) @ plain (snd kv)"

lemma dictText_pair [simp]: "dictText (k, w) = reflectString k @ plain w"
  by (simp add: dictText_def)

lemma plain_dict: "plain (BDict kvs) = ''d'' @ concat (map dictText kvs) @ ''e''"
  by (simp add: dictText_def[abs_def] comp_def split_beta map_prod_def)

declare plain.simps(4) [simp del]
declare plain_dict [simp]

lemma reflectString_head: "\<exists>c l. reflectString s = c # l \<and> isDigit c"
  using decVal_decimal(2,3)[of "length s"] by (cases "decimal (length s)") (simp_all add: reflectString_text intText_def)

lemma plain_length: "\<exists>n. length (plain v) = Suc n"
proof -
  have "reflectString s \<noteq> []" for s using reflectString_head[of s] by auto
  then have "0 < length (plain v)" by (cases v) simp_all
  then show ?thesis by (rule gr0_implies_Suc)
qed

lemma digit_tag: "isDigit c \<Longrightarrow> c \<noteq> CHR ''e'' \<and> c \<noteq> CHR ''d'' \<and> c \<noteq> CHR ''l'' \<and> c \<noteq> CHR ''i''"
  by (auto simp: isDigit_def)

lemma read_end: "d_rest d = CHR ''e'' # t \<Longrightarrow> parseValueInterface (Suc fuel) d = Inr (None, advance 1 d)"
  by simp

text \<open>\<open>reads w\<close>: with enough fuel the reader returns the value at the front of the input.\<close>

definition reads :: "bvalue \<Rightarrow> bool" where
  "reads w \<longleftrightarrow> (\<forall>fuel d t. d_rest d = plain w @ t \<longrightarrow> 2 * length (d_rest d) + 1 \<le> fuel \<longrightarrow> getMaxStrLen d = DefaultDecodeMaxStrLen
     \<longrightarrow> parseValueInterface fuel d = Inr (Some w, advance (length (plain w)) d))"

lemma readsD:
  "reads w \<Longrightarrow> d_rest d = plain w @ t \<Longrightarrow> 2 * length (d_rest d) + 1 \<le> fuel \<Longrightarrow> getMaxStrLen d = DefaultDecodeMaxStrLen
   \<Longrightarrow> parseValueInterface fuel d = Inr (Some w, advance (length (plain w)) d)"
  by (simp add: reads_def)

lemma reads_string: "int (length s) \<le> DefaultDecodeMaxStrLen \<Longrightarrow> reads (BStr s)"
  unfolding reads_def
proof (intro allI impI)
  fix fuel and d :: bdecoder and t
  assume len: "int (length s) \<le> DefaultDecodeMaxStrLen" and r: "d_rest d = plain (BStr s) @ t"
    and f: "2 * length (d_rest d) + 1 \<le> fuel" and m: "getMaxStrLen d = DefaultDecodeMaxStrLen"
  obtain c l where c: "reflectString s = c # l" "isDigit c" using reflectString_head by blast
  obtain f' where f': "fuel = Suc f'" using f by (cases fuel) auto
  have "parseStringInterface c (advance 1 d) = Inr (s, advance (length (reflectString s) - 1) (advance 1 d))"
    by (rule read_string) (use r c len m in simp_all)
  then show "parseValueInterface fuel d = Inr (Some (BStr s), advance (length (plain (BStr s))) d)"
    using r c digit_tag[OF c(2)] by (simp add: f' Let_def)
qed

lemma read_list:
  assumes "\<And>w. w \<in> set ws \<Longrightarrow> reads w"
  shows "d_rest d = concat (map plain ws) @ CHR ''e'' # t \<Longrightarrow> 2 * length (d_rest d) + 2 \<le> fuel \<Longrightarrow> getMaxStrLen d = DefaultDecodeMaxStrLen
    \<Longrightarrow> parseListInterface fuel vs d = Inr (vs @ ws, advance (length (concat (map plain ws)) + 1) d)"
  using assms
proof (induction ws arbitrary: d fuel vs)
  case Nil
  obtain f where f: "fuel = Suc (Suc f)" using Nil(2) by (cases fuel; cases "fuel - 1") auto
  show ?case using read_end[of d t f] Nil(1) by (simp add: f)
next
  case (Cons w ws)
  obtain f where f: "fuel = Suc f" using Cons.prems(2) by (cases fuel) auto
  obtain n where n: "length (plain w) = Suc n" using plain_length by blast
  have v: "parseValueInterface f d = Inr (Some w, advance (length (plain w)) d)"
    using Cons.prems f by (intro readsD[of w d "concat (map plain ws) @ CHR ''e'' # t"]) simp_all
  have "parseListInterface f (vs @ [w]) (advance (length (plain w)) d)
      = Inr ((vs @ [w]) @ ws, advance (length (concat (map plain ws)) + 1) (advance (length (plain w)) d))"
    using Cons.prems f n by (intro Cons.IH) simp_all
  then show ?case using v by (simp add: f add.assoc)
qed

lemma read_dict:
  assumes "\<And>k w. (k, w) \<in> set ws \<Longrightarrow> reads w \<and> int (length k) \<le> DefaultDecodeMaxStrLen"
  shows "d_rest d = concat (map dictText ws) @ CHR ''e'' # t \<Longrightarrow> 2 * length (d_rest d) + 2 \<le> fuel \<Longrightarrow> getMaxStrLen d = DefaultDecodeMaxStrLen
    \<Longrightarrow> sorted_wrt (<) (map fst ws) \<Longrightarrow> (\<forall>l k. lk = Some l \<longrightarrow> k \<in> fst ` set ws \<longrightarrow> l < k)
    \<Longrightarrow> parseDictInterface fuel lk vs d = Inr (vs @ ws, advance (length (concat (map dictText ws)) + 1) d)"
  using assms
proof (induction ws arbitrary: d fuel vs lk)
  case Nil
  obtain f where f: "fuel = Suc (Suc f)" using Nil(2) by (cases fuel; cases "fuel - 1") auto
  show ?case using read_end[of d t f] Nil(1) by (simp add: f)
next
  case (Cons kw ws)
  obtain k w where kw: "kw = (k, w)" by (rule prod.exhaust)
  obtain f where f: "fuel = Suc f" using Cons.prems(2) by (cases fuel) auto
  obtain n where n: "length (plain w) = Suc n" using plain_length by blast
  let ?d1 = "advance (length (reflectString k)) d" and ?t = "concat (map dictText ws) @ CHR ''e'' # t"
  have rest: "d_rest d = reflectString k @ plain w @ ?t" using Cons.prems(1) by (simp add: kw)
  have key: "parseValueInterface f d = Inr (Some (BStr k), ?d1)"
    using readsD[OF reads_string[of k], of d "plain w @ ?t" f] rest Cons.prems(2,3) Cons.prems(6)[of k w] f kw by simp
  have val: "parseValueInterface f ?d1 = Inr (Some w, advance (length (plain w)) ?d1)"
    using rest Cons.prems(2,3) Cons.prems(6)[of k w] f kw by (intro readsD[of w ?d1 ?t]) simp_all
  have order: "\<not> (case lk of None \<Rightarrow> False | Some l \<Rightarrow> k \<le> l)"
    using Cons.prems(5) kw by (auto split: option.splits simp: not_le)
  have "parseDictInterface f (Some k) (vs @ [(k, w)]) (advance (length (plain w)) ?d1)
      = Inr ((vs @ [(k, w)]) @ ws, advance (length (concat (map dictText ws)) + 1) (advance (length (plain w)) ?d1))"
    using rest Cons.prems f kw n by (intro Cons.IH) auto
  then show ?case using key val order by (simp add: f kw add.assoc)
qed

lemma reads_all: "shortStrings w \<Longrightarrow> sortedKeys w \<Longrightarrow> reads w"
proof (induction w)
  case (BInt n)
  show ?case unfolding reads_def
  proof (intro allI impI)
    fix fuel and d :: bdecoder and t
    assume r: "d_rest d = plain (BInt n) @ t" and f: "2 * length (d_rest d) + 1 \<le> fuel"
    obtain f' where f': "fuel = Suc f'" using f by (cases fuel) auto
    have "parseIntInterface (advance 1 d) = Inr (n, advance (length (intText n) + 1) (advance 1 d))"
      by (rule read_int[where t = t]) (use r in simp)
    then show "parseValueInterface fuel d = Inr (Some (BInt n), advance (length (plain (BInt n))) d)"
      using r by (simp add: f' Let_def)
  qed
next
  case (BStr s)
  then show ?case by (intro reads_string) simp
next
  case (BList ws)
  have ws: "reads w" if "w \<in> set ws" for w using that BList by (simp add: list_all_iff)
  show ?case unfolding reads_def
  proof (intro allI impI)
    fix fuel and d :: bdecoder and t
    assume r: "d_rest d = plain (BList ws) @ t" and f: "2 * length (d_rest d) + 1 \<le> fuel" and m: "getMaxStrLen d = DefaultDecodeMaxStrLen"
    obtain f' where f': "fuel = Suc f'" using f by (cases fuel) auto
    have "parseListInterface f' [] (advance 1 d) = Inr ([] @ ws, advance (length (concat (map plain ws)) + 1) (advance 1 d))"
      by (rule read_list[OF ws, where t = t]) (use r f f' m in simp_all)
    then show "parseValueInterface fuel d = Inr (Some (BList ws), advance (length (plain (BList ws))) d)"
      using r by (simp add: f' Let_def)
  qed
next
  case (BDict ws)
  have ws: "reads w \<and> int (length k) \<le> DefaultDecodeMaxStrLen" if "(k, w) \<in> set ws" for k w
    using that BDict.IH[OF that, of w] BDict.prems by (fastforce simp: list_all_iff)
  show ?case unfolding reads_def
  proof (intro allI impI)
    fix fuel and d :: bdecoder and t
    assume r: "d_rest d = plain (BDict ws) @ t" and f: "2 * length (d_rest d) + 1 \<le> fuel" and m: "getMaxStrLen d = DefaultDecodeMaxStrLen"
    obtain f' where f': "fuel = Suc f'" using f by (cases fuel) auto
    have "parseDictInterface f' None [] (advance 1 d) = Inr ([] @ ws, advance (length (concat (map dictText ws)) + 1) (advance 1 d))"
      by (rule read_dict[OF ws, where t = t]) (use r f f' m BDict.prems in simp_all)
    then show "parseValueInterface fuel d = Inr (Some (BDict ws), advance (length (plain (BDict ws))) d)"
      using r by (simp add: f' Let_def)
  qed
qed

section \<open>What is read is canonical\<close>

text \<open>What the three readers promise when they succeed, at one amount of fuel.\<close>

definition valueAt :: "bdecoder \<Rightarrow> bvalue option \<Rightarrow> bdecoder \<Rightarrow> bool" where
  "valueAt d r d' = (case r of
     None \<Rightarrow> (\<exists>t. d_rest d = CHR ''e'' # t) \<and> d' = advance 1 d
   | Some v \<Rightarrow> (\<exists>t. d_rest d = plain v @ t) \<and> d' = advance (length (plain v)) d \<and> sortedKeys v
       \<and> stringsUpTo (strLimit d) v)"

definition listAt :: "bdecoder \<Rightarrow> bvalue list \<Rightarrow> bdecoder \<Rightarrow> bool" where
  "listAt d ws d' \<longleftrightarrow> (\<exists>t. d_rest d = concat (map plain ws) @ CHR ''e'' # t) \<and> d' = advance (length (concat (map plain ws)) + 1) d
     \<and> list_all sortedKeys ws \<and> list_all (stringsUpTo (strLimit d)) ws"

definition dictAt :: "bdecoder \<Rightarrow> string option \<Rightarrow> (string \<times> bvalue) list \<Rightarrow> bdecoder \<Rightarrow> bool" where
  "dictAt d lk ws d' \<longleftrightarrow> (\<exists>t. d_rest d = concat (map dictText ws) @ CHR ''e'' # t) \<and> d' = advance (length (concat (map dictText ws)) + 1) d
     \<and> sorted_wrt (<) (map fst ws) \<and> (\<forall>l. lk = Some l \<longrightarrow> (\<forall>k\<in>fst ` set ws. l < k))
     \<and> (\<forall>(k, v)\<in>set ws. sortedKeys v \<and> stringsUpTo (strLimit d) v \<and> int (length k) \<le> strLimit d)"

definition readerOk :: "nat \<Rightarrow> bool" where
  "readerOk fuel \<longleftrightarrow>
     (\<forall>d r d'. parseValueInterface fuel d = Inr (r, d') \<longrightarrow> valueAt d r d')
     \<and> (\<forall>vs d us d'. parseListInterface fuel vs d = Inr (us, d') \<longrightarrow> (\<exists>ws. us = vs @ ws \<and> listAt d ws d'))
     \<and> (\<forall>lk vs d us d'. parseDictInterface fuel lk vs d = Inr (us, d') \<longrightarrow> (\<exists>ws. us = vs @ ws \<and> dictAt d lk ws d'))"

lemma readerOkD:
  assumes "readerOk fuel"
  shows "parseValueInterface fuel d = Inr (r, d') \<Longrightarrow> valueAt d r d'"
    "parseListInterface fuel vs d = Inr (us, d') \<Longrightarrow> \<exists>ws. us = vs @ ws \<and> listAt d ws d'"
    "parseDictInterface fuel lk es d = Inr (fs, d') \<Longrightarrow> \<exists>ws. fs = es @ ws \<and> dictAt d lk ws d'"
  using assms unfolding readerOk_def by blast+

lemma valueAt_atoms:
  "parseIntInterface (advance 1 d) = Inr (n, d') \<Longrightarrow> d_rest d = CHR ''i'' # t \<Longrightarrow> valueAt d (Some (BInt n)) d'"
  "parseStringInterface c (advance 1 d) = Inr (s, d') \<Longrightarrow> d_rest d = c # t \<Longrightarrow> isDigit c \<Longrightarrow> valueAt d (Some (BStr s)) d'"
proof -
  assume "parseIntInterface (advance 1 d) = Inr (n, d')" "d_rest d = CHR ''i'' # t"
  then show "valueAt d (Some (BInt n)) d'" using read_int_back[of "advance 1 d" n d'] by (auto simp: valueAt_def)
next
  assume p: "parseStringInterface c (advance 1 d) = Inr (s, d')" "d_rest d = c # t" "isDigit c"
  obtain x l where x: "reflectString s = x # l" using reflectString_head by blast
  show "valueAt d (Some (BStr s)) d'"
    using read_string_back[OF p(1,3)] p(2) x by (auto simp: valueAt_def)
qed

lemma value_step:
  assumes ok: "readerOk fuel" and p: "parseValueInterface (Suc fuel) d = Inr (r, d')"
  shows "valueAt d r d'"
proof -
  obtain b t where b: "d_rest d = b # t" using p by (cases "d_rest d") auto
  consider (fin) "b = CHR ''e''" "r = None" "d' = advance 1 d"
    | (dict) kvs where "b = CHR ''d''" "parseDictInterface fuel None [] (advance 1 d) = Inr (kvs, d')" "r = Some (BDict kvs)"
    | (list) vs where "b = CHR ''l''" "parseListInterface fuel [] (advance 1 d) = Inr (vs, d')" "r = Some (BList vs)"
    | (int) n where "b = CHR ''i''" "parseIntInterface (advance 1 d) = Inr (n, d')" "r = Some (BInt n)"
    | (str) s where "isDigit b" "parseStringInterface b (advance 1 d) = Inr (s, d')" "r = Some (BStr s)"
    using p b by (auto simp: Let_def split: if_splits)
  then show ?thesis
  proof cases
    case fin
    then show ?thesis using b by (simp add: valueAt_def)
  next
    case dict
    then have "dictAt (advance 1 d) None kvs d'" using readerOkD(3)[OF ok dict(2)] by simp
    then show ?thesis using dict b by (auto simp: valueAt_def dictAt_def list_all_iff)
  next
    case list
    then have "listAt (advance 1 d) vs d'" using readerOkD(2)[OF ok list(2)] by simp
    then show ?thesis using list b by (auto simp: valueAt_def listAt_def)
  next
    case int
    then show ?thesis using valueAt_atoms(1)[of d n d' t] b by simp
  next
    case str
    then show ?thesis using valueAt_atoms(2)[of b d s d' t] b by simp
  qed
qed

lemma list_step:
  assumes ok: "readerOk fuel" and p: "parseListInterface (Suc fuel) vs d = Inr (us, d')"
  shows "\<exists>ws. us = vs @ ws \<and> listAt d ws d'"
proof -
  obtain r d1 where v: "parseValueInterface fuel d = Inr (r, d1)" using p by auto
  note at = readerOkD(1)[OF ok v]
  show ?thesis
  proof (cases r)
    case None
    then show ?thesis using p v at by (intro exI[of _ "[]"]) (simp add: valueAt_def listAt_def)
  next
    case (Some w)
    then obtain ws where ws: "us = (vs @ [w]) @ ws" "listAt d1 ws d'"
      using p v readerOkD(2)[OF ok, of "vs @ [w]" d1 us d'] by auto
    then have "listAt d (w # ws) d'" using Some at by (auto simp: valueAt_def listAt_def add.assoc)
    then show ?thesis using ws(1) by (intro exI[of _ "w # ws"]) simp
  qed
qed

lemma dict_step:
  assumes ok: "readerOk fuel" and p: "parseDictInterface (Suc fuel) lk vs d = Inr (us, d')"
  shows "\<exists>ws. us = vs @ ws \<and> dictAt d lk ws d'"
proof -
  obtain r d1 where v: "parseValueInterface fuel d = Inr (r, d1)" using p by auto
  note at = readerOkD(1)[OF ok v]
  show ?thesis
  proof (cases r)
    case None
    then show ?thesis using p v at by (intro exI[of _ "[]"]) (simp add: valueAt_def dictAt_def)
  next
    case (Some kv)
    then obtain k where k: "r = Some (BStr k)" using p v by (cases kv) auto
    have order: "\<forall>l. lk = Some l \<longrightarrow> l < k" using p v k by (auto split: if_splits option.splits)
    obtain x d2 where x: "parseValueInterface fuel d1 = Inr (x, d2)" using p v k by (auto split: if_splits)
    obtain w where w: "x = Some w" using p v k x by (cases x) (auto split: if_splits)
    have "parseDictInterface fuel (Some k) (vs @ [(k, w)]) d2 = Inr (us, d')" using p v k x w by (auto split: if_splits)
    then obtain ws where ws: "us = (vs @ [(k, w)]) @ ws" "dictAt d2 (Some k) ws d'"
      using readerOkD(3)[OF ok] by blast
    note at2 = readerOkD(1)[OF ok x]
    have "\<forall>l. lk = Some l \<longrightarrow> (\<forall>k'\<in>fst ` set ((k, w) # ws). l < k')"
      using order ws(2) by (auto simp: dictAt_def intro: less_trans)
    then have "dictAt d lk ((k, w) # ws) d'"
      using ws(2) at at2 k w by (auto simp: valueAt_def dictAt_def add.assoc)
    then show ?thesis using ws(1) by (intro exI[of _ "(k, w) # ws"]) simp
  qed
qed

lemma readerOk_all: "readerOk fuel"
proof (induction fuel)
  case 0
  show ?case by (simp add: readerOk_def)
next
  case (Suc fuel)
  then show ?case unfolding readerOk_def
    using value_step[OF Suc] list_step[OF Suc] dict_step[OF Suc] by blast
qed

text \<open>The readers never run out of fuel when they have two units per byte.\<close>

lemma valueAt_shorter:
  assumes "valueAt d r d'"
  shows "length (d_rest d') < length (d_rest d)"
proof (cases r)
  case None
  then show ?thesis using assms by (auto simp: valueAt_def)
next
  case (Some v)
  obtain n where "length (plain v) = Suc n" using plain_length by blast
  then show ?thesis using assms Some by (auto simp: valueAt_def)
qed

definition fuelOk :: "nat \<Rightarrow> bool" where
  "fuelOk fuel \<longleftrightarrow>
     (\<forall>d. 2 * length (d_rest d) + 1 \<le> fuel \<longrightarrow> parseValueInterface fuel d \<noteq> Inl OutOfFuel)
     \<and> (\<forall>vs d. 2 * length (d_rest d) + 2 \<le> fuel \<longrightarrow> parseListInterface fuel vs d \<noteq> Inl OutOfFuel)
     \<and> (\<forall>lk vs d. 2 * length (d_rest d) + 2 \<le> fuel \<longrightarrow> parseDictInterface fuel lk vs d \<noteq> Inl OutOfFuel)"

lemma atoms_have_fuel: "parseIntInterface d \<noteq> Inl OutOfFuel" "parseStringInterface c d \<noteq> Inl OutOfFuel"
proof -
  have u: "readUntil sep d \<noteq> Inl OutOfFuel" for sep d by (simp add: readUntil_def Let_def)
  show "parseIntInterface d \<noteq> Inl OutOfFuel"
    using u by (auto simp: parseIntInterface_def readInt_def andThen_Inl split: sum.splits numError.splits option.splits if_splits)
  show "parseStringInterface c d \<noteq> Inl OutOfFuel"
    using u by (auto simp: parseStringInterface_def parseStringLength_def readBytes_def andThen_Inl split: sum.splits if_splits)
qed

lemma value_leaves_fuel:
  "parseValueInterface fuel d = Inr (r, d') \<Longrightarrow> 2 * length (d_rest d) + 2 \<le> Suc fuel \<Longrightarrow> 2 * length (d_rest d') + 2 \<le> fuel"
  using valueAt_shorter[OF readerOkD(1)[OF readerOk_all]] by fastforce

lemma list_has_fuel:
  assumes ok: "fuelOk fuel" and f: "2 * length (d_rest d) + 2 \<le> Suc fuel"
  shows "parseListInterface (Suc fuel) vs d \<noteq> Inl OutOfFuel"
  using ok f value_leaves_fuel[of fuel d] unfolding fuelOk_def by (auto simp: andThen_Inl split: option.splits)

lemma dict_has_fuel:
  assumes ok: "fuelOk fuel" and f: "2 * length (d_rest d) + 2 \<le> Suc fuel"
  shows "parseDictInterface (Suc fuel) lk vs d \<noteq> Inl OutOfFuel"
proof -
  have val: "parseValueInterface fuel e \<noteq> Inl OutOfFuel" if "2 * length (d_rest e) + 1 \<le> fuel" for e
    using ok that by (simp add: fuelOk_def)
  have rec: "parseDictInterface fuel k es e \<noteq> Inl OutOfFuel" if "2 * length (d_rest e) + 2 \<le> fuel" for k es e
    using ok that by (simp add: fuelOk_def)
  show ?thesis
  proof (cases "parseValueInterface fuel d")
    case (Inl e)
    then show ?thesis using val[of d] f by simp
  next
    case (Inr rd)
    obtain r d1 where r: "parseValueInterface fuel d = Inr (r, d1)" using Inr by (cases rd) simp
    note f1 = value_leaves_fuel[OF r f]
    show ?thesis
    proof (cases "parseValueInterface fuel d1")
      case (Inl e)
      then show ?thesis using r val[of d1] f1 by (auto split: option.split bvalue.split)
    next
      case (Inr xd)
      obtain x d2 where x: "parseValueInterface fuel d1 = Inr (x, d2)" using Inr by (cases xd) simp
      have "2 * length (d_rest d2) + 2 \<le> fuel" using value_leaves_fuel[OF x] f1 by simp
      then show ?thesis using r x rec[of d2] by (auto split: option.split bvalue.split)
    qed
  qed
qed

lemma fuelOk_step:
  assumes ok: "fuelOk fuel"
  shows "fuelOk (Suc fuel)"
proof -
  have "parseValueInterface (Suc fuel) d \<noteq> Inl OutOfFuel" if "2 * length (d_rest d) + 1 \<le> Suc fuel" for d
    using ok that atoms_have_fuel unfolding fuelOk_def
    by (cases "d_rest d") (auto simp: Let_def andThen_Inl split: if_splits)
  with list_has_fuel[OF ok] dict_has_fuel[OF ok] show ?thesis unfolding fuelOk_def by blast
qed

lemma fuelOk_all: "fuelOk fuel"
  by (induction fuel) (simp_all add: fuelOk_def[of 0] fuelOk_step)

section \<open>Skipping a value\<close>

definition skips :: "string \<Rightarrow> bool" where
  "skips x \<longleftrightarrow> 0 < length x \<and> (\<forall>fuel d t. d_rest d = x @ t \<longrightarrow> 2 * length (d_rest d) + 1 \<le> fuel
     \<longrightarrow> readOneValue fuel d = Inr (Some x, advance (length x) d))"

lemma skipsD:
  "skips x \<Longrightarrow> d_rest d = x @ t \<Longrightarrow> 2 * length (d_rest d) + 1 \<le> fuel \<Longrightarrow> readOneValue fuel d = Inr (Some x, advance (length x) d)"
  by (simp add: skips_def)

lemma skip_values:
  "\<forall>x\<in>set xs. skips x \<Longrightarrow> d_rest d = concat xs @ CHR ''e'' # t \<Longrightarrow> 2 * length (d_rest d) + 2 \<le> fuel
   \<Longrightarrow> readValues fuel buf d = Inr (buf @ concat xs, advance (length (concat xs)) d)"
proof (induction xs arbitrary: d fuel buf)
  case Nil
  obtain f where f: "fuel = Suc (Suc f)" using Nil(3) by (cases fuel; cases "fuel - 1") auto
  show ?case using Nil(2) by (simp add: f)
next
  case (Cons x xs)
  obtain f where f: "fuel = Suc f" using Cons.prems(3) by (cases fuel) auto
  have "0 < length x" using Cons.prems(1) by (simp add: skips_def)
  then obtain n where n: "length x = Suc n" by (rule gr0_implies_Suc[THEN exE])
  have v: "readOneValue f d = Inr (Some x, advance (length x) d)"
    using Cons.prems f by (intro skipsD[of x d "concat xs @ CHR ''e'' # t"]) simp_all
  have "readValues f (buf @ x) (advance (length x) d) = Inr ((buf @ x) @ concat xs, advance (length (concat xs)) (advance (length x) d))"
    using Cons.prems f n by (intro Cons.IH) simp_all
  then show ?case using v by (simp add: f)
qed

lemma skips_string: "int (length s) \<le> MaxInt64 \<Longrightarrow> skips (reflectString s)"
  unfolding skips_def
proof (intro conjI allI impI)
  obtain c l where c: "reflectString s = c # l" "isDigit c" using reflectString_head by blast
  show "0 < length (reflectString s)" using c by simp
  fix fuel and d :: bdecoder and t
  assume len: "int (length s) \<le> MaxInt64" and r: "d_rest d = reflectString s @ t" and f: "2 * length (d_rest d) + 1 \<le> fuel"
  obtain f' where f': "fuel = Suc f'" using f by (cases fuel) auto
  let ?n = "int (length s)"
  obtain m where m: "intText ?n = c # m" "l = m @ CHR '':'' # s"
    using c(1) decVal_decimal(3)[of "length s"] by (cases "intText ?n") (auto simp: reflectString_text intText_def)
  have "readUntil (CHR '':'') (advance 1 d) = Inr (m, advance (length m + 1) (advance 1 d))"
    using intText_stops(2)[of ?n] m r c(1) by (intro readUntil_found[where t = "s @ t"]) auto
  then have "copyString c (advance 1 d) = Inr (reflectString s, advance (length l) (advance 1 d))"
    using parse_length[of ?n] len m r c(1) by (simp add: copyString_def)
  then show "readOneValue fuel d = Inr (Some (reflectString s), advance (length (reflectString s)) d)"
    using r c digit_tag[OF c(2)] by (simp add: f' Let_def)
qed

lemma skips_group:
  assumes "\<forall>x\<in>set xs. skips x" "b = CHR ''d'' \<or> b = CHR ''l''"
  shows "skips (b # concat xs @ ''e'')"
  unfolding skips_def
proof (intro conjI allI impI)
  fix fuel and d :: bdecoder and t
  assume r: "d_rest d = (b # concat xs @ ''e'') @ t" and f: "2 * length (d_rest d) + 1 \<le> fuel"
  obtain f' where f': "fuel = Suc f'" using f by (cases fuel) auto
  have "readValues f' [] (advance 1 d) = Inr ([] @ concat xs, advance (length (concat xs)) (advance 1 d))"
    by (rule skip_values[OF assms(1), where t = t]) (use r f f' in simp_all)
  then show "readOneValue fuel d = Inr (Some (b # concat xs @ ''e''), advance (length (b # concat xs @ ''e'')) d)"
    using r assms(2) by (auto simp: f' Let_def)
qed simp

lemma skips_plain: "stringsUpTo MaxInt64 w \<Longrightarrow> skips (plain w)"
proof (induction w)
  case (BInt n)
  show ?case unfolding skips_def
  proof (intro conjI allI impI)
    fix fuel and d :: bdecoder and t
    assume r: "d_rest d = plain (BInt n) @ t" and f: "2 * length (d_rest d) + 1 \<le> fuel"
    obtain f' where f': "fuel = Suc f'" using f by (cases fuel) auto
    have "readUntil (CHR ''e'') (advance 1 d) = Inr (intText n, advance (length (intText n) + 1) (advance 1 d))"
      using r by (intro readUntil_found[where t = t] intText_stops(1)) simp
    then show "readOneValue fuel d = Inr (Some (plain (BInt n)), advance (length (plain (BInt n))) d)"
      using r by (simp add: f' Let_def)
  qed simp
next
  case (BStr s)
  then show ?case using skips_string by simp
next
  case (BList ws)
  then have "\<forall>x\<in>set (map plain ws). skips x" by (auto simp: list_all_iff)
  from skips_group[OF this, of "CHR ''l''"] show ?case by simp
next
  case (BDict ws)
  let ?xs = "concat (map (\<lambda>(k, w). [reflectString k, plain w]) ws)"
  have "\<forall>x\<in>set ?xs. skips x"
  proof
    fix x assume "x \<in> set ?xs"
    then obtain k w where kw: "(k, w) \<in> set ws" "x = reflectString k \<or> x = plain w" by auto
    then show "skips x" using BDict.IH[OF kw(1), of w] BDict.prems skips_string[of k] by (fastforce simp: list_all_iff)
  qed
  moreover have "concat ?xs = concat (map dictText ws)" by (induction ws) auto
  ultimately show ?case using skips_group[of ?xs "CHR ''d''"] by simp
qed

declare parseValueInterface.simps [simp del] readOneValue.simps [simp del]

section \<open>Properties\<close>

lemma DecodeValue_back:
  assumes "DecodeValue d = Inr (v, d')"
  shows "valueAt d (Some v) d'"
  using assms readerOkD(1)[OF readerOk_all] by (auto simp: DecodeValue_def split: option.splits)

lemma Unmarshal_back:
  assumes "Unmarshal input = Inr v"
  shows "plain v = input" "sortedKeys v" "shortStrings v"
proof -
  obtain d where d: "DecodeValue (newDecoder input) = Inr (v, d)" "d_rest d = []"
    using assms by (auto simp: Unmarshal_def split: if_splits)
  have "getMaxStrLen (newDecoder input) = DefaultDecodeMaxStrLen" by (simp add: getMaxStrLen_def newDecoder_def)
  with DecodeValue_back[OF d(1)] d(2) strLimit_default show "plain v = input" "sortedKeys v" "shortStrings v"
    by (auto simp: valueAt_def newDecoder_def)
qed

lemma Unmarshal_plain:
  assumes "shortStrings w" "sortedKeys w"
  shows "Unmarshal (plain w) = Inr w"
proof -
  let ?d = "newDecoder (plain w)"
  have "parseValueInterface (2 * length (d_rest ?d) + 1) ?d = Inr (Some w, advance (length (plain w)) ?d)"
    by (rule readsD[OF reads_all[OF assms], where t = "[]"]) (simp_all add: newDecoder_def getMaxStrLen_def)
  then show ?thesis by (simp add: Unmarshal_def DecodeValue_def newDecoder_def)
qed

text \<open>The format as a contract: what is read off the front of an input.\<close>

definition readValue :: "string \<Rightarrow> (bvalue \<times> string) option" where
  "readValue bs = (case DecodeValue (newDecoder bs) of Inl _ \<Rightarrow> None | Inr (v, d) \<Rightarrow> Some (v, d_rest d))"

definition canonicalValue :: "bvalue \<Rightarrow> bool" where
  "canonicalValue v \<longleftrightarrow> shortStrings v \<and> sortedKeys v"

interpretation benc: self_delimiting Marshal readValue canonicalValue
proof
  fix v rest
  assume "canonicalValue v"
  then have v: "shortStrings v" "sortedKeys v" by (simp_all add: canonicalValue_def)
  let ?d = "newDecoder (Marshal v @ rest)"
  have p: "Marshal v = plain v" using v(2) by (simp add: Marshal_def reflectValue_plain canon_id)
  have "parseValueInterface (2 * length (d_rest ?d) + 1) ?d = Inr (Some v, advance (length (plain v)) ?d)"
    by (rule readsD[OF reads_all[OF v], where t = rest]) (simp_all add: newDecoder_def getMaxStrLen_def p)
  then show "readValue (Marshal v @ rest) = Some (v, rest)"
    by (simp add: readValue_def DecodeValue_def newDecoder_def p)
next
  fix bs v rest
  assume "readValue bs = Some (v, rest)"
  then obtain d where d: "DecodeValue (newDecoder bs) = Inr (v, d)" "rest = d_rest d"
    by (auto simp: readValue_def split: sum.splits)
  have "getMaxStrLen (newDecoder bs) = DefaultDecodeMaxStrLen" by (simp add: getMaxStrLen_def newDecoder_def)
  with DecodeValue_back[OF d(1)] d(2) strLimit_default show "canonicalValue v \<and> bs = Marshal v @ rest"
    by (auto simp: valueAt_def newDecoder_def canonicalValue_def Marshal_def reflectValue_plain canon_id)
qed

lemma Marshal_order:
  assumes "distinct (map fst kvs)" "mset kvs' = mset kvs"
  shows "Marshal (BDict kvs') = Marshal (BDict kvs)"
proof -
  let ?m = "map (map_prod id reflectValue)"
  have "map fst (?m kvs') = map fst kvs'" by simp
  moreover have "distinct (map fst kvs')"
    using assms mset_eq_imp_distinct_iff[of "map fst kvs'" "map fst kvs"] by (simp only: mset_map)
  ultimately have "inj_on fst (set (?m kvs'))" by (metis distinct_map)
  moreover have "mset (?m kvs') = mset (sort_key fst (?m kvs))" using assms(2) by (simp add: mset_map)
  moreover have "sorted (map fst (sort_key fst (?m kvs)))" by simp
  ultimately have "sort_key fst (?m kvs') = sort_key fst (?m kvs)" by (intro sort_key_inj_key_eq)
  then show ?thesis by (simp only: Marshal_def reflectValue.simps)
qed

text \<open>C23: reading gives back what was written. For every value whose strings are within the length limit,
  \<open>Unmarshal\<close> of \<open>Marshal\<close> is that value with its dictionaries in key order; and the bytes of a
  dictionary do not depend on the order in which the map iterates.\<close>

theorem bencode_roundtrip:
  assumes "shortStrings v" and "uniqueKeys v"
  shows "Unmarshal (Marshal v) = Inr (canon v) \<and> (sortedKeys v \<longrightarrow> canon v = v)
    \<and> (\<forall>kvs kvs'. v = BDict kvs \<longrightarrow> mset kvs' = mset kvs \<longrightarrow> Marshal (BDict kvs') = Marshal v)"
proof (intro conjI)
  show "Unmarshal (Marshal v) = Inr (canon v)"
    using Unmarshal_plain[OF canon_short[OF assms(1)] canon_sorted[OF assms(2)]] by (simp add: Marshal_def reflectValue_plain)
  show "sortedKeys v \<longrightarrow> canon v = v" by (simp add: canon_id)
  show "\<forall>kvs kvs'. v = BDict kvs \<longrightarrow> mset kvs' = mset kvs \<longrightarrow> Marshal (BDict kvs') = Marshal v"
    using assms(2) Marshal_order by auto
qed

theorem bencode_roundtrip_witness:
  "Unmarshal (Marshal (BDict [(''b'', BInt 7), (''a'', BList [BStr ''x''])])) = Inr (BDict [(''a'', BList [BStr ''x'']), (''b'', BInt 7)])"
proof -
  let ?v = "BDict [(''b'', BInt 7), (''a'', BList [BStr ''x''])]"
  have v: "shortStrings ?v" "uniqueKeys ?v" by (simp_all add: DefaultDecodeMaxStrLen_def)
  have "canon ?v = BDict [(''a'', BList [BStr ''x'']), (''b'', BInt 7)]" by code_simp
  with conjunct1[OF bencode_roundtrip[OF v]] show ?thesis by (rule subst[rotated])
qed

text \<open>C18: the untyped reader accepts only canonical input. It answers every input, and when it accepts
  one, writing the value it returned reproduces the input byte for byte: no leading zeros, no negative
  zero, no unsorted or repeated keys and no trailing bytes come through. No canonical value is written as the
  beginning of another.\<close>

theorem bencode_canonical:
  "Unmarshal input \<noteq> Inl OutOfFuel
   \<and> (\<forall>v. Unmarshal input = Inr v \<longrightarrow> Marshal v = input \<and> canonicalValue v)
   \<and> (\<forall>v w r s. canonicalValue v \<longrightarrow> canonicalValue w \<longrightarrow> Marshal v @ r = Marshal w @ s \<longrightarrow> v = w \<and> r = s)"
proof (intro conjI allI impI)
  have "parseValueInterface (2 * length (d_rest (newDecoder input)) + 1) (newDecoder input) \<noteq> Inl OutOfFuel"
    using fuelOk_all unfolding fuelOk_def by blast
  then show "Unmarshal input \<noteq> Inl OutOfFuel"
    by (auto simp: Unmarshal_def DecodeValue_def andThen_Inl split: option.splits if_splits)
  fix v assume v: "Unmarshal input = Inr v"
  show "Marshal v = input" using Unmarshal_back[OF v] by (simp add: Marshal_def reflectValue_plain canon_id)
  show "canonicalValue v" using Unmarshal_back[OF v] by (simp add: canonicalValue_def)
next
  fix v w r s
  assume "canonicalValue v" "canonicalValue w" "Marshal v @ r = Marshal w @ s"
  then show "v = w" "r = s" using benc.unambiguous by blast+
qed

theorem bencode_canonical_witness:
  "Unmarshal ''d1:ai-3e1:bl1:xee'' = Inr (BDict [(''a'', BInt (- 3)), (''b'', BList [BStr ''x''])])
   \<and> Marshal (BDict [(''a'', BInt (- 3)), (''b'', BList [BStr ''x''])]) = ''d1:ai-3e1:bl1:xee''"
proof -
  have "Unmarshal ''d1:ai-3e1:bl1:xee'' = Inr (BDict [(''a'', BInt (- 3)), (''b'', BList [BStr ''x''])])" by code_simp
  with bencode_canonical[of "''d1:ai-3e1:bl1:xee''"] show ?thesis by blast
qed

text \<open>C24: skipping agrees with reading. Wherever a decoder, with whatever string limit, reads a value into
  an untyped destination, \<open>readOneValue\<close> copies exactly the bytes of that value, stops at the same place,
  and the copy is what the value is written as; so a hash of the copied bytes is the hash of the value.\<close>

theorem raw_value_is_exact:
  assumes "DecodeValue d = Inr (v, d')"
  shows "readOneValue (2 * length (d_rest d) + 1) d = Inr (Some (Marshal v), d') \<and> d_rest d = Marshal v @ d_rest d'"
proof -
  obtain t where t: "d_rest d = plain v @ t" "d' = advance (length (plain v)) d" "sortedKeys v" "stringsUpTo (strLimit d) v"
    using DecodeValue_back[OF assms] by (auto simp: valueAt_def)
  have "stringsUpTo MaxInt64 v" by (rule stringsUpTo_mono[OF t(4)]) (simp add: strLimit_def)
  moreover have "Marshal v = plain v" using t(3) by (simp add: Marshal_def reflectValue_plain canon_id)
  ultimately show ?thesis using skipsD[OF skips_plain t(1), of "2 * length (d_rest d) + 1"] t(1,2) by simp
qed

theorem raw_value_is_exact_witness:
  "let d = (newDecoder ''d4:infoi1eei2e'')\<lparr>d_maxStrLen := 4\<rparr> in
   readOneValue 29 d = Inr (Some ''d4:infoi1ee'', advance 11 d)"
proof -
  let ?d = "(newDecoder ''d4:infoi1eei2e'')\<lparr>d_maxStrLen := 4\<rparr>"
  have "DecodeValue ?d = Inr (BDict [(''info'', BInt 1)], advance 11 ?d)" by code_simp
  then have "readOneValue (2 * length (d_rest ?d) + 1) ?d = Inr (Some (Marshal (BDict [(''info'', BInt 1)])), advance 11 ?d)"
    by (rule raw_value_is_exact[THEN conjunct1])
  moreover have "Marshal (BDict [(''info'', BInt 1)]) = ''d4:infoi1ee''" by code_simp
  moreover have "2 * length (d_rest ?d) + 1 = 29" by (simp add: newDecoder_def)
  ultimately show ?thesis by (simp only: Let_def)
qed

end
