(* ===== verification/PeerProtocol.thy ===== *)
theory PeerProtocol
  imports Prelude
begin

text \<open>
  The messages of the peer wire protocol (\<open>pkg/anacrolix-torrent/peer_protocol\<close>): the message record,
  its binary form with the 32-bit length prefix, the length-limited decoder and the bit fields. A
  stream is the list of bytes until its end. The lemmas show that the decoder accepts exactly what the
  encoder writes for well-formed messages within the length limit.
\<close>

unbundle bit_operations_syntax

section \<open>Messages\<close>

abbreviation mtChoke :: byte where "mtChoke \<equiv> 0"
abbreviation mtUnchoke :: byte where "mtUnchoke \<equiv> 1"
abbreviation mtInterested :: byte where "mtInterested \<equiv> 2"
abbreviation mtNotInterested :: byte where "mtNotInterested \<equiv> 3"
abbreviation mtHave :: byte where "mtHave \<equiv> 4"
abbreviation mtBitfield :: byte where "mtBitfield \<equiv> 5"
abbreviation mtRequest :: byte where "mtRequest \<equiv> 6"
abbreviation mtPiece :: byte where "mtPiece \<equiv> 7"
abbreviation mtCancel :: byte where "mtCancel \<equiv> 8"
abbreviation mtPort :: byte where "mtPort \<equiv> 9"
abbreviation mtSuggest :: byte where "mtSuggest \<equiv> 13"
abbreviation mtHaveAll :: byte where "mtHaveAll \<equiv> 14"
abbreviation mtHaveNone :: byte where "mtHaveNone \<equiv> 15"
abbreviation mtReject :: byte where "mtReject \<equiv> 16"
abbreviation mtAllowedFast :: byte where "mtAllowedFast \<equiv> 17"
abbreviation mtExtended :: byte where "mtExtended \<equiv> 20"
abbreviation mtHashRequest :: byte where "mtHashRequest \<equiv> 21"
abbreviation mtHashes :: byte where "mtHashes \<equiv> 22"
abbreviation mtHashReject :: byte where "mtHashReject \<equiv> 23"

record Message =
  m_PiecesRoot :: bytes
  m_Piece :: bytes
  m_Bitfield :: "bool list"
  m_ExtendedPayload :: bytes
  m_Hashes :: "bytes list"
  m_Index :: "32 word"
  m_Begin :: "32 word"
  m_Length :: "32 word"
  m_BaseLayer :: "32 word"
  m_ProofLayers :: "32 word"
  m_Port :: "16 word"
  m_Type :: byte
  m_ExtendedID :: byte
  m_Keepalive :: bool

definition zeroMessage :: Message where
  "zeroMessage = \<lparr>m_PiecesRoot = replicate 32 0, m_Piece = [], m_Bitfield = [], m_ExtendedPayload = [], m_Hashes = [],
     m_Index = 0, m_Begin = 0, m_Length = 0, m_BaseLayer = 0, m_ProofLayers = 0, m_Port = 0, m_Type = 0, m_ExtendedID = 0,
     m_Keepalive = False\<rparr>"

definition MakeCancelMessage :: "32 word \<Rightarrow> 32 word \<Rightarrow> 32 word \<Rightarrow> Message" where
  "MakeCancelMessage piece offset len = zeroMessage\<lparr>m_Type := mtCancel, m_Index := piece, m_Begin := offset, m_Length := len\<rparr>"

definition RequestSpec :: "Message \<Rightarrow> 32 word \<times> 32 word \<times> 32 word" where
  "RequestSpec m = (m_Index m, m_Begin m, if m_Type m = mtPiece then word_of_nat (length (m_Piece m)) else m_Length m)"

text \<open>The types that the encoder's and the decoder's switch treat alike.\<close>

definition emptyTypes :: "byte list" where
  "emptyTypes = [mtChoke, mtUnchoke, mtInterested, mtNotInterested, mtHaveAll, mtHaveNone]"

definition indexTypes :: "byte list" where "indexTypes = [mtHave, mtAllowedFast, mtSuggest]"
definition requestTypes :: "byte list" where "requestTypes = [mtRequest, mtCancel, mtReject]"
definition hashTypes :: "byte list" where "hashTypes = [mtHashRequest, mtHashReject]"

definition FastExtension :: "byte \<Rightarrow> bool" where
  "FastExtension t \<longleftrightarrow> t \<ge> mtSuggest \<and> t \<le> mtAllowedFast"

section \<open>Encoding\<close>

definition be32 :: "32 word \<Rightarrow> bytes" where "be32 w = rev (le_bytes 4 (unat w))"
definition be16 :: "16 word \<Rightarrow> bytes" where "be16 w = rev (le_bytes 2 (unat w))"

definition marshalBitfield :: "bool list \<Rightarrow> bytes" where
  "marshalBitfield bf =
     fold (\<lambda>i b. if bf ! i then b[i div 8 := (b ! (i div 8)) OR push_bit (7 - i mod 8) 1] else b)
       [0..<length bf] (replicate ((length bf + 7) div 8) 0)"

datatype peerError = UnknownType byte | ReadEOF | ErrUnexpectedEOF | TooLong | PieceTooLong | Unhandled byte | Unused nat | Trailing nat

text \<open>\<open>writePayloadTo\<close> as the sequence of its writes.\<close>

definition writeHashCommon :: "Message \<Rightarrow> bytes list" where
  "writeHashCommon m = m_PiecesRoot m # map be32 [m_BaseLayer m, m_Index m, m_Length m, m_ProofLayers m]"

definition fieldWrites :: "Message \<Rightarrow> (peerError, bytes list) result" where
  "fieldWrites m =
     (let t = m_Type m in
      if t \<in> set emptyTypes then Inr []
      else if t \<in> set indexTypes then Inr [be32 (m_Index m)]
      else if t \<in> set requestTypes then Inr (map be32 [m_Index m, m_Begin m, m_Length m])
      else if t = mtBitfield then Inr [marshalBitfield (m_Bitfield m)]
      else if t = mtPiece then Inr (map be32 [m_Index m, m_Begin m] @ [m_Piece m])
      else if t = mtExtended then Inr [[m_ExtendedID m], m_ExtendedPayload m]
      else if t = mtPort then Inr [be16 (m_Port m)]
      else if t \<in> set hashTypes then Inr (writeHashCommon m)
      else if t = mtHashes then Inr (writeHashCommon m @ m_Hashes m)
      else Inl (UnknownType t))"

definition writePayloadTo :: "Message \<Rightarrow> (peerError, bytes list) result" where
  "writePayloadTo m =
     (if m_Keepalive m then Inr [] else andThen (fieldWrites m) (\<lambda>fields. Inr ([m_Type m] # fields)))"

text \<open>\<open>lengthWriter\<close> counts in 32 bits.\<close>

definition getPayloadLength :: "Message \<Rightarrow> (peerError, 32 word) result" where
  "getPayloadLength m = andThen (writePayloadTo m) (\<lambda>ws. Inr (fold (\<lambda>w n. n + word_of_nat (length w)) ws 0))"

definition MarshalBinary :: "Message \<Rightarrow> (peerError, bytes) result" where
  "MarshalBinary m =
     andThen (getPayloadLength m) (\<lambda>n.
     andThen (writePayloadTo m) (\<lambda>ws. Inr (be32 n @ concat ws)))"

text \<open>\<open>MustMarshalBinary\<close> panics, \<open>None\<close>, on a message without a binary form.\<close>

definition MustMarshalBinary :: "Message \<Rightarrow> bytes option" where
  "MustMarshalBinary m = (case MarshalBinary m of Inl _ \<Rightarrow> None | Inr b \<Rightarrow> Some b)"

section \<open>Decoding\<close>

definition unmarshalBitfield :: "bytes \<Rightarrow> bool list" where
  "unmarshalBitfield b = concat (map (\<lambda>c. map (\<lambda>i. drop_bit i c AND 1 = 1) [7, 6, 5, 4, 3, 2, 1, 0]) b)"

text \<open>The reader of one message: the bytes the message has left, and the stream.\<close>

type_synonym limited = "nat \<times> bytes"

definition readFull :: "nat \<Rightarrow> limited \<Rightarrow> (peerError, bytes \<times> limited) result" where
  "readFull k r = (case r of (n, s) \<Rightarrow>
     if k \<le> n \<and> k \<le> length s then Inr (take k s, (n - k, drop k s)) else Inl ErrUnexpectedEOF)"

definition readInteger :: "limited \<Rightarrow> (peerError, 32 word \<times> limited) result" where
  "readInteger r = andThen (readFull 4 r) (\<lambda>(b, r'). Inr (word_of_nat (le_value (rev b)), r'))"

definition readShort :: "limited \<Rightarrow> (peerError, 16 word \<times> limited) result" where
  "readShort r = andThen (readFull 2 r) (\<lambda>(b, r'). Inr (word_of_nat (le_value (rev b)), r'))"

definition readHashRequest :: "Message \<Rightarrow> limited \<Rightarrow> (peerError, Message \<times> limited) result" where
  "readHashRequest m r =
     andThen (readFull 32 r) (\<lambda>(root, r).
     andThen (readInteger r) (\<lambda>(base, r).
     andThen (readInteger r) (\<lambda>(i, r).
     andThen (readInteger r) (\<lambda>(l, r).
     andThen (readInteger r) (\<lambda>(proofs, r).
       Inr (m\<lparr>m_PiecesRoot := root, m_BaseLayer := base, m_Index := i, m_Length := l, m_ProofLayers := proofs\<rparr>, r))))))"

fun readHashes :: "nat \<Rightarrow> bytes list \<Rightarrow> limited \<Rightarrow> (peerError, bytes list \<times> limited) result" where
  "readHashes 0 hs r = Inr (hs, r)"
| "readHashes (Suc k) hs r = andThen (readFull 32 r) (\<lambda>(h, r). readHashes k (hs @ [h]) r)"

text \<open>\<open>pool\<close> is the capacity of the pooled piece buffers, if the decoder has a pool.\<close>

definition readMessageAfterType :: "nat option \<Rightarrow> Message \<Rightarrow> limited \<Rightarrow> (peerError, Message \<times> limited) result" where
  "readMessageAfterType pool m r =
     (let t = m_Type m in
      if t \<in> set emptyTypes then Inr (m, r)
      else if t \<in> set indexTypes then andThen (readInteger r) (\<lambda>(i, r). Inr (m\<lparr>m_Index := i\<rparr>, r))
      else if t \<in> set requestTypes then
        andThen (readInteger r) (\<lambda>(i, r).
        andThen (readInteger r) (\<lambda>(b, r).
        andThen (readInteger r) (\<lambda>(l, r). Inr (m\<lparr>m_Index := i, m_Begin := b, m_Length := l\<rparr>, r))))
      else if t = mtBitfield then andThen (readFull (fst r) r) (\<lambda>(b, r). Inr (m\<lparr>m_Bitfield := unmarshalBitfield b\<rparr>, r))
      else if t = mtPiece then
        andThen (readInteger r) (\<lambda>(i, r).
        andThen (readInteger r) (\<lambda>(b, r).
          if (case pool of None \<Rightarrow> False | Some cap \<Rightarrow> cap < fst r) then Inl PieceTooLong
          else andThen (readFull (fst r) r) (\<lambda>(p, r). Inr (m\<lparr>m_Index := i, m_Begin := b, m_Piece := p\<rparr>, r))))
      else if t = mtExtended then
        andThen (readFull 1 r) (\<lambda>(x, r).
        andThen (readFull (fst r) r) (\<lambda>(p, r). Inr (m\<lparr>m_ExtendedID := hd x, m_ExtendedPayload := p\<rparr>, r)))
      else if t = mtPort then andThen (readShort r) (\<lambda>(p, r). Inr (m\<lparr>m_Port := p\<rparr>, r))
      else if t \<in> set hashTypes then readHashRequest m r
      else if t = mtHashes then
        andThen (readHashRequest m r) (\<lambda>(m, r).
        andThen (readHashes ((fst r + 31) div 32) [] r) (\<lambda>(hs, r). Inr (m\<lparr>m_Hashes := hs\<rparr>, r)))
      else Inl (Unhandled t))"

text \<open>The message is decoded into a fresh \<open>Message\<close>, as the read loop of a connection does.\<close>

definition DecodeMessage :: "32 word \<Rightarrow> nat option \<Rightarrow> bytes \<Rightarrow> (peerError, Message \<times> bytes) result" where
  "DecodeMessage maxLength pool s =
     (if s = [] then Inl ReadEOF
      else andThen (readInteger (4, s)) (\<lambda>(len, (_, s)).
        if len > maxLength then Inl TooLong
        else if len = 0 then Inr (zeroMessage\<lparr>m_Keepalive := True\<rparr>, s)
        else andThen (readFull 1 (unat len, s)) (\<lambda>(c, r).
          andThen (readMessageAfterType pool (zeroMessage\<lparr>m_Type := hd c\<rparr>) r) (\<lambda>(m, (n, s)).
            if n \<noteq> 0 then Inl (Unused n) else Inr (m, s)))))"

text \<open>
  The decoder of \<open>UnmarshalBinary\<close> has the zero \<open>MaxLength\<close>. Its \<open>bufio\<close> reader has read up to 4096
  bytes ahead; a successful \<open>DecodeMessage\<close> at this limit has used four of them.
\<close>

definition UnmarshalBinary :: "bytes \<Rightarrow> (peerError, Message) result" where
  "UnmarshalBinary b =
     andThen (DecodeMessage 0 None b) (\<lambda>(m, rest).
       if rest \<noteq> [] then Inl (Trailing (min 4096 (length b) - 4)) else Inr m)"

section \<open>Integers and bounded reads\<close>

lemma length_be [simp]: "length (be32 w) = 4" "length (be16 v) = 2"
  by (simp_all add: be32_def be16_def)

lemma be_inverse:
  "word_of_nat (le_value (rev (be32 w))) = w" "word_of_nat (le_value (rev (be16 v))) = v"
proof -
  have "unat w < 256 ^ 4" "unat v < 256 ^ 2" using unsigned_less[of w] unsigned_less[of v] by simp_all
  then show "word_of_nat (le_value (rev (be32 w))) = w" "word_of_nat (le_value (rev (be16 v))) = v"
    by (simp_all add: be32_def be16_def le_value_le_bytes)
qed

lemma be_of_bytes:
  "length b = 4 \<Longrightarrow> be32 (word_of_nat (le_value (rev b))) = b" "length c = 2 \<Longrightarrow> be16 (word_of_nat (le_value (rev c))) = c"
proof -
  assume "length b = 4"
  then have "unat (word_of_nat (le_value (rev b)) :: 32 word) = le_value (rev b)" "le_bytes 4 (le_value (rev b)) = rev b"
    using le_value_less[of "rev b"] le_bytes_le_value[of "rev b"] by (simp_all add: unat_of_nat)
  then show "be32 (word_of_nat (le_value (rev b))) = b" by (simp add: be32_def)
next
  assume "length c = 2"
  then have "unat (word_of_nat (le_value (rev c)) :: 16 word) = le_value (rev c)" "le_bytes 2 (le_value (rev c)) = rev c"
    using le_value_less[of "rev c"] le_bytes_le_value[of "rev c"] by (simp_all add: unat_of_nat)
  then show "be16 (word_of_nat (le_value (rev c))) = c" by (simp add: be16_def)
qed

lemma readFull_exact: "length x = k \<Longrightarrow> n = k + n' \<Longrightarrow> readFull k (n, x @ s) = Inr (x, (n', s))"
  by (simp add: readFull_def)

lemma readFull_all: "length x = n \<Longrightarrow> readFull n (n, x @ s) = Inr (x, (0, s))"
  by (simp add: readFull_def)

lemma readFull_Inr:
  "readFull k (n, s) = Inr (x, (n', s')) \<longleftrightarrow> length x = k \<and> n = k + n' \<and> s = x @ s'"
  by (auto simp: readFull_def split: if_splits)

lemma readInteger_exact: "n = 4 + n' \<Longrightarrow> readInteger (n, be32 w @ s) = Inr (w, (n', s))"
  by (simp add: readInteger_def readFull_exact be_inverse)

lemma readInteger_Inr: "readInteger (n, s) = Inr (w, (n', s')) \<longleftrightarrow> n = 4 + n' \<and> s = be32 w @ s'"
  by (auto simp: readInteger_def readFull_Inr be_inverse be_of_bytes intro: exI[of _ "be32 w"])

lemma readShort_exact: "n = 2 + n' \<Longrightarrow> readShort (n, be16 w @ s) = Inr (w, (n', s))"
  by (simp add: readShort_def readFull_exact be_inverse)

lemma readShort_Inr: "readShort (n, s) = Inr (w, (n', s')) \<longleftrightarrow> n = 2 + n' \<and> s = be16 w @ s'"
  by (auto simp: readShort_def readFull_Inr be_inverse be_of_bytes intro: exI[of _ "be16 w"])

lemma length_hashes: "list_all (\<lambda>h. length h = 32) hs \<Longrightarrow> length (concat hs) = 32 * length hs"
  by (induction hs) auto

lemma readHashes_exact:
  "list_all (\<lambda>h. length h = 32) hs \<Longrightarrow> n = 32 * length hs + n' \<Longrightarrow> readHashes (length hs) acc (n, concat hs @ s) = Inr (acc @ hs, (n', s))"
proof (induction hs arbitrary: acc n)
  case (Cons h hs)
  have "readFull 32 (n, h @ concat hs @ s) = Inr (h, (32 * length hs + n', concat hs @ s))"
    using Cons.prems by (intro readFull_exact) simp_all
  then show ?case using Cons.IH[of "32 * length hs + n'" "acc @ [h]"] Cons.prems(1) by simp
qed simp

lemma readHashes_Inr:
  "readHashes k acc (n, s) = Inr (hs, (n', s')) \<Longrightarrow>
   \<exists>xs. hs = acc @ xs \<and> length xs = k \<and> list_all (\<lambda>h. length h = 32) xs \<and> n = 32 * k + n' \<and> s = concat xs @ s'"
proof (induction k arbitrary: acc n s)
  case (Suc k)
  then obtain h r where h: "readFull 32 (n, s) = Inr (h, r)" "readHashes k (acc @ [h]) r = Inr (hs, (n', s'))" by auto
  obtain n1 s1 where r: "r = (n1, s1)" by (rule prod.exhaust)
  from Suc.IH[of "acc @ [h]" n1 s1] h(2) r obtain xs where
    "hs = (acc @ [h]) @ xs" "length xs = k" "list_all (\<lambda>h. length h = 32) xs" "n1 = 32 * k + n'" "s1 = concat xs @ s'" by auto
  then show ?case using h(1) r by (intro exI[of _ "h # xs"]) (simp add: readFull_Inr)
qed simp

section \<open>Bit fields\<close>

lemma length_unmarshal [simp]: "length (unmarshalBitfield b) = 8 * length b"
  by (induction b) (simp_all add: unmarshalBitfield_def)

lemma nth_unmarshal: "i < 8 * length b \<Longrightarrow> unmarshalBitfield b ! i = bit (b ! (i div 8)) (7 - i mod 8)"
proof (induction b arbitrary: i)
  case (Cons c b)
  have u: "unmarshalBitfield (c # b) = map (\<lambda>i. drop_bit i c AND 1 = 1) [7, 6, 5, 4, 3, 2, 1, 0] @ unmarshalBitfield b"
    by (simp add: unmarshalBitfield_def)
  have bit1: "(drop_bit k c AND 1 = 1) = bit c k" for k
    by (simp add: bit_iff_and_drop_bit_eq_1)
  show ?case
  proof (cases "i < 8")
    case True
    then consider "i = 0" | "i = 1" | "i = 2" | "i = 3" | "i = 4" | "i = 5" | "i = 6" | "i = 7" by linarith
    then show ?thesis unfolding u bit1 by cases (simp_all add: nth_append)
  next
    case False
    then have "i div 8 = Suc ((i - 8) div 8)" "i mod 8 = (i - 8) mod 8" by (simp_all add: le_div_geq le_mod_geq)
    moreover have "unmarshalBitfield (c # b) ! i = unmarshalBitfield b ! (i - 8)"
      unfolding u using False by (simp add: nth_append_right eval_nat_numeral)
    ultimately show ?thesis using Cons.IH[of "i - 8"] Cons.prems False by simp
  qed
qed simp

definition bitsUpTo :: "bool list \<Rightarrow> nat \<Rightarrow> bytes" where
  "bitsUpTo bf m = fold (\<lambda>i b. if bf ! i then b[i div 8 := (b ! (i div 8)) OR push_bit (7 - i mod 8) 1] else b)
     [0..<m] (replicate ((length bf + 7) div 8) 0)"

lemma length_bitsUpTo: "length (bitsUpTo bf m) = (length bf + 7) div 8"
proof -
  have "length (fold (\<lambda>i b. if bf ! i then b[i div 8 := (b ! (i div 8)) OR push_bit (7 - i mod 8) 1] else b) is b) = length b" for "is" and b :: bytes
    by (induction "is" arbitrary: b) auto
  then show ?thesis by (simp add: bitsUpTo_def)
qed

lemma bit_index:
  assumes "k < 8"
  shows "8 * j + (7 - k) = m \<longleftrightarrow> m div 8 = j \<and> 7 - m mod 8 = (k :: nat)"
proof
  assume m: "8 * j + (7 - k) = m"
  define r where "r = 7 - k"
  have r: "m = 8 * j + r" "r < 8" "k = 7 - r" using assms m by (simp_all add: r_def)
  have "(8 * j + r) div 8 = j" "(8 * j + r) mod 8 = r" using r(2) by simp_all
  then show "m div 8 = j \<and> 7 - m mod 8 = k" using r(1,3) by simp
next
  assume m: "m div 8 = j \<and> 7 - m mod 8 = k"
  have "m = 8 * (m div 8) + m mod 8" by simp
  moreover have "m mod 8 < 8" by simp
  ultimately show "8 * j + (7 - k) = m" using m by linarith
qed

lemma bit_bitsUpTo:
  "m \<le> length bf \<Longrightarrow> j < (length bf + 7) div 8 \<Longrightarrow> k < 8 \<Longrightarrow> bit (bitsUpTo bf m ! j) k = (8 * j + (7 - k) < m \<and> bf ! (8 * j + (7 - k)))"
proof (induction m)
  case 0
  then show ?case by (simp add: bitsUpTo_def)
next
  case (Suc m)
  let ?b = "bitsUpTo bf m"
  have step: "bitsUpTo bf (Suc m) = (if bf ! m then ?b[m div 8 := (?b ! (m div 8)) OR push_bit (7 - m mod 8) 1] else ?b)"
    by (simp add: bitsUpTo_def)
  have idx: "8 * j + (7 - k) = m \<longleftrightarrow> m div 8 = j \<and> 7 - m mod 8 = k" by (rule bit_index[OF Suc.prems(3)])
  have less: "8 * j + (7 - k) < Suc m \<longleftrightarrow> 8 * j + (7 - k) < m \<or> 8 * j + (7 - k) = m" by auto
  show ?case
  proof (cases "bf ! m \<and> m div 8 = j")
    case True
    then have "bit (bitsUpTo bf (Suc m) ! j) k = (bit (?b ! j) k \<or> 7 - m mod 8 = k)"
      using Suc.prems length_bitsUpTo[of bf m] by (auto simp: step bit_or_iff bit_exp_iff)
    then show ?thesis using Suc.IH Suc.prems True less idx by auto
  next
    case False
    then have "bitsUpTo bf (Suc m) ! j = ?b ! j" by (auto simp: step)
    then show ?thesis using Suc.IH Suc.prems False less idx by auto
  qed
qed

text \<open>A bit field survives, padded with zeros to whole bytes; every byte string is the form of its bits.\<close>

lemma marshal_unmarshal: "unmarshalBitfield (marshalBitfield bf) = bf @ replicate (8 * ((length bf + 7) div 8) - length bf) False"
proof -
  have m: "marshalBitfield bf = bitsUpTo bf (length bf)" by (simp add: marshalBitfield_def bitsUpTo_def)
  let ?n = "(length bf + 7) div 8"
  have n: "length bf \<le> 8 * ?n" using div_mult_mod_eq[of "length bf + 7" 8] mod_less_divisor[of 8 "length bf + 7"] by linarith
  show ?thesis
  proof (rule nth_equalityI)
    show "length (unmarshalBitfield (marshalBitfield bf)) = length (bf @ replicate (8 * ?n - length bf) False)"
      using n by (simp add: m length_bitsUpTo)
    fix i assume "i < length (unmarshalBitfield (marshalBitfield bf))"
    then have i: "i < 8 * ?n" by (simp add: m length_bitsUpTo)
    then have "i div 8 < ?n" by (simp add: less_mult_imp_div_less mult.commute)
    moreover have "8 * (i div 8) + (7 - (7 - i mod 8)) = i"
      using div_mult_mod_eq[of i 8] mod_less_divisor[of 8 i] by linarith
    ultimately have "unmarshalBitfield (marshalBitfield bf) ! i = (i < length bf \<and> bf ! i)"
      using nth_unmarshal[of i "marshalBitfield bf"] bit_bitsUpTo[of "length bf" bf "i div 8" "7 - i mod 8"] i
      by (simp add: m length_bitsUpTo)
    then show "unmarshalBitfield (marshalBitfield bf) ! i = (bf @ replicate (8 * ?n - length bf) False) ! i"
      using i n by (auto simp: nth_append)
  qed
qed

lemma unmarshal_marshal: "marshalBitfield (unmarshalBitfield b) = b"
proof (rule nth_equalityI)
  let ?bf = "unmarshalBitfield b"
  have m: "marshalBitfield ?bf = bitsUpTo ?bf (length ?bf)" by (simp add: marshalBitfield_def bitsUpTo_def)
  show "length (marshalBitfield ?bf) = length b" by (simp add: m length_bitsUpTo)
  fix j assume "j < length (marshalBitfield ?bf)"
  then have j: "j < length b" by (simp add: m length_bitsUpTo)
  show "marshalBitfield ?bf ! j = b ! j"
  proof (rule bit_word_eqI)
    fix k assume "k < LENGTH(8)"
    then have k: "k < 8" by simp
    have i: "8 * j + (7 - k) < 8 * length b" using j by linarith
    have i': "(8 * j + (7 - k)) div 8 = j \<and> 7 - (8 * j + (7 - k)) mod 8 = k" using bit_index[OF k, of j "8 * j + (7 - k)"] by blast
    show "bit (marshalBitfield ?bf ! j) k = bit (b ! j) k"
      using bit_bitsUpTo[of "length ?bf" ?bf j k] nth_unmarshal[OF i] i i' k j by (simp add: m)
  qed
qed

section \<open>Well-formed messages\<close>

text \<open>A message with the fields of its type only; the rest as in a new message.\<close>

definition keepFields :: "Message \<Rightarrow> Message" where
  "keepFields m =
     (let t = m_Type m; z = zeroMessage\<lparr>m_Type := t\<rparr>;
          h = z\<lparr>m_PiecesRoot := m_PiecesRoot m, m_BaseLayer := m_BaseLayer m, m_Index := m_Index m, m_Length := m_Length m,
                m_ProofLayers := m_ProofLayers m\<rparr> in
      if m_Keepalive m then zeroMessage\<lparr>m_Keepalive := True\<rparr>
      else if t \<in> set indexTypes then z\<lparr>m_Index := m_Index m\<rparr>
      else if t \<in> set requestTypes then z\<lparr>m_Index := m_Index m, m_Begin := m_Begin m, m_Length := m_Length m\<rparr>
      else if t = mtBitfield then z\<lparr>m_Bitfield := m_Bitfield m\<rparr>
      else if t = mtPiece then z\<lparr>m_Index := m_Index m, m_Begin := m_Begin m, m_Piece := m_Piece m\<rparr>
      else if t = mtExtended then z\<lparr>m_ExtendedID := m_ExtendedID m, m_ExtendedPayload := m_ExtendedPayload m\<rparr>
      else if t = mtPort then z\<lparr>m_Port := m_Port m\<rparr>
      else if t \<in> set hashTypes then h
      else if t = mtHashes then h\<lparr>m_Hashes := m_Hashes m\<rparr>
      else z)"

definition wfFields :: "Message \<Rightarrow> bool" where
  "wfFields m \<longleftrightarrow> length (m_PiecesRoot m) = 32 \<and> list_all (\<lambda>h. length h = 32) (m_Hashes m) \<and> 8 dvd length (m_Bitfield m)"

definition fitsPool :: "nat option \<Rightarrow> Message \<Rightarrow> bool" where
  "fitsPool pool m \<longleftrightarrow> (case pool of None \<Rightarrow> True | Some cap \<Rightarrow> length (m_Piece m) \<le> cap)"

definition wfMessage :: "32 word \<Rightarrow> nat option \<Rightarrow> Message \<Rightarrow> bool" where
  "wfMessage maxLength pool m \<longleftrightarrow> keepFields m = m \<and> wfFields m \<and> fitsPool pool m
     \<and> (case writePayloadTo m of Inl _ \<Rightarrow> False | Inr ws \<Rightarrow> length (concat ws) \<le> unat maxLength)"

text \<open>The nine shapes of a message, and the types none of them has.\<close>

lemma type_cases:
  fixes t :: byte
  obtains (empty) "t \<in> set emptyTypes" | (index) "t \<in> set indexTypes" | (request) "t \<in> set requestTypes"
  | (bitfield) "t = mtBitfield" | (piece) "t = mtPiece" | (extended) "t = mtExtended" | (port) "t = mtPort"
  | (hash) "t \<in> set hashTypes" | (hashes) "t = mtHashes"
  | (other) "t \<notin> set emptyTypes" "t \<notin> set indexTypes" "t \<notin> set requestTypes" "t \<noteq> mtBitfield" "t \<noteq> mtPiece"
      "t \<noteq> mtExtended" "t \<noteq> mtPort" "t \<notin> set hashTypes" "t \<noteq> mtHashes"
  by blast

lemma type_classes:
  "t \<in> set indexTypes \<Longrightarrow> t \<notin> set emptyTypes"
  "t \<in> set requestTypes \<Longrightarrow> t \<notin> set emptyTypes \<and> t \<notin> set indexTypes"
  "t \<in> set hashTypes \<Longrightarrow> t \<notin> set emptyTypes \<and> t \<notin> set indexTypes \<and> t \<notin> set requestTypes
     \<and> t \<noteq> mtBitfield \<and> t \<noteq> mtPiece \<and> t \<noteq> mtExtended \<and> t \<noteq> mtPort"
  "t \<in> set emptyTypes \<Longrightarrow> t \<notin> set indexTypes \<and> t \<notin> set requestTypes \<and> t \<notin> set hashTypes
     \<and> t \<noteq> mtBitfield \<and> t \<noteq> mtPiece \<and> t \<noteq> mtExtended \<and> t \<noteq> mtPort \<and> t \<noteq> mtHashes"
  by (auto simp: emptyTypes_def indexTypes_def requestTypes_def hashTypes_def)

lemma single_types:
  "mtBitfield \<notin> set emptyTypes" "mtBitfield \<notin> set indexTypes" "mtBitfield \<notin> set requestTypes"
  "mtPiece \<notin> set emptyTypes" "mtPiece \<notin> set indexTypes" "mtPiece \<notin> set requestTypes"
  "mtExtended \<notin> set emptyTypes" "mtExtended \<notin> set indexTypes" "mtExtended \<notin> set requestTypes"
  "mtPort \<notin> set emptyTypes" "mtPort \<notin> set indexTypes" "mtPort \<notin> set requestTypes"
  "mtHashes \<notin> set emptyTypes" "mtHashes \<notin> set indexTypes" "mtHashes \<notin> set requestTypes" "mtHashes \<notin> set hashTypes"
  by (simp_all add: emptyTypes_def indexTypes_def requestTypes_def hashTypes_def)

lemma readHashRequest_exact:
  assumes "length (m_PiecesRoot m) = 32" "n = 48 + n'"
  shows "readHashRequest z (n, concat (writeHashCommon m) @ s)
    = Inr (z\<lparr>m_PiecesRoot := m_PiecesRoot m, m_BaseLayer := m_BaseLayer m, m_Index := m_Index m, m_Length := m_Length m,
              m_ProofLayers := m_ProofLayers m\<rparr>, (n', s))"
  using assms by (simp add: readHashRequest_def writeHashCommon_def readFull_exact[where n' = "16 + n'"]
      readInteger_exact[where n' = "12 + n'"] readInteger_exact[where n' = "8 + n'"] readInteger_exact[where n' = "4 + n'"]
      readInteger_exact[where n' = n'])

lemmas message_defs = fieldWrites_def readMessageAfterType_def keepFields_def Let_def single_types

lemma zero_type [simp]: "m_Type (zeroMessage\<lparr>m_Type := t\<rparr>) = t"
  by simp

lemma fields_read_back_bitfield:
  assumes "fieldWrites m = Inr fs" "\<not> m_Keepalive m" "wfFields m" "fitsPool pool m"
    and bitfield: "m_Type m = mtBitfield"
  shows "readMessageAfterType pool (zeroMessage\<lparr>m_Type := m_Type m\<rparr>) (length (concat fs), concat fs @ rest) = Inr (keepFields m, (0, rest))"
proof -
  have "unmarshalBitfield (marshalBitfield (m_Bitfield m)) = m_Bitfield m"
    using assms(3) marshal_unmarshal[of "m_Bitfield m"] by (auto simp: wfFields_def dvd_def)
  moreover have "fs = [marshalBitfield (m_Bitfield m)]" using assms(1) bitfield by (simp add: message_defs)
  ultimately show ?thesis
    using bitfield assms(2) readFull_all[of "marshalBitfield (m_Bitfield m)" _ rest] by (simp add: message_defs)
qed

lemma fields_read_back_piece:
  assumes "fieldWrites m = Inr fs" "\<not> m_Keepalive m" "wfFields m" "fitsPool pool m"
    and piece: "m_Type m = mtPiece"
  shows "readMessageAfterType pool (zeroMessage\<lparr>m_Type := m_Type m\<rparr>) (length (concat fs), concat fs @ rest) = Inr (keepFields m, (0, rest))"
proof -
  have "fs = map be32 [m_Index m, m_Begin m] @ [m_Piece m]" using assms(1) piece by (simp add: message_defs)
  then show ?thesis
    using piece assms(2,4) readInteger_exact[of "8 + length (m_Piece m)" "4 + length (m_Piece m)" "m_Index m"]
      readInteger_exact[of "4 + length (m_Piece m)" "length (m_Piece m)" "m_Begin m"] readFull_all[of "m_Piece m" _ rest]
    by (cases pool) (simp_all add: message_defs fitsPool_def)
qed

lemma fields_read_back_extended:
  assumes "fieldWrites m = Inr fs" "\<not> m_Keepalive m" "wfFields m" "fitsPool pool m"
    and extended: "m_Type m = mtExtended"
  shows "readMessageAfterType pool (zeroMessage\<lparr>m_Type := m_Type m\<rparr>) (length (concat fs), concat fs @ rest) = Inr (keepFields m, (0, rest))"
proof -
  have "fs = [[m_ExtendedID m], m_ExtendedPayload m]" using assms(1) extended by (simp add: message_defs)
  then show ?thesis
    using extended assms(2) readFull_exact[of "[m_ExtendedID m]" 1 "Suc (length (m_ExtendedPayload m))" "length (m_ExtendedPayload m)"]
      readFull_all[of "m_ExtendedPayload m" _ rest]
    by (simp add: message_defs)
qed

lemma fields_read_back_hash:
  assumes "fieldWrites m = Inr fs" "\<not> m_Keepalive m" "wfFields m" "fitsPool pool m"
    and hash: "m_Type m \<in> set hashTypes"
  shows "readMessageAfterType pool (zeroMessage\<lparr>m_Type := m_Type m\<rparr>) (length (concat fs), concat fs @ rest) = Inr (keepFields m, (0, rest))"
proof -
  have "fs = writeHashCommon m" using assms(1) hash type_classes(3)[OF hash] by (simp add: message_defs)
  moreover have "length (concat (writeHashCommon m)) = 48" using assms(3) by (simp add: writeHashCommon_def wfFields_def)
  ultimately show ?thesis
    using hash type_classes(3)[OF hash] assms(2,3) readHashRequest_exact[of m 48 0 _ rest] by (simp add: message_defs wfFields_def)
qed

lemma fields_read_back_hashes:
  assumes "fieldWrites m = Inr fs" "\<not> m_Keepalive m" "wfFields m" "fitsPool pool m"
    and hashes: "m_Type m = mtHashes"
  shows "readMessageAfterType pool (zeroMessage\<lparr>m_Type := m_Type m\<rparr>) (length (concat fs), concat fs @ rest) = Inr (keepFields m, (0, rest))"
proof -
  let ?k = "length (m_Hashes m)"
  have "fs = writeHashCommon m @ m_Hashes m" using assms(1) hashes by (simp add: message_defs)
  moreover have "length (concat (writeHashCommon m)) = 48" using assms(3) by (simp add: writeHashCommon_def wfFields_def)
  ultimately show ?thesis
    using hashes assms(2,3) readHashRequest_exact[of m "48 + 32 * ?k" "32 * ?k" _ "concat (m_Hashes m) @ rest"]
      readHashes_exact[of "m_Hashes m" "32 * ?k" 0 "[]" rest]
    by (simp add: message_defs wfFields_def length_hashes)
qed

lemma fields_read_back:
  assumes "fieldWrites m = Inr fs" "\<not> m_Keepalive m" "wfFields m" "fitsPool pool m"
  shows "readMessageAfterType pool (zeroMessage\<lparr>m_Type := m_Type m\<rparr>) (length (concat fs), concat fs @ rest) = Inr (keepFields m, (0, rest))"
proof (cases "m_Type m" rule: type_cases)
  case empty
  then show ?thesis using assms(1,2) type_classes(4)[OF empty] by (simp add: message_defs)
next
  case index
  then show ?thesis using assms(1,2) type_classes(1)[OF index] readInteger_exact[of 4 0 "m_Index m" rest] by (auto simp: message_defs)
next
  case request
  have "fs = map be32 [m_Index m, m_Begin m, m_Length m]" using assms(1) request type_classes(2)[OF request] by (simp add: message_defs)
  then show ?thesis
    using request type_classes(2)[OF request] assms(2) readInteger_exact[of 12 8 "m_Index m"] readInteger_exact[of 8 4 "m_Begin m"] readInteger_exact[of 4 0 "m_Length m"]
    by (simp add: message_defs)
next
  case bitfield
  then show ?thesis by (rule fields_read_back_bitfield[OF assms])
next
  case piece
  then show ?thesis by (rule fields_read_back_piece[OF assms])
next
  case extended
  then show ?thesis by (rule fields_read_back_extended[OF assms])
next
  case port
  then show ?thesis using assms(1,2) readShort_exact[of 2 0 "m_Port m" rest] by (auto simp: message_defs)
next
  case hash
  then show ?thesis by (rule fields_read_back_hash[OF assms])
next
  case hashes
  then show ?thesis by (rule fields_read_back_hashes[OF assms])
next
  case other
  then show ?thesis using assms(1) by (simp add: fieldWrites_def Let_def)
qed

lemma zero_fields [simp]:
  "m_Keepalive zeroMessage = False" "length (m_PiecesRoot zeroMessage) = 32" "m_Hashes zeroMessage = []" "m_Bitfield zeroMessage = []"
  "m_Piece zeroMessage = []"
  by (simp_all add: zeroMessage_def)

text \<open>What the decoder promises of a message of type \<open>t\<close> it has read from \<open>n\<close> bytes of \<open>s\<close>.\<close>

definition readAs :: "nat option \<Rightarrow> byte \<Rightarrow> nat \<Rightarrow> bytes \<Rightarrow> Message \<Rightarrow> nat \<Rightarrow> bytes \<Rightarrow> bool" where
  "readAs pool t n s m n' s' \<longleftrightarrow> (\<exists>fs. fieldWrites m = Inr fs \<and> n = length (concat fs) + n' \<and> s = concat fs @ s')
     \<and> m_Type m = t \<and> \<not> m_Keepalive m \<and> keepFields m = m \<and> wfFields m \<and> fitsPool pool m"

lemma fitsPool_empty: "m_Piece m = [] \<Longrightarrow> fitsPool pool m"
  by (simp add: fitsPool_def split: option.split)

lemma readHashRequest_Inr:
  assumes "readHashRequest z (n, s) = Inr (m, (n', s'))"
  shows "\<exists>root base i l p. length root = 32
    \<and> m = z\<lparr>m_PiecesRoot := root, m_BaseLayer := base, m_Index := i, m_Length := l, m_ProofLayers := p\<rparr>
    \<and> n = length (concat (writeHashCommon m)) + n' \<and> s = concat (writeHashCommon m) @ s'"
proof -
  obtain root base i l p where r: "length root = 32" "n = 48 + n'" "s = root @ be32 base @ be32 i @ be32 l @ be32 p @ s'"
      "m = z\<lparr>m_PiecesRoot := root, m_BaseLayer := base, m_Index := i, m_Length := l, m_ProofLayers := p\<rparr>"
    using assms by (auto simp: readHashRequest_def readFull_Inr readInteger_Inr)
  then have "n = length (concat (writeHashCommon m)) + n' \<and> s = concat (writeHashCommon m) @ s'" by (simp add: writeHashCommon_def)
  with r show ?thesis by blast
qed

lemma fields_canonical_bitfield:
  assumes "readMessageAfterType pool (zeroMessage\<lparr>m_Type := t\<rparr>) (n, s) = Inr (m, (n', s'))"
    and bitfield: "t = mtBitfield"
  shows "readAs pool t n s m n' s'"
proof -
  from bitfield obtain b where "m = zeroMessage\<lparr>m_Type := t, m_Bitfield := unmarshalBitfield b\<rparr>" "n = length b" "n' = 0" "s = b @ s'"
    using assms by (auto simp: readMessageAfterType_def Let_def readFull_Inr single_types)
  then show ?thesis using bitfield by (simp add: message_defs readAs_def wfFields_def fitsPool_empty unmarshal_marshal)
qed

lemma fields_canonical_piece:
  assumes "readMessageAfterType pool (zeroMessage\<lparr>m_Type := t\<rparr>) (n, s) = Inr (m, (n', s'))"
    and piece: "t = mtPiece"
  shows "readAs pool t n s m n' s'"
proof -
  from piece obtain i b p where "m = zeroMessage\<lparr>m_Type := t, m_Index := i, m_Begin := b, m_Piece := p\<rparr>" "n = 8 + length p" "n' = 0"
      "s = be32 i @ be32 b @ p @ s'" "case pool of None \<Rightarrow> True | Some cap \<Rightarrow> length p \<le> cap"
    using assms by (auto simp: readMessageAfterType_def Let_def readInteger_Inr readFull_Inr single_types split: if_splits option.splits)
  then show ?thesis using piece by (cases pool) (simp_all add: message_defs readAs_def wfFields_def fitsPool_def)
qed

lemma fields_canonical_extended:
  assumes "readMessageAfterType pool (zeroMessage\<lparr>m_Type := t\<rparr>) (n, s) = Inr (m, (n', s'))"
    and extended: "t = mtExtended"
  shows "readAs pool t n s m n' s'"
proof -
  from extended obtain x p where "m = zeroMessage\<lparr>m_Type := t, m_ExtendedID := x, m_ExtendedPayload := p\<rparr>" "n = 1 + length p" "n' = 0" "s = x # p @ s'"
    using assms by (auto simp: readMessageAfterType_def Let_def readFull_Inr single_types length_Suc_conv)
  then show ?thesis using extended by (simp add: message_defs readAs_def wfFields_def fitsPool_empty)
qed

lemma fields_canonical_hash:
  assumes "readMessageAfterType pool (zeroMessage\<lparr>m_Type := t\<rparr>) (n, s) = Inr (m, (n', s'))"
    and hash: "t \<in> set hashTypes"
  shows "readAs pool t n s m n' s'"
proof -
  from hash have "readHashRequest (zeroMessage\<lparr>m_Type := t\<rparr>) (n, s) = Inr (m, (n', s'))"
    using assms type_classes(3)[OF hash] by (simp add: readMessageAfterType_def Let_def)
  from readHashRequest_Inr[OF this] obtain root base i l p where "length root = 32"
      "m = zeroMessage\<lparr>m_Type := t, m_PiecesRoot := root, m_BaseLayer := base, m_Index := i, m_Length := l, m_ProofLayers := p\<rparr>"
      "n = length (concat (writeHashCommon m)) + n'" "s = concat (writeHashCommon m) @ s'"
    by blast
  then show ?thesis using hash type_classes(3)[OF hash] by (simp add: message_defs readAs_def wfFields_def fitsPool_empty)
qed

lemma fields_canonical_hashes:
  assumes "readMessageAfterType pool (zeroMessage\<lparr>m_Type := t\<rparr>) (n, s) = Inr (m, (n', s'))"
    and hashes: "t = mtHashes"
  shows "readAs pool t n s m n' s'"
proof -
  from hashes obtain m1 n1 s1 hs where m1: "readHashRequest (zeroMessage\<lparr>m_Type := t\<rparr>) (n, s) = Inr (m1, (n1, s1))"
      and hs: "readHashes ((n1 + 31) div 32) [] (n1, s1) = Inr (hs, (n', s'))" "m = m1\<lparr>m_Hashes := hs\<rparr>"
    using assms by (auto simp: readMessageAfterType_def Let_def single_types)
  have "list_all (\<lambda>h. length h = 32) hs" "n1 = 32 * length hs + n'" "s1 = concat hs @ s'"
    using readHashes_Inr[OF hs(1)] by auto
  then show ?thesis
    using readHashRequest_Inr[OF m1] hashes hs(2)
    by (auto simp: message_defs readAs_def wfFields_def fitsPool_empty writeHashCommon_def length_hashes)
qed

lemma fields_canonical:
  assumes "readMessageAfterType pool (zeroMessage\<lparr>m_Type := t\<rparr>) (n, s) = Inr (m, (n', s'))"
  shows "readAs pool t n s m n' s'"
proof (cases t rule: type_cases)
  case empty
  then have "m = zeroMessage\<lparr>m_Type := t\<rparr>" "n = n'" "s = s'" using assms by (simp_all add: readMessageAfterType_def)
  then show ?thesis using empty type_classes(4)[OF empty] by (simp add: message_defs readAs_def wfFields_def fitsPool_empty)
next
  case index
  then obtain i where "m = zeroMessage\<lparr>m_Type := t, m_Index := i\<rparr>" "n = 4 + n'" "s = be32 i @ s'"
    using assms type_classes(1)[OF index] by (auto simp: readMessageAfterType_def Let_def readInteger_Inr)
  then show ?thesis using index type_classes(1)[OF index] by (simp add: message_defs readAs_def wfFields_def fitsPool_empty)
next
  case request
  then obtain i b l where "m = zeroMessage\<lparr>m_Type := t, m_Index := i, m_Begin := b, m_Length := l\<rparr>" "n = 12 + n'" "s = be32 i @ be32 b @ be32 l @ s'"
    using assms type_classes(2)[OF request] by (auto simp: readMessageAfterType_def Let_def readInteger_Inr)
  then show ?thesis using request type_classes(2)[OF request] by (simp add: message_defs readAs_def wfFields_def fitsPool_empty)
next
  case bitfield
  then show ?thesis by (rule fields_canonical_bitfield[OF assms])
next
  case piece
  then show ?thesis by (rule fields_canonical_piece[OF assms])
next
  case extended
  then show ?thesis by (rule fields_canonical_extended[OF assms])
next
  case port
  then obtain p where "m = zeroMessage\<lparr>m_Type := t, m_Port := p\<rparr>" "n = 2 + n'" "s = be16 p @ s'"
    using assms by (auto simp: readMessageAfterType_def Let_def readShort_Inr single_types)
  then show ?thesis using port by (simp add: message_defs readAs_def wfFields_def fitsPool_empty)
next
  case hash
  then show ?thesis by (rule fields_canonical_hash[OF assms])
next
  case hashes
  then show ?thesis by (rule fields_canonical_hashes[OF assms])
next
  case other
  then show ?thesis using assms by (simp add: readMessageAfterType_def Let_def)
qed

section \<open>The wire format\<close>

lemma payload_length: "fold (\<lambda>w n. n + word_of_nat (length w)) ws a = a + (word_of_nat (length (concat ws)) :: 32 word)"
  by (induction ws arbitrary: a) simp_all

text \<open>The encoder and the decoder as a total writer and a partial reader.\<close>

definition encoded :: "Message \<Rightarrow> bytes" where
  "encoded m = (case MarshalBinary m of Inl _ \<Rightarrow> [] | Inr b \<Rightarrow> b)"

definition readMessage :: "32 word \<Rightarrow> nat option \<Rightarrow> bytes \<Rightarrow> (Message \<times> bytes) option" where
  "readMessage maxLength pool s = (case DecodeMessage maxLength pool s of Inl _ \<Rightarrow> None | Inr r \<Rightarrow> Some r)"

lemma MarshalBinary_payload:
  "writePayloadTo m = Inr ws \<Longrightarrow> MarshalBinary m = Inr (be32 (word_of_nat (length (concat ws))) @ concat ws)"
  by (simp add: MarshalBinary_def getPayloadLength_def payload_length)

lemma message_read_back:
  assumes "wfMessage maxLength pool m"
  shows "DecodeMessage maxLength pool (encoded m @ rest) = Inr (m, rest)"
proof -
  obtain ws where ws: "writePayloadTo m = Inr ws" "length (concat ws) \<le> unat maxLength"
    using assms by (auto simp: wfMessage_def split: sum.splits)
  let ?n = "length (concat ws)" and ?w = "word_of_nat (length (concat ws)) :: 32 word"
  have keep: "keepFields m = m" "wfFields m" "fitsPool pool m" using assms by (simp_all add: wfMessage_def)
  have "unat maxLength < 2 ^ 32" by (rule order_less_le_trans[OF unsigned_less]) simp
  then have "?n < 2 ^ 32" using ws(2) by linarith
  then have n: "unat ?w = ?n" by (simp add: unat_of_nat)
  then have le: "\<not> ?w > maxLength" using ws(2) by (simp add: word_less_nat_alt)
  have b: "encoded m @ rest = be32 ?w @ concat ws @ rest" "be32 ?w @ concat ws @ rest \<noteq> []"
    using MarshalBinary_payload[OF ws(1)] length_be(1)[of ?w] by (auto simp: encoded_def simp del: length_be)
  have len: "readInteger (4, be32 ?w @ concat ws @ rest) = Inr (?w, (0, concat ws @ rest))" by (rule readInteger_exact) simp
  show ?thesis
  proof (cases "m_Keepalive m")
    case True
    then have "ws = []" "m = zeroMessage\<lparr>m_Keepalive := True\<rparr>" using ws(1) keep(1) by (simp_all add: writePayloadTo_def keepFields_def Let_def)
    then show ?thesis using len b by (simp add: DecodeMessage_def)
  next
    case False
    then obtain fs where fs: "fieldWrites m = Inr fs" "ws = [m_Type m] # fs" using ws(1) by (auto simp: writePayloadTo_def)
    have "?w \<noteq> 0" using n fs(2) by (metis length_Cons list.size(3) concat.simps(2) length_append nat.distinct(1) unat_0 add_Suc)
    moreover have "readFull 1 (?n, concat ws @ rest) = Inr ([m_Type m], (length (concat fs), concat fs @ rest))"
      using readFull_exact[of "[m_Type m]" 1 ?n "length (concat fs)" "concat fs @ rest"] fs(2) by simp
    ultimately show ?thesis
      using len b le n fields_read_back[OF fs(1) False keep(2,3), of rest] keep(1) by (simp add: DecodeMessage_def)
  qed
qed

lemma message_canonical:
  assumes "DecodeMessage maxLength pool s = Inr (m, rest)"
  shows "wfMessage maxLength pool m \<and> s = encoded m @ rest"
proof -
  obtain w s1 where w: "s = be32 w @ s1" "\<not> w > maxLength"
    and r: "(if w = 0 then Inr (zeroMessage\<lparr>m_Keepalive := True\<rparr>, s1)
        else andThen (readFull 1 (unat w, s1)) (\<lambda>(c, r).
          andThen (readMessageAfterType pool (zeroMessage\<lparr>m_Type := hd c\<rparr>) r) (\<lambda>(m, (n, s)).
            if n \<noteq> 0 then Inl (Unused n) else Inr (m, s)))) = Inr (m, rest)"
    using assms by (auto simp: DecodeMessage_def readInteger_Inr split: if_splits)
  show ?thesis
  proof (cases "w = 0")
    case True
    then have m: "m = zeroMessage\<lparr>m_Keepalive := True\<rparr>" "rest = s1" using r by simp_all
    have "writePayloadTo m = Inr []" "keepFields m = m" "wfFields m" "fitsPool pool m"
      by (simp_all add: m writePayloadTo_def keepFields_def Let_def wfFields_def fitsPool_empty)
    then show ?thesis using w m True MarshalBinary_payload[of m "[]"] by (simp add: wfMessage_def encoded_def)
  next
    case False
    then obtain c n1 s2 where c: "readFull 1 (unat w, s1) = Inr (c, (n1, s2))"
        and a: "readMessageAfterType pool (zeroMessage\<lparr>m_Type := hd c\<rparr>) (n1, s2) = Inr (m, (0, rest))"
      using r by (auto split: if_splits)
    obtain t where t: "c = [t]" "unat w = 1 + n1" "s1 = t # s2" using c by (auto simp: readFull_Inr length_Suc_conv)
    obtain fs where fs: "fieldWrites m = Inr fs" "n1 = length (concat fs)" "s2 = concat fs @ rest" "m_Type m = t"
        "\<not> m_Keepalive m" "keepFields m = m" "wfFields m" "fitsPool pool m"
      using fields_canonical[OF a] t(1) by (auto simp: readAs_def)
    have p: "writePayloadTo m = Inr ([t] # fs)" using fs by (simp add: writePayloadTo_def)
    have n: "length (concat ([t] # fs)) = unat w" using t fs by simp
    have "word_of_nat (unat w) = w" by simp
    then show ?thesis
      using p n w t fs MarshalBinary_payload[OF p] by (simp add: wfMessage_def encoded_def word_less_nat_alt not_less)
  qed
qed

interpretation wire: self_delimiting encoded "readMessage maxLength pool" "wfMessage maxLength pool" for maxLength pool
proof
  fix m rest
  assume "wfMessage maxLength pool m"
  then show "readMessage maxLength pool (encoded m @ rest) = Some (m, rest)"
    by (simp add: readMessage_def message_read_back)
next
  fix s m rest
  assume "readMessage maxLength pool s = Some (m, rest)"
  then show "wfMessage maxLength pool m \<and> s = encoded m @ rest"
    by (intro message_canonical) (auto simp: readMessage_def split: sum.splits)
qed

lemma encoded_wf: "wfMessage maxLength pool m \<Longrightarrow> MarshalBinary m = Inr (encoded m)"
  by (auto simp: wfMessage_def encoded_def MarshalBinary_payload split: sum.splits)

section \<open>Properties\<close>

text \<open>C20: With any length limit and any pool of piece buffers, the decoder returns a message from a
  stream exactly when the message is well formed for them and the stream starts with the bytes the
  encoder writes for it; it then leaves the rest of the stream. So a message is read back as it was
  written, and no two byte sequences decode to the same message.\<close>

theorem peer_messages_exact:
  "DecodeMessage maxLength pool s = Inr (m, rest) \<longleftrightarrow>
   wfMessage maxLength pool m \<and> (\<exists>b. MarshalBinary m = Inr b \<and> s = b @ rest)"
  using wire.accepts_iff[of maxLength pool s m rest] encoded_wf[of maxLength pool m]
  by (auto simp: readMessage_def split: sum.splits)

text \<open>C38: \<open>UnmarshalBinary\<close> rejects as too long every message that is not a keep-alive and whose
  payload is shorter than four gigabytes: it cannot read what \<open>MarshalBinary\<close> writes.\<close>

theorem unmarshal_rejects_messages:
  assumes "MarshalBinary m = Inr b" "\<not> m_Keepalive m" "length b < 2 ^ 32"
  shows "UnmarshalBinary b = Inl TooLong"
proof -
  obtain ws where ws: "writePayloadTo m = Inr ws" using assms(1) by (cases "writePayloadTo m") (simp_all add: MarshalBinary_def getPayloadLength_def)
  let ?w = "word_of_nat (length (concat ws)) :: 32 word"
  have b: "b = be32 ?w @ concat ws" using MarshalBinary_payload[OF ws] assms(1) by simp
  then have "length (concat ws) < 2 ^ 32" using assms(3) by simp
  then have "unat ?w = length (concat ws)" by (simp add: unat_of_nat)
  moreover have "length (concat ws) \<noteq> 0" using ws assms(2) by (auto simp: writePayloadTo_def andThen_Inr)
  ultimately have "?w > 0" by (simp add: word_less_nat_alt)
  moreover have "b \<noteq> []" using b length_be(1)[of ?w] by (auto simp del: length_be)
  ultimately show ?thesis
    using b readInteger_exact[of 4 0 ?w "concat ws"] by (simp add: UnmarshalBinary_def DecodeMessage_def)
qed

theorem unmarshal_rejects_messages_witness:
  "UnmarshalBinary [0, 0, 0, 1, 2] = Inl TooLong"
proof (rule unmarshal_rejects_messages)
  show "MarshalBinary (zeroMessage\<lparr>m_Type := mtInterested\<rparr>) = Inr [0, 0, 0, 1, 2]" by code_simp
qed (simp_all add: zeroMessage_def)

end
