(* ===== verification/Spec2Isabelle.thy ===== *)
theory Spec2Isabelle
  imports StreamSafety Coordinator IntentStore Codec SealWorker StorageRoots Bencode PeerProtocol
begin

text \<open>
  \<^bold>\<open>torrent-stream-hub\<close> is a Go service that keeps a library of torrents, downloads them under a slot
  scheduler, streams their files over HTTP while they download, and survives restarts by means of a
  data base of intents and of checkpoints of verified pieces. This development models the parts that
  decide what the service does; all paths below are relative to \<open>src\<close>.

  \<^bold>\<open>Parts and interaction.\<close> A command of the HTTP layer takes the permits of its records from the
  coordinator, writes the user's wish to the intent store and calls the engine. The engine holds one
  generation per registered torrent: a pure policy, the data gates of the BitTorrent library it
  controls, file priorities and an optional verification attempt. The scheduler grants slots to
  generations. The stream manager counts the sessions of each file and raises the priority of the
  pieces their players need. Payload is placed by layouts below validated storage roots. Verified
  pieces are saved as checkpoints by the seal worker and filtered on restart. The library's codecs
  read and write torrent metadata and peer messages.

  \<^bold>\<open>Theories.\<close>
  \<^item> \<open>Prelude\<close>: results, 64-bit integers, byte strings, bitmaps; the contracts \<open>invariant_system\<close> (a
    step function with an invariant) and \<open>self_delimiting\<close> (a writer and its partial reader).
  \<^item> \<open>Models\<close>: value types of \<open>internal/models\<close>.
  \<^item> \<open>RuntimePolicy\<close>: \<open>engine/runtime_policy.go\<close>, \<open>state_transition.go\<close>,
    \<open>verification_transition.go\<close>. The policy record and its total transition function; the invariant of
    every event sequence, what the gates mean, and that recovery leads back to a slot.
  \<^item> \<open>ManagedTorrent\<close>, \<open>Generation\<close>: one generation with every operation of \<open>engine.go\<close>,
    \<open>quiesce.go\<close>, \<open>download_gate.go\<close>, \<open>priority.go\<close>, \<open>selection.go\<close>, \<open>recheck.go\<close>, \<open>restore.go\<close> and
    their neighbours on it, and the invariant each of them keeps.
  \<^item> \<open>Engine\<close>, \<open>EngineSafety\<close>: the engine record, commands, scheduler (\<open>resource_manager.go\<close>), shutdown,
    and the step relation of their interleavings, cut where the Go code gives up the engine's mutex.
    Shown: gates are only open for eligible generations, slots are bounded and granted in order,
    commands are fenced by generation, and every engine step is a sequence of policy steps.
  \<^item> \<open>StreamPlan\<close>, \<open>StreamManager\<close>, \<open>StreamSafety\<close>: \<open>engine/stream.go\<close>. The piece planner against its
    meaning as a set of bytes; sessions, debounce, direct handles and the priority overlay, composed
    with the engine's steps. Shown: reference counts are exact, channels are closed once, no stream
    outlives its generation, a refresh publishes exactly what the sessions want.
  \<^item> \<open>Coordinator\<close>: \<open>usecase/coordinator.go\<close> and \<open>command_coordination.go\<close> as concurrent threads over a
    registry of permits; mutual exclusion and progress of ordered acquisition.
  \<^item> \<open>IntentStore\<close>: \<open>repository/intent.go\<close> as transactions on tables; commits happen once and stale
    runtimes cannot write.
  \<^item> \<open>GoPath\<close>, \<open>GoText\<close>, \<open>GoAbs\<close>: the parts of Go's \<open>filepath\<close>, \<open>strings\<close> and \<open>utf8\<close> the program uses.
  \<^item> \<open>Payload\<close>, \<open>StorageRoots\<close>: \<open>internal/payload\<close>, \<open>engine/storage_roots.go\<close>, \<open>cleanup.go\<close> and the disk
    check. Layout paths stay inside their root, distinct layouts do not overlap, payload never
    touches the service's own files, folder names are portable.
  \<^item> \<open>Checkpoint\<close>, \<open>Codec\<close>, \<open>SealWorker\<close>: \<open>internal/fastresume\<close>. Validation and filtering of
    checkpoints, the binary envelope with an exact round trip both ways, and the sealing goroutine.
  \<^item> \<open>FileProgress\<close>: \<open>engine/progress.go\<close>, verified bytes of a file against the set of verified bytes.
  \<^item> \<open>Bencode\<close>, \<open>PeerProtocol\<close>: \<open>pkg/anacrolix-torrent/bencode\<close> and \<open>peer_protocol\<close>; reader and
    writer accept and produce exactly the same texts.
  \<^item> This theory holds the properties that span components.

  \<^bold>\<open>State and effects.\<close> A Go struct is a record, a function with an error result is a function into a
  sum whose left part is the error. An operation that changes state returns the new state; one that
  gives up a lock in between is cut into a \<open>Begin\<close> and a \<open>Finish\<close> step, and the step relations
  interleave them with everything else. What other code decides (file system answers, the clock, the
  Unicode tables, the outcome of library calls, callbacks) is an argument of the definitions, so the
  lemmas hold for every such behaviour; assumptions on it are named predicates, and the witnesses
  satisfy them with concrete functions.

  \<^bold>\<open>Bounds and fuel.\<close> \<open>int64\<close> is \<open>int\<close> with \<open>wrap64\<close> where the code can overflow. Loops over parent
  directories are partial functions, and that they return is proved. The bencode reader starts with
  fuel twice the length of the input plus one; each of its calls consumes a byte or is preceded by one that did, and the
  lemmas show that the out-of-fuel result is impossible from there.

  \<^bold>\<open>Not modelled.\<close> The HTTP handlers and routing, logging, configuration loading, tracker lists and the
  web interface format and forward data. The use cases of moving, migrating and recovering
  storage, the remaining repository files, and the persistence workers are sequences of SQL
  statements and file operations whose correctness lies in the data base engine and the file system.
  Of the BitTorrent library the gates, the bencode and message codecs and the file bounds are modelled; connections, piece
  requests, trackers, the DHT, encryption and storage back ends run on sockets, timers and goroutines of that
  library and only meet the service through the gates and priorities above.
\<close>

section \<open>From the player to the pieces\<close>




end
